(* ===== verification/Prelude.thy ===== *)
theory Prelude
  imports Main "HOL-Library.Word" "HOL-Library.Char_ord" "HOL-Library.List_Lexorder"
begin

text \<open>
  Shared vocabulary of the development: the Rust integer operations the sources use
  (checked, saturating), the question-mark operator on results, \<open>str\<close> values as their
  UTF-8 bytes, and \<open>BTreeMap\<close> / \<open>BTreeSet\<close> as strictly sorted lists behind the
  interface locale \<open>ordered_map\<close>. Two locales carry proof patterns every component
  uses: \<open>ordered_map\<close> (lookup laws of an ordered map) and \<open>guarded_system\<close> (an
  invariant kept by every operation holds after every sequence of operations).
\<close>

named_theorems res_iff \<open>inversion of results built with the question-mark operator\<close>
named_theorems arith_defs \<open>definitions of the Rust integer operations\<close>

section \<open>Machine integers\<close>

text \<open>
  Unsigned Rust integers are natural numbers with their bound written out wherever an
  operation can leave the range; \<open>usize\<close> is 64 bits wide. Signed timestamps are
  integers with the range of \<open>i64\<close>.
\<close>

type_synonym u8 = "8 word"
type_synonym u16 = nat
type_synonym u32 = nat
type_synonym u64 = nat
type_synonym usize = nat
type_synonym i64 = int

definition u16_max :: nat where
  [arith_defs]: "u16_max = 65535"

definition u32_max :: nat where
  [arith_defs]: "u32_max = 4294967295"

definition u64_max :: nat where
  [arith_defs]: "u64_max = 18446744073709551615"

definition i64_min :: int where
  [arith_defs]: "i64_min = - 9223372036854775808"

definition i64_max :: int where
  [arith_defs]: "i64_max = 9223372036854775807"

definition checked_add64 :: "nat \<Rightarrow> nat \<Rightarrow> nat option" where
  [arith_defs]: "checked_add64 a b = (if a + b \<le> u64_max then Some (a + b) else None)"

definition checked_mul64 :: "nat \<Rightarrow> nat \<Rightarrow> nat option" where
  [arith_defs]: "checked_mul64 a b = (if a * b \<le> u64_max then Some (a * b) else None)"

text \<open>\<open>AtomicU64\<close> and \<open>AtomicUsize\<close> additions and subtractions wrap around.\<close>

definition fetch_add :: "nat \<Rightarrow> nat \<Rightarrow> nat" where
  [arith_defs]: "fetch_add x n = (x + n) mod 18446744073709551616"

definition fetch_sub :: "nat \<Rightarrow> nat \<Rightarrow> nat" where
  [arith_defs]: "fetch_sub x n = (x + 18446744073709551616 - n) mod 18446744073709551616"

definition sat_add64 :: "nat \<Rightarrow> nat \<Rightarrow> nat" where
  [arith_defs]: "sat_add64 a b = min (a + b) u64_max"

definition sat_mul64 :: "nat \<Rightarrow> nat \<Rightarrow> nat" where
  [arith_defs]: "sat_mul64 a b = min (a * b) u64_max"

definition checked_add_i64 :: "int \<Rightarrow> int \<Rightarrow> int option" where
  [arith_defs]: "checked_add_i64 a b =
     (if i64_min \<le> a + b \<and> a + b \<le> i64_max then Some (a + b) else None)"

definition i64_try_from :: "nat \<Rightarrow> int option" where
  [arith_defs]: "i64_try_from n = (if int n \<le> i64_max then Some (int n) else None)"

lemma checked_add64_Some [res_iff]:
  "checked_add64 a b = Some c \<longleftrightarrow> c = a + b \<and> a + b \<le> u64_max"
  by (auto simp: checked_add64_def)

lemma checked_add64_None [res_iff]: "checked_add64 a b = None \<longleftrightarrow> u64_max < a + b"
  by (auto simp: checked_add64_def)

lemma checked_mul64_Some [res_iff]:
  "checked_mul64 a b = Some c \<longleftrightarrow> c = a * b \<and> a * b \<le> u64_max"
  by (auto simp: checked_mul64_def)

lemma checked_mul64_None [res_iff]: "checked_mul64 a b = None \<longleftrightarrow> u64_max < a * b"
  by (auto simp: checked_mul64_def)

lemma checked_add_i64_Some [res_iff]:
  "checked_add_i64 a b = Some c \<longleftrightarrow> c = a + b \<and> i64_min \<le> a + b \<and> a + b \<le> i64_max"
  by (auto simp: checked_add_i64_def)

lemma i64_try_from_Some [res_iff]: "i64_try_from n = Some c \<longleftrightarrow> c = int n \<and> int n \<le> i64_max"
  by (auto simp: i64_try_from_def)

lemma sat_add64_le [simp]: "sat_add64 a b \<le> u64_max"
  by (simp add: sat_add64_def)

lemma sat_add64_exact: "a + b \<le> u64_max \<Longrightarrow> sat_add64 a b = a + b"
  by (simp add: sat_add64_def)

lemma sat_add64_mono: "a \<le> u64_max \<Longrightarrow> a \<le> sat_add64 a b"
  by (simp add: sat_add64_def)

section \<open>Results\<close>

text \<open>\<open>Result<T, E>\<close> is \<open>'e + 'a\<close>; \<open>res_bind\<close> is the question-mark operator.\<close>

definition res_bind :: "'e + 'a \<Rightarrow> ('a \<Rightarrow> 'e + 'b) \<Rightarrow> 'e + 'b" where
  "res_bind m f = (case m of Inl e \<Rightarrow> Inl e | Inr x \<Rightarrow> f x)"

definition ok_or :: "'a option \<Rightarrow> 'e \<Rightarrow> 'e + 'a" where
  "ok_or m e = (case m of None \<Rightarrow> Inl e | Some x \<Rightarrow> Inr x)"

definition fail_if :: "bool \<Rightarrow> 'e \<Rightarrow> 'e + unit" where
  "fail_if b e = (if b then Inl e else Inr ())"

lemma res_bind_simps [simp]: "res_bind (Inl e) f = Inl e" "res_bind (Inr x) f = f x"
  by (simp_all add: res_bind_def)

lemma ok_or_simps [simp]: "ok_or None e = Inl e" "ok_or (Some x) e = Inr x"
  by (simp_all add: ok_or_def)

lemma fail_if_simps [simp]: "fail_if True e = Inl e" "fail_if False e = Inr ()"
  by (simp_all add: fail_if_def)

lemma res_bind_Inr [res_iff]:
  "res_bind m f = Inr y \<longleftrightarrow> (\<exists>x. m = Inr x \<and> f x = Inr y)"
  by (cases m) auto

lemma res_bind_Inl [res_iff]:
  "res_bind m f = Inl e \<longleftrightarrow> m = Inl e \<or> (\<exists>x. m = Inr x \<and> f x = Inl e)"
  by (cases m) auto

lemma ok_or_Inr [res_iff]: "ok_or m e = Inr x \<longleftrightarrow> m = Some x"
  by (cases m) auto

lemma ok_or_Inl [res_iff]: "ok_or m e = Inl e' \<longleftrightarrow> m = None \<and> e' = e"
  by (cases m) auto

lemma fail_if_Inr [res_iff]: "fail_if b e = Inr u \<longleftrightarrow> \<not> b"
  by (simp add: fail_if_def)

lemma fail_if_Inl [res_iff]: "fail_if b e = Inl e' \<longleftrightarrow> b \<and> e' = e"
  by (auto simp: fail_if_def)

text \<open>\<open>Iterator::try_fold\<close>, and every \<open>for\<close> loop whose body uses the question-mark operator.\<close>

fun try_fold :: "('s \<Rightarrow> 'a \<Rightarrow> 'e + 's) \<Rightarrow> 's \<Rightarrow> 'a list \<Rightarrow> 'e + 's" where
  "try_fold f s [] = Inr s"
| "try_fold f s (x # xs) = res_bind (f s x) (\<lambda>s'. try_fold f s' xs)"

lemma try_fold_append:
  "try_fold f s (xs @ ys) = res_bind (try_fold f s xs) (\<lambda>s'. try_fold f s' ys)"
proof (induction xs arbitrary: s)
  case (Cons x xs)
  then show ?case by (cases "f s x") auto
qed simp

text \<open>An invariant of the loop body that may depend on the elements already consumed.\<close>

lemma try_fold_invariant:
  assumes "try_fold f s xs = Inr t" and "P [] s"
    and "\<And>pre x post u v. xs = pre @ x # post \<Longrightarrow> P pre u \<Longrightarrow> f u x = Inr v \<Longrightarrow> P (pre @ [x]) v"
  shows "P xs t"
proof -
  have "try_fold f s ys = Inr u \<Longrightarrow> ys @ zs = xs \<Longrightarrow> P ys u" for ys zs u
  proof (induction ys arbitrary: u zs rule: rev_induct)
    case Nil
    with assms(2) show ?case by simp
  next
    case (snoc y ys)
    from snoc.prems(1) obtain w where "try_fold f s ys = Inr w" "f w y = Inr u"
      by (auto simp: try_fold_append res_bind_Inr)
    with snoc.IH [of w "y # zs"] assms(3) [of ys y zs w u] snoc.prems(2) show ?case by simp
  qed
  from this [of xs t "[]"] assms(1) show ?thesis by simp
qed

section \<open>State with early return\<close>

text \<open>
  A method on \<open>&mut self\<close> that returns a result is a function from the state to the new
  state and the result; \<open>se_bind\<close> is the question-mark operator on it, \<open>se_for\<close> a loop.
\<close>

type_synonym ('s, 'e, 'a) act = "'s \<Rightarrow> 's \<times> ('e + 'a)"

definition se_return :: "'a \<Rightarrow> ('s, 'e, 'a) act" where
  "se_return x s = (s, Inr x)"

definition se_fail :: "'e \<Rightarrow> ('s, 'e, 'a) act" where
  "se_fail e s = (s, Inl e)"

definition se_bind :: "('s, 'e, 'a) act \<Rightarrow> ('a \<Rightarrow> ('s, 'e, 'b) act) \<Rightarrow> ('s, 'e, 'b) act" where
  "se_bind m f s = (case m s of (s', Inl e) \<Rightarrow> (s', Inl e) | (s', Inr x) \<Rightarrow> f x s')"

fun se_for :: "('a \<Rightarrow> ('s, 'e, unit) act) \<Rightarrow> 'a list \<Rightarrow> ('s, 'e, unit) act" where
  "se_for f [] = se_return ()"
| "se_for f (x # xs) = se_bind (f x) (\<lambda>_. se_for f xs)"

text \<open>
  The rule of inference for such methods: from states that satisfy \<open>P\<close>, a normal return
  establishes \<open>Q\<close> and an early one \<open>R\<close>.
\<close>

definition valid :: "('s \<Rightarrow> bool) \<Rightarrow> ('s, 'e, 'a) act \<Rightarrow> ('a \<Rightarrow> 's \<Rightarrow> bool) \<Rightarrow> ('e \<Rightarrow> 's \<Rightarrow> bool) \<Rightarrow> bool" where
  "valid P m Q R \<longleftrightarrow>
     (\<forall>s. P s \<longrightarrow> (case m s of (s', Inr x) \<Rightarrow> Q x s' | (s', Inl e) \<Rightarrow> R e s'))"

lemma valid_return: "(\<And>s. P s \<Longrightarrow> Q x s) \<Longrightarrow> valid P (se_return x) Q R"
  by (simp add: valid_def se_return_def)

lemma valid_fail: "(\<And>s. P s \<Longrightarrow> R e s) \<Longrightarrow> valid P (se_fail e) Q R"
  by (simp add: valid_def se_fail_def)

lemma valid_bind:
  assumes "valid P m Q' R" and "\<And>x. valid (Q' x) (f x) Q R"
  shows "valid P (se_bind m f) Q R"
  unfolding valid_def
proof (intro allI impI)
  fix s
  assume "P s"
  with assms(1) have m: "case m s of (s', Inr x) \<Rightarrow> Q' x s' | (s', Inl e) \<Rightarrow> R e s'"
    by (simp add: valid_def)
  obtain s' r where r: "m s = (s', r)" by (cases "m s")
  with m assms(2) show "case se_bind m f s of (s', Inr x) \<Rightarrow> Q x s' | (s', Inl e) \<Rightarrow> R e s'"
    by (cases r) (auto simp: se_bind_def valid_def)
qed

lemma valid_for:
  assumes "\<And>x. x \<in> set xs \<Longrightarrow> valid P (f x) (\<lambda>_. P) R"
  shows "valid P (se_for f xs) (\<lambda>_. P) R"
  using assms by (induction xs) (auto intro: valid_return valid_bind)

lemma valid_weaken:
  "valid P' m Q' R' \<Longrightarrow> (\<And>s. P s \<Longrightarrow> P' s) \<Longrightarrow> (\<And>x s. Q' x s \<Longrightarrow> Q x s) \<Longrightarrow>
     (\<And>e s. R' e s \<Longrightarrow> R e s) \<Longrightarrow> valid P m Q R"
  by (fastforce simp: valid_def split: prod.splits sum.splits)

section \<open>Text\<close>

text \<open>
  A Rust \<open>str\<close> is modelled by its UTF-8 bytes, one \<open>char\<close> per byte, so that
  \<open>length\<close> is \<open>str::len\<close> and the lexicographic order on lists is the order of
  \<open>str\<close>. Code points are recovered from the lead byte where the sources iterate over
  \<open>chars()\<close>.
\<close>

abbreviation byte_val :: "char \<Rightarrow> nat" where
  "byte_val c \<equiv> of_char c"

definition is_ascii_control :: "char \<Rightarrow> bool" where
  "is_ascii_control c \<longleftrightarrow> byte_val c < 32 \<or> byte_val c = 127"

definition is_ascii_byte :: "char \<Rightarrow> bool" where
  "is_ascii_byte c \<longleftrightarrow> byte_val c < 128"

definition is_ascii_digit :: "char \<Rightarrow> bool" where
  "is_ascii_digit c \<longleftrightarrow> 48 \<le> byte_val c \<and> byte_val c \<le> 57"

definition is_ascii_uppercase :: "char \<Rightarrow> bool" where
  "is_ascii_uppercase c \<longleftrightarrow> 65 \<le> byte_val c \<and> byte_val c \<le> 90"

definition is_ascii_lowercase :: "char \<Rightarrow> bool" where
  "is_ascii_lowercase c \<longleftrightarrow> 97 \<le> byte_val c \<and> byte_val c \<le> 122"

definition is_ascii_alphanumeric :: "char \<Rightarrow> bool" where
  "is_ascii_alphanumeric c \<longleftrightarrow> is_ascii_digit c \<or> is_ascii_uppercase c \<or> is_ascii_lowercase c"

text \<open>The UTF-8 encodings of the characters with the Unicode property White\_Space.\<close>

definition whitespace_encodings :: "string list" where
  "whitespace_encodings =
     [[CHR 0x09], [CHR 0x0A], [CHR 0x0B], [CHR 0x0C], [CHR 0x0D], [CHR 0x20],
      [CHR 0xC2, CHR 0x85], [CHR 0xC2, CHR 0xA0], [CHR 0xE1, CHR 0x9A, CHR 0x80],
      [CHR 0xE2, CHR 0x80, CHR 0x80], [CHR 0xE2, CHR 0x80, CHR 0x81],
      [CHR 0xE2, CHR 0x80, CHR 0x82], [CHR 0xE2, CHR 0x80, CHR 0x83],
      [CHR 0xE2, CHR 0x80, CHR 0x84], [CHR 0xE2, CHR 0x80, CHR 0x85],
      [CHR 0xE2, CHR 0x80, CHR 0x86], [CHR 0xE2, CHR 0x80, CHR 0x87],
      [CHR 0xE2, CHR 0x80, CHR 0x88], [CHR 0xE2, CHR 0x80, CHR 0x89],
      [CHR 0xE2, CHR 0x80, CHR 0x8A], [CHR 0xE2, CHR 0x80, CHR 0xA8],
      [CHR 0xE2, CHR 0x80, CHR 0xA9], [CHR 0xE2, CHR 0x80, CHR 0xAF],
      [CHR 0xE2, CHR 0x81, CHR 0x9F], [CHR 0xE3, CHR 0x80, CHR 0x80]]"

fun strip_one :: "string list \<Rightarrow> string \<Rightarrow> string option" where
  "strip_one [] s = None"
| "strip_one (w # ws) s =
     (if w \<noteq> [] \<and> take (length w) s = w then Some (drop (length w) s) else strip_one ws s)"

lemma strip_one_shorter: "strip_one ws s = Some t \<Longrightarrow> length t < length s"
  by (induction ws; cases s) (auto split: if_splits)

function trim_with :: "string list \<Rightarrow> string \<Rightarrow> string" where
  "trim_with ws s = (case strip_one ws s of None \<Rightarrow> s | Some t \<Rightarrow> trim_with ws t)"
  by pat_completeness auto
termination
  by (relation "measure (\<lambda>(ws, s). length s)") (auto dest: strip_one_shorter)

declare trim_with.simps [simp del]

definition trim_start :: "string \<Rightarrow> string" where
  "trim_start s = trim_with whitespace_encodings s"

definition trim_end :: "string \<Rightarrow> string" where
  "trim_end s = rev (trim_with (map rev whitespace_encodings) (rev s))"

definition str_trim :: "string \<Rightarrow> string" where
  "str_trim s = trim_end (trim_start s)"

lemma trim_with_length: "length (trim_with ws s) \<le> length s"
  by (induction ws s rule: trim_with.induct)
     (subst trim_with.simps, fastforce dest: strip_one_shorter split: option.splits)

lemma trim_with_id: "trim_with ws s = s \<longleftrightarrow> strip_one ws s = None"
proof (cases "strip_one ws s")
  case None
  then show ?thesis by (simp add: trim_with.simps)
next
  case (Some t)
  then have "length (trim_with ws t) < length s"
    using trim_with_length [of ws t] strip_one_shorter [OF Some] by linarith
  with Some show ?thesis by (subst trim_with.simps) auto
qed

text \<open>A string equals its trimmed form exactly when neither end is whitespace.\<close>

lemma str_trim_id:
  "str_trim s = s \<longleftrightarrow>
     strip_one whitespace_encodings s = None \<and>
     strip_one (map rev whitespace_encodings) (rev s) = None"
proof -
  have le: "length (trim_start s) \<le> length s" "length (str_trim s) \<le> length (trim_start s)"
    using trim_with_length [of whitespace_encodings s]
      trim_with_length [of "map rev whitespace_encodings" "rev (trim_start s)"]
    by (simp_all add: trim_start_def str_trim_def trim_end_def)
  have start: "trim_start s = s" if "str_trim s = s"
  proof (rule ccontr)
    assume "trim_start s \<noteq> s"
    then obtain t where "strip_one whitespace_encodings s = Some t"
      by (auto simp: trim_start_def trim_with_id)
    then have "length (trim_start s) < length s"
      using strip_one_shorter trim_with_length [of whitespace_encodings t]
      by (fastforce simp: trim_start_def trim_with.simps [of whitespace_encodings s])
    with le that show False by simp
  qed
  have ends: "trim_end s = s \<longleftrightarrow> strip_one (map rev whitespace_encodings) (rev s) = None"
    by (metis trim_end_def rev_swap trim_with_id)
  show ?thesis
    using start ends by (metis str_trim_def trim_start_def trim_with_id)
qed

text \<open>\<open>to_string\<close> of an unsigned integer.\<close>

fun nat_to_string :: "nat \<Rightarrow> string" where
  "nat_to_string n =
     (if n < 10 then [char_of (48 + n)]
      else nat_to_string (n div 10) @ [char_of (48 + n mod 10)])"

declare nat_to_string.simps [simp del]

subsection \<open>Characters of a string and bounded sanitised copies\<close>

definition utf8_width :: "char \<Rightarrow> nat" where
  "utf8_width b =
     (if byte_val b < 128 then 1 else if byte_val b < 224 then 2
      else if byte_val b < 240 then 3 else 4)"

function utf8_chars :: "string \<Rightarrow> string list" where
  "utf8_chars [] = []"
| "utf8_chars (b # bs) =
     (b # take (utf8_width b - 1) bs) # utf8_chars (drop (utf8_width b - 1) bs)"
  by pat_completeness auto
termination
  by (relation "measure length") auto

definition char_is_control :: "string \<Rightarrow> bool" where
  "char_is_control c = (case c of [b] \<Rightarrow> is_ascii_control b | _ \<Rightarrow> False)"

fun push_bounded :: "nat \<Rightarrow> string \<Rightarrow> string list \<Rightarrow> string" where
  "push_bounded limit acc [] = acc"
| "push_bounded limit acc (c # cs) =
     (let c' = (if char_is_control c then '' '' else c)
      in if limit < length acc + length c' then acc else push_bounded limit (acc @ c') cs)"

definition sanitize_bounded :: "nat \<Rightarrow> string \<Rightarrow> string" where
  "sanitize_bounded limit s = push_bounded limit [] (utf8_chars s)"

lemma concat_utf8_chars [simp]: "concat (utf8_chars s) = s"
  by (induction s rule: utf8_chars.induct) auto

lemma push_bounded_length: "length acc \<le> limit \<Longrightarrow> length (push_bounded limit acc cs) \<le> limit"
  by (induction limit acc cs rule: push_bounded.induct) (auto simp: Let_def)

lemma sanitize_bounded_length: "length (sanitize_bounded limit s) \<le> limit"
  by (simp add: sanitize_bounded_def push_bounded_length)

text \<open>Well-formed UTF-8, as \<open>std::str::from_utf8\<close> decides it (no overlong forms, no surrogates).\<close>

definition byte_in :: "nat \<Rightarrow> nat \<Rightarrow> char \<Rightarrow> bool" where
  "byte_in lo hi b \<longleftrightarrow> lo \<le> byte_val b \<and> byte_val b \<le> hi"

fun utf8_char_ok :: "string \<Rightarrow> bool" where
  "utf8_char_ok [a] = byte_in 0 0x7F a"
| "utf8_char_ok [a, b] = (byte_in 0xC2 0xDF a \<and> byte_in 0x80 0xBF b)"
| "utf8_char_ok [a, b, c] =
     ((byte_in 0xE0 0xE0 a \<and> byte_in 0xA0 0xBF b \<or> byte_in 0xE1 0xEC a \<and> byte_in 0x80 0xBF b \<or>
       byte_in 0xED 0xED a \<and> byte_in 0x80 0x9F b \<or> byte_in 0xEE 0xEF a \<and> byte_in 0x80 0xBF b) \<and>
      byte_in 0x80 0xBF c)"
| "utf8_char_ok [a, b, c, d] =
     ((byte_in 0xF0 0xF0 a \<and> byte_in 0x90 0xBF b \<or> byte_in 0xF1 0xF3 a \<and> byte_in 0x80 0xBF b \<or>
       byte_in 0xF4 0xF4 a \<and> byte_in 0x80 0x8F b) \<and>
      byte_in 0x80 0xBF c \<and> byte_in 0x80 0xBF d)"
| "utf8_char_ok _ = False"

definition is_utf8 :: "string \<Rightarrow> bool" where
  "is_utf8 s = list_all utf8_char_ok (utf8_chars s)"

lemma utf8_char_control:
  "utf8_char_ok c \<Longrightarrow> char_is_control c \<or> (\<forall>b \<in> set c. \<not> is_ascii_control b)"
  by (induction c rule: utf8_char_ok.induct)
     (auto simp: char_is_control_def is_ascii_control_def byte_in_def)

lemma push_bounded_control:
  assumes "\<forall>b \<in> set acc. \<not> is_ascii_control b"
    and "\<forall>c \<in> set cs. char_is_control c \<or> (\<forall>b \<in> set c. \<not> is_ascii_control b)"
  shows "\<forall>b \<in> set (push_bounded limit acc cs). \<not> is_ascii_control b"
  using assms
proof (induction cs arbitrary: acc)
  case (Cons c cs)
  let ?c = "if char_is_control c then '' '' else c"
  have "\<forall>b \<in> set ?c. \<not> is_ascii_control b"
    using Cons.prems(2) by (auto simp: is_ascii_control_def)
  with Cons.prems have "\<forall>b \<in> set (acc @ ?c). \<not> is_ascii_control b"
    by (metis Un_iff set_append)
  with Cons.prems have "\<forall>b \<in> set (push_bounded limit (acc @ ?c) cs). \<not> is_ascii_control b"
    by (intro Cons.IH) auto
  with Cons.prems(1) show ?case by (simp add: Let_def)
qed simp

text \<open>What the runtime keeps as a reason is bounded and free of ASCII control characters.\<close>

lemma sanitize_bounded_control:
  "is_utf8 s \<Longrightarrow> \<forall>b \<in> set (sanitize_bounded limit s). \<not> is_ascii_control b"
  unfolding sanitize_bounded_def
  by (rule push_bounded_control) (auto simp: is_utf8_def list_all_iff dest: utf8_char_control)

section \<open>Ordered maps and sets\<close>

text \<open>
  \<open>ordered_map\<close> is the contract the sources use of \<open>BTreeMap\<close>: lookup after an insertion
  or a removal, iteration in key order, and that a map is determined by its lookups.
\<close>

locale ordered_map =
  fixes empty :: "'m"
    and ins :: "'k::linorder \<Rightarrow> 'v \<Rightarrow> 'm \<Rightarrow> 'm"
    and del :: "'k \<Rightarrow> 'm \<Rightarrow> 'm"
    and get :: "'m \<Rightarrow> 'k \<Rightarrow> 'v option"
    and keys :: "'m \<Rightarrow> 'k list"
    and inv :: "'m \<Rightarrow> bool"
  assumes get_empty: "get empty = (\<lambda>_. None)"
    and get_ins: "inv m \<Longrightarrow> get (ins k v m) = (get m)(k \<mapsto> v)"
    and get_del: "inv m \<Longrightarrow> get (del k m) = (get m)(k := None)"
    and keys_sorted: "inv m \<Longrightarrow> sorted_wrt (<) (keys m)"
    and keys_dom: "inv m \<Longrightarrow> set (keys m) = dom (get m)"
    and extensional: "inv m \<Longrightarrow> inv n \<Longrightarrow> get m = get n \<Longrightarrow> m = n"
    and inv_empty: "inv empty"
    and inv_ins: "inv m \<Longrightarrow> inv (ins k v m)"
    and inv_del: "inv m \<Longrightarrow> inv (del k m)"
begin

lemma ins_commute:
  "inv m \<Longrightarrow> k \<noteq> l \<Longrightarrow> ins k v (ins l w m) = ins l w (ins k v m)"
  by (rule extensional) (auto simp: get_ins inv_ins fun_upd_twist)

lemma ins_overwrite: "inv m \<Longrightarrow> ins k v (ins k w m) = ins k v m"
  by (rule extensional) (auto simp: get_ins inv_ins)

lemma del_ins: "inv m \<Longrightarrow> get m k = None \<Longrightarrow> del k (ins k v m) = m"
  by (rule extensional) (auto simp: get_ins get_del inv_ins inv_del fun_upd_idem)

lemma keys_ins: "inv m \<Longrightarrow> set (keys (ins k v m)) = insert k (set (keys m))"
  by (simp add: keys_dom get_ins inv_ins)

lemma keys_distinct: "inv m \<Longrightarrow> distinct (keys m)"
  using keys_sorted strict_sorted_iff by blast

end

text \<open>The implementation used throughout: association lists with strictly increasing keys.\<close>

type_synonym ('k, 'v) btree = "('k \<times> 'v) list"

definition bt_inv :: "('k::linorder, 'v) btree \<Rightarrow> bool" where
  "bt_inv m \<longleftrightarrow> sorted_wrt (<) (map fst m)"

fun bt_insert :: "'k::linorder \<Rightarrow> 'v \<Rightarrow> ('k, 'v) btree \<Rightarrow> ('k, 'v) btree" where
  "bt_insert k v [] = [(k, v)]"
| "bt_insert k v ((l, w) # m) =
     (if k < l then (k, v) # (l, w) # m else if k = l then (k, v) # m else (l, w) # bt_insert k v m)"

definition bt_remove :: "'k \<Rightarrow> ('k, 'v) btree \<Rightarrow> ('k, 'v) btree" where
  "bt_remove k m = filter (\<lambda>e. fst e \<noteq> k) m"

definition bt_get :: "('k, 'v) btree \<Rightarrow> 'k \<Rightarrow> 'v option" where
  "bt_get m k = map_of m k"

definition bt_keys :: "('k, 'v) btree \<Rightarrow> 'k list" where
  "bt_keys m = map fst m"

definition bt_values :: "('k, 'v) btree \<Rightarrow> 'v list" where
  "bt_values m = map snd m"

lemma bt_get_map_of: "bt_get m = map_of m"
  by (simp add: fun_eq_iff bt_get_def)

lemma set_bt_insert: "set (map fst (bt_insert k v m)) = insert k (set (map fst m))"
  by (induction k v m rule: bt_insert.induct) auto

lemma bt_inv_insert: "bt_inv m \<Longrightarrow> bt_inv (bt_insert k v m)"
proof (induction k v m rule: bt_insert.induct)
  case (2 k v l w m)
  then show ?case
    using set_bt_insert [of k v m] by (auto simp: bt_inv_def)
qed (simp add: bt_inv_def)

lemma bt_get_insert: "bt_get (bt_insert k v m) = (bt_get m)(k \<mapsto> v)"
  by (induction k v m rule: bt_insert.induct) (auto simp: bt_get_def fun_eq_iff)

lemma bt_get_remove: "bt_get (bt_remove k m) = (bt_get m)(k := None)"
  by (induction m) (auto simp: bt_remove_def bt_get_def fun_eq_iff)

lemma bt_inv_remove: "bt_inv m \<Longrightarrow> bt_inv (bt_remove k m)"
  by (induction m) (auto simp: bt_inv_def bt_remove_def)

lemma bt_inv_distinct: "bt_inv m \<Longrightarrow> distinct (map fst m)"
  using strict_sorted_iff by (auto simp: bt_inv_def)

lemma bt_get_iff: "bt_inv m \<Longrightarrow> bt_get m k = Some v \<longleftrightarrow> (k, v) \<in> set m"
  by (simp add: bt_get_def bt_inv_distinct)

lemma bt_extensional:
  assumes "bt_inv m" and "bt_inv n" and "bt_get m = bt_get n"
  shows "m = n"
proof -
  have "set m = set n"
    using assms bt_get_iff by (metis (no_types, opaque_lifting) subset_antisym subsetI surj_pair)
  moreover have "distinct m" "distinct n"
    using assms(1,2) by (auto dest: bt_inv_distinct simp: distinct_map)
  moreover have "sorted (map fst m)" "sorted (map fst n)" "inj_on fst (set m \<union> set n)"
    using assms(1,2) calculation(1)
    by (auto simp: bt_inv_def strict_sorted_iff distinct_map dest!: bt_inv_distinct)
  ultimately show ?thesis
    using map_sorted_distinct_set_unique [of fst m n] by (metis distinct_map Un_absorb)
qed

interpretation bt: ordered_map "[]" bt_insert bt_remove bt_get bt_keys bt_inv
proof unfold_locales
  show "bt_get [] = (\<lambda>_. None)" by (simp add: bt_get_def fun_eq_iff)
  show "bt_inv m \<Longrightarrow> sorted_wrt (<) (bt_keys m)" for m :: "('a, 'b) btree"
    by (simp add: bt_inv_def bt_keys_def)
  show "bt_inv m \<Longrightarrow> set (bt_keys m) = dom (bt_get m)" for m :: "('a, 'b) btree"
    by (simp add: bt_keys_def bt_get_map_of dom_map_of_conv_image_fst)
  show "bt_inv []" by (simp add: bt_inv_def)
qed (auto simp: bt_get_insert bt_get_remove bt_inv_insert bt_inv_remove intro: bt_extensional)

lemma bt_remove_shorter: "bt_get m k = Some v \<Longrightarrow> length (bt_remove k m) < length m"
  by (induction m) (auto simp: bt_get_def bt_remove_def le_imp_less_Suc length_filter_le split: if_splits)

lemma bt_get_None: "bt_get m k = None \<longleftrightarrow> k \<notin> set (bt_keys m)"
  by (simp add: bt_get_def bt_keys_def map_of_eq_None_iff)

lemma bt_get_empty [simp]: "bt_get [] k = None"
  by (simp add: bt_get_def)

lemma bt_inv_Nil [simp]: "bt_inv []"
  by (simp add: bt_inv_def)

text \<open>Assignment through \<open>get_mut\<close>: replaces the value of a present key, keeps the keys.\<close>

fun bt_set :: "'k \<Rightarrow> 'v \<Rightarrow> ('k, 'v) btree \<Rightarrow> ('k, 'v) btree" where
  "bt_set k v [] = []"
| "bt_set k v ((l, w) # m) = (if k = l then (l, v) # m else (l, w) # bt_set k v m)"

lemma bt_set_keys [simp]: "bt_keys (bt_set k v m) = bt_keys m"
  by (induction k v m rule: bt_set.induct) (auto simp: bt_keys_def)

lemma bt_set_inv [simp]: "bt_inv (bt_set k v m) = bt_inv m"
  using bt_set_keys [of k v m] by (simp add: bt_inv_def bt_keys_def)

lemma bt_get_set:
  "bt_get (bt_set k v m) l = (if l = k \<and> bt_get m k \<noteq> None then Some v else bt_get m l)"
  by (induction k v m rule: bt_set.induct) (auto simp: bt_get_def)

lemma bt_set_sum:
  "bt_get m k = Some d \<Longrightarrow> sum_list (bt_values (bt_set k (v::nat) m)) + d = sum_list (bt_values m) + v"
  by (induction k v m rule: bt_set.induct) (auto simp: bt_get_def bt_values_def split: if_splits)

text \<open>\<open>BTreeSet\<close>: the strictly sorted list of its elements.\<close>

fun bs_insert :: "'k::linorder \<Rightarrow> 'k list \<Rightarrow> 'k list" where
  "bs_insert k [] = [k]"
| "bs_insert k (l # s) = (if k < l then k # l # s else if k = l then l # s else l # bs_insert k s)"

lemma set_bs_insert [simp]: "set (bs_insert k s) = insert k (set s)"
  by (induction k s rule: bs_insert.induct) auto

lemma bs_insert_sorted [simp]: "sorted_wrt (<) s \<Longrightarrow> sorted_wrt (<) (bs_insert k s)"
  by (induction k s rule: bs_insert.induct) auto

lemma bs_insert_length: "length (bs_insert k s) \<le> Suc (length s)"
  by (induction k s rule: bs_insert.induct) auto

section \<open>Systems of operations\<close>

text \<open>
  Every stateful component is a set of operations on one state. An invariant that each
  operation keeps holds after any sequence of operations, in any order.
\<close>

locale guarded_system =
  fixes step :: "'op \<Rightarrow> 's \<Rightarrow> 's"
    and inv :: "'s \<Rightarrow> bool"
  assumes step_inv: "inv s \<Longrightarrow> inv (step a s)"
begin

lemma run_inv: "inv s \<Longrightarrow> inv (fold step ops s)"
  by (induction ops arbitrary: s) (auto intro: step_inv)

lemma run_prefix_inv: "inv s \<Longrightarrow> inv (fold step (take n ops) s)"
  by (rule run_inv)

end

end
