(* ===== verification/Identity.thy ===== *)
theory Identity
  imports Prelude
begin

text \<open>
  Structured errors (\<open>muxiva-types/src/error.rs\<close>), identifiers (\<open>id.rs\<close>), schema
  versions and namespaced names (\<open>schema.rs\<close>), timestamps and sequence counters
  (\<open>time.rs\<close>). The locales \<open>name_contract\<close> and \<open>exact_name_contract\<close> state what every
  validated name type of the code base promises; each validator interprets one of them.
\<close>

section \<open>Errors\<close>

datatype error_category =
    CatConfiguration | CatValidation | CatLifecycle | CatCancelled | CatExternal | CatInternal

datatype error_context =
    CtxSession string
  | CtxNode string
  | CtxStream string
  | CtxPhase string
  | CtxDetail string string

text \<open>The boxed source error is kept as its rendered text; no code reads it back.\<close>

record muxiva_error =
  err_category :: error_category
  err_code :: string
  err_message :: string
  err_contexts :: "error_context list"
  err_cause :: "string option"

definition is_valid_code :: "string \<Rightarrow> bool" where
  "is_valid_code code \<longleftrightarrow>
     6 \<le> length code \<and> length code \<le> 64 \<and> take 7 code = ''MUXIVA-'' \<and>
     list_all (\<lambda>b. is_ascii_uppercase b \<or> is_ascii_digit b \<or> b = CHR ''-'') code"

datatype error_code_error = ErrorCodeError

definition muxiva_error_try_new ::
  "error_category \<Rightarrow> string \<Rightarrow> string \<Rightarrow> error_code_error + muxiva_error" where
  "muxiva_error_try_new category code message =
     (if \<not> is_valid_code code then Inl ErrorCodeError
      else Inr \<lparr>err_category = category, err_code = code, err_message = message,
                err_contexts = [], err_cause = None\<rparr>)"

text \<open>
  \<open>MuxivaError::new\<close> unwraps \<open>try_new\<close> and panics on an invalid code. Every call in the
  modelled sources passes a literal code, and \<open>static_error_codes_valid\<close> checks all of
  them, so the unwrapped value is used directly.
\<close>

definition muxiva_error_new :: "error_category \<Rightarrow> string \<Rightarrow> string \<Rightarrow> muxiva_error" where
  "muxiva_error_new category code message =
     \<lparr>err_category = category, err_code = code, err_message = message,
      err_contexts = [], err_cause = None\<rparr>"

definition with_node :: "muxiva_error \<Rightarrow> string \<Rightarrow> muxiva_error" where
  "with_node e node = e\<lparr>err_contexts := err_contexts e @ [CtxNode node]\<rparr>"

definition with_phase :: "muxiva_error \<Rightarrow> string \<Rightarrow> muxiva_error" where
  "with_phase e phase = e\<lparr>err_contexts := err_contexts e @ [CtxPhase phase]\<rparr>"

definition with_context :: "muxiva_error \<Rightarrow> string \<Rightarrow> string \<Rightarrow> muxiva_error" where
  "with_context e key val = e\<lparr>err_contexts := err_contexts e @ [CtxDetail key val]\<rparr>"

definition with_source :: "muxiva_error \<Rightarrow> string \<Rightarrow> muxiva_error" where
  "with_source e source = e\<lparr>err_cause := Some source\<rparr>"

text \<open>\<open>MuxivaError::new(ErrorCategory::Validation, \<dots>)\<close>, the form the frame layer uses.\<close>

abbreviation validation_error :: "string \<Rightarrow> string \<Rightarrow> muxiva_error" where
  "validation_error code message \<equiv> muxiva_error_new CatValidation code message"

lemma muxiva_error_new_no_panic:
  "is_valid_code code \<Longrightarrow> muxiva_error_try_new cat code msg = Inr (muxiva_error_new cat code msg)"
  by (simp add: muxiva_error_try_new_def muxiva_error_new_def)

lemma error_builders_keep_code [simp]:
  "err_code (with_node e n) = err_code e" "err_code (with_phase e p) = err_code e"
  "err_code (with_context e k v) = err_code e" "err_code (with_source e c) = err_code e"
  "err_category (with_node e n) = err_category e" "err_category (with_context e k v) = err_category e"
  by (simp_all add: with_node_def with_phase_def with_context_def with_source_def)

section \<open>Validated names\<close>

definition clean_name :: "nat \<Rightarrow> string \<Rightarrow> bool" where
  "clean_name limit s \<longleftrightarrow>
     s \<noteq> [] \<and> length s \<le> limit \<and> str_trim s = s \<and> (\<forall>b \<in> set s. \<not> is_ascii_control b)"

locale name_contract =
  fixes accept :: "string \<Rightarrow> 'e + string"
    and limit :: nat
  assumes accept_same: "accept s = Inr t \<Longrightarrow> t = s"
    and accept_clean: "is_utf8 s \<Longrightarrow> accept s = Inr t \<Longrightarrow> clean_name limit s"
begin

lemma accept_stable: "accept s = Inr t \<Longrightarrow> accept t = Inr t"
  using accept_same by blast

lemma accept_length: "is_utf8 s \<Longrightarrow> accept s = Inr t \<Longrightarrow> 0 < length t \<and> length t \<le> limit"
  using accept_same accept_clean by (fastforce simp: clean_name_def)

end

locale exact_name_contract = name_contract +
  assumes clean_accept: "is_utf8 s \<Longrightarrow> clean_name limit s \<Longrightarrow> \<exists>t. accept s = Inr t"
begin

lemma accept_iff: "is_utf8 s \<Longrightarrow> accept s = Inr t \<longleftrightarrow> t = s \<and> clean_name limit s"
  using accept_same accept_clean clean_accept by blast

end

text \<open>Scanning characters and scanning bytes for ASCII controls agree on UTF-8 text.\<close>

lemma utf8_control_bytes:
  assumes "is_utf8 s"
  shows "list_ex char_is_control (utf8_chars s) \<longleftrightarrow> list_ex is_ascii_control s"
proof -
  have mem: "b \<in> set s \<longleftrightarrow> (\<exists>c \<in> set (utf8_chars s). b \<in> set c)" for b
    by (metis UN_iff concat_utf8_chars set_concat)
  have one: "char_is_control c \<longleftrightarrow> (\<exists>b \<in> set c. is_ascii_control b)"
    if "c \<in> set (utf8_chars s)" for c
    using assms that utf8_char_control
    by (fastforce simp: is_utf8_def list_all_iff char_is_control_def split: list.splits)
  show ?thesis
    unfolding list_ex_iff using mem one by blast
qed

section \<open>Identifiers\<close>

datatype identifier_error =
    IdEmpty | IdTooLong | IdLeadingOrTrailingWhitespace | IdContainsControlCharacter

definition validate_identifier :: "string \<Rightarrow> identifier_error + unit" where
  "validate_identifier val =
     (if val = [] then Inl IdEmpty
      else if 255 < length val then Inl IdTooLong
      else if str_trim val \<noteq> val then Inl IdLeadingOrTrailingWhitespace
      else if list_ex char_is_control (utf8_chars val) then Inl IdContainsControlCharacter
      else Inr ())"

text \<open>
  \<open>identifier_type!\<close> makes nine newtypes over the same validation: \<open>GraphId\<close>, \<open>NodeId\<close>,
  \<open>SessionId\<close>, \<open>StreamId\<close>, \<open>TraceId\<close>, \<open>FrameId\<close>, \<open>EdgeId\<close>, \<open>ClockDomainId\<close>, \<open>ProducerId\<close>.
\<close>

type_synonym graph_id = string
type_synonym node_id = string
type_synonym session_id = string
type_synonym stream_id = string
type_synonym trace_id = string
type_synonym frame_id = string
type_synonym edge_id = string
type_synonym clock_domain_id = string
type_synonym producer_id = string

definition identifier_new :: "string \<Rightarrow> identifier_error + string" where
  "identifier_new val = res_bind (validate_identifier val) (\<lambda>_. Inr val)"

interpretation ident: exact_name_contract identifier_new 255
proof unfold_locales
  fix s t
  assume "is_utf8 s"
  then have "list_ex char_is_control (utf8_chars s) \<longleftrightarrow> (\<exists>b \<in> set s. is_ascii_control b)"
    using utf8_control_bytes [of s] by (simp add: list_ex_iff)
  then show "identifier_new s = Inr t \<Longrightarrow> clean_name 255 s"
    and "clean_name 255 s \<Longrightarrow> \<exists>t. identifier_new s = Inr t"
    by (auto simp: identifier_new_def validate_identifier_def clean_name_def split: if_splits)
qed (auto simp: identifier_new_def res_iff)

section \<open>Schema versions and namespaced names\<close>

definition schema_version_new :: "u32 \<Rightarrow> muxiva_error + u32" where
  "schema_version_new val =
     (if val = 0 then Inl (validation_error ''MUXIVA-FRM-SCHEMA-VERSION''
                             ''schema version must be non-zero'')
      else Inr val)"

fun split_on :: "char \<Rightarrow> string \<Rightarrow> string list" where
  "split_on sep [] = [[]]"
| "split_on sep (c # s) =
     (if c = sep then [] # split_on sep s
      else case split_on sep s of [] \<Rightarrow> [[c]] | p # ps \<Rightarrow> (c # p) # ps)"

definition is_valid_namespace_segment :: "string \<Rightarrow> bool" where
  "is_valid_namespace_segment segment =
     (case segment of
        [] \<Rightarrow> False
      | first # bytes \<Rightarrow>
          is_ascii_alphanumeric first \<and>
          \<not> (last segment = CHR ''_'' \<or> last segment = CHR ''-'') \<and>
          list_all (\<lambda>b. is_ascii_alphanumeric b \<or> b = CHR ''_'' \<or> b = CHR ''-'') bytes)"

definition validate_namespace :: "string \<Rightarrow> muxiva_error + unit" where
  "validate_namespace val =
     (if 3 \<le> length val \<and> length val \<le> 255 \<and> list_all is_ascii_byte val \<and>
         2 \<le> length (split_on (CHR ''.'') val) \<and>
         list_all is_valid_namespace_segment (split_on (CHR ''.'') val)
      then Inr ()
      else Inl (validation_error ''MUXIVA-FRM-NAMESPACE'' ''name must be a qualified ASCII namespace''))"

type_synonym namespaced_name = string

definition namespaced_name_new :: "string \<Rightarrow> muxiva_error + namespaced_name" where
  "namespaced_name_new val = res_bind (validate_namespace val) (\<lambda>_. Inr val)"

lemma split_on_nonempty [simp]: "split_on sep s \<noteq> []"
  by (induction s) (auto split: list.splits)

lemma split_on_bytes: "b \<in> set s \<Longrightarrow> b \<noteq> sep \<Longrightarrow> \<exists>p \<in> set (split_on sep s). b \<in> set p"
  by (induction s) (auto split: list.splits if_splits)

lemma namespace_segment_bytes:
  "is_valid_namespace_segment p \<Longrightarrow> b \<in> set p \<Longrightarrow>
     is_ascii_alphanumeric b \<or> b = CHR ''_'' \<or> b = CHR ''-''"
  by (auto simp: is_valid_namespace_segment_def list_all_iff split: list.splits)

lemma namespace_bytes:
  assumes "validate_namespace s = Inr u" and "b \<in> set s"
  shows "is_ascii_alphanumeric b \<or> b \<in> {CHR ''_'', CHR ''-'', CHR ''.''}"
proof (cases "b = CHR ''.''")
  case False
  with split_on_bytes assms(2) obtain p where "p \<in> set (split_on (CHR ''.'') s)" "b \<in> set p"
    by blast
  with assms(1) show ?thesis
    using namespace_segment_bytes
    by (fastforce simp: validate_namespace_def list_all_iff split: if_splits)
qed simp

text \<open>Printable bytes outside the white-space encodings leave nothing to trim.\<close>

lemma strip_one_printable:
  assumes "\<forall>w \<in> set ws. \<exists>b \<in> set w. byte_val b \<le> 32 \<or> 127 \<le> byte_val b"
    and "\<forall>b \<in> set s. 32 < byte_val b \<and> byte_val b < 127"
  shows "strip_one ws s = None"
  using assms
proof (induction ws)
  case (Cons w ws)
  from Cons.prems obtain b where b: "b \<in> set w" "byte_val b \<le> 32 \<or> 127 \<le> byte_val b"
    by auto
  have "take (length w) s \<noteq> w"
  proof
    assume "take (length w) s = w"
    with b(1) have "b \<in> set s" by (metis in_set_takeD)
    with b(2) Cons.prems(2) show False by fastforce
  qed
  with Cons show ?case by simp
qed simp

lemma str_trim_printable:
  assumes "\<forall>b \<in> set s. 32 < byte_val b \<and> byte_val b < 127"
  shows "str_trim s = s"
proof -
  have "\<forall>w \<in> set whitespace_encodings. \<exists>b \<in> set w. byte_val b \<le> 32 \<or> 127 \<le> byte_val b"
    by (simp add: whitespace_encodings_def)
  then show ?thesis
    using assms by (auto simp: str_trim_id intro!: strip_one_printable)
qed

lemma namespaced_name_clean:
  assumes "namespaced_name_new s = Inr t"
  shows "clean_name 255 s"
proof -
  from assms obtain u where ok: "validate_namespace s = Inr u"
    by (auto simp: namespaced_name_new_def res_iff)
  have range: "32 < byte_val b \<and> byte_val b < 127" if "b \<in> set s" for b
    using namespace_bytes [OF ok that]
    by (auto simp: is_ascii_alphanumeric_def is_ascii_digit_def is_ascii_uppercase_def
        is_ascii_lowercase_def)
  then have "str_trim s = s" by (intro str_trim_printable) simp
  moreover have "\<forall>b \<in> set s. \<not> is_ascii_control b"
    using range by (fastforce simp: is_ascii_control_def)
  moreover have "s \<noteq> []" "length s \<le> 255"
    using ok by (auto simp: validate_namespace_def split: if_splits)
  ultimately show ?thesis by (simp add: clean_name_def)
qed

interpretation namespaced: name_contract namespaced_name_new 255
  by unfold_locales (auto simp: namespaced_name_new_def res_iff intro: namespaced_name_clean)

section \<open>Timestamps and sequence counters\<close>

type_synonym timestamp = i64
type_synonym sequence_id = u64

definition timestamp_checked_add :: "timestamp \<Rightarrow> i64 \<Rightarrow> timestamp option" where
  "timestamp_checked_add self nanos =
     (case checked_add_i64 self nanos of Some val \<Rightarrow> Some val | None \<Rightarrow> None)"

definition sequence_checked_next :: "sequence_id \<Rightarrow> sequence_id option" where
  "sequence_checked_next self =
     (case checked_add64 self 1 of Some val \<Rightarrow> Some val | None \<Rightarrow> None)"

lemma timestamp_checked_add_Some [res_iff]:
  "timestamp_checked_add a b = Some c \<longleftrightarrow> c = a + b \<and> i64_min \<le> a + b \<and> a + b \<le> i64_max"
  by (auto simp: timestamp_checked_add_def checked_add_i64_def)

lemma sequence_checked_next_Some [res_iff]:
  "sequence_checked_next a = Some c \<longleftrightarrow> c = Suc a \<and> a < u64_max"
  by (auto simp: sequence_checked_next_def res_iff split: option.splits)

end
