(* ===== verification/Values.thy ===== *)
theory Values
  imports Identity "HOL-Library.Product_Lexorder"
begin

text \<open>
  Metadata values and maps (\<open>muxiva-types/src/value.rs\<close>), extensions (\<open>extension.rs\<close>) and
  lineage (\<open>lineage.rs\<close>). A value map is built by inserting entries one at a time and
  stops at the first bad or repeated key; the lemmas show that the result depends only
  on the set of entries. Floats are kept as their IEEE-754 bit patterns.
\<close>

unbundle bit_operations_syntax

section \<open>Values\<close>

type_synonym frame_buffer = "u8 list"
type_synonym f64 = "64 word"

definition f64_is_finite :: "f64 \<Rightarrow> bool" where
  "f64_is_finite w \<longleftrightarrow> drop_bit 52 w AND 0x7FF \<noteq> 0x7FF"

definition f64_is_zero :: "f64 \<Rightarrow> bool" where
  "f64_is_zero w \<longleftrightarrow> w AND 0x7FFFFFFFFFFFFFFF = 0"

text \<open>Equality of two finite floats: equal bits, or both zeros (of either sign).\<close>

definition finite_f64_eq :: "f64 \<Rightarrow> f64 \<Rightarrow> bool" where
  "finite_f64_eq a b \<longleftrightarrow> a = b \<or> f64_is_zero a \<and> f64_is_zero b"

definition finite_f64_new :: "f64 \<Rightarrow> muxiva_error + f64" where
  "finite_f64_new val =
     (if f64_is_finite val then Inr val
      else Inl (validation_error ''MUXIVA-FRM-VALUE-NUMBER'' ''value must be a finite number''))"

datatype val =
    VNull
  | VBool bool
  | VInteger i64
  | VFloat f64
  | VString string
  | VBytes frame_buffer
  | VList "val list"
  | VMap "(string \<times> val) list"

type_synonym value_map = "(string, val) btree"

text \<open>The derived equality of \<open>Value\<close>, which is not Leibniz equality because of signed zeros.\<close>

primrec value_eq :: "val \<Rightarrow> val \<Rightarrow> bool" where
  "value_eq VNull = (\<lambda>y. case y of VNull \<Rightarrow> True | _ \<Rightarrow> False)"
| "value_eq (VBool a) = (\<lambda>y. case y of VBool b \<Rightarrow> a = b | _ \<Rightarrow> False)"
| "value_eq (VInteger a) = (\<lambda>y. case y of VInteger b \<Rightarrow> a = b | _ \<Rightarrow> False)"
| "value_eq (VFloat a) = (\<lambda>y. case y of VFloat b \<Rightarrow> finite_f64_eq a b | _ \<Rightarrow> False)"
| "value_eq (VString a) = (\<lambda>y. case y of VString b \<Rightarrow> a = b | _ \<Rightarrow> False)"
| "value_eq (VBytes a) = (\<lambda>y. case y of VBytes b \<Rightarrow> a = b | _ \<Rightarrow> False)"
| "value_eq (VList as) =
     (\<lambda>y. case y of VList bs \<Rightarrow> list_all2 (\<lambda>f b. f b) (map value_eq as) bs | _ \<Rightarrow> False)"
| "value_eq (VMap as) =
     (\<lambda>y. case y of
        VMap bs \<Rightarrow> list_all2 (\<lambda>(k, f) (l, b). k = l \<and> f b) (map (map_prod id value_eq) as) bs
      | _ \<Rightarrow> False)"

lemma value_eq_refl: "value_eq v v"
proof (induction v)
  case (VMap es)
  then have "value_eq (snd e) (snd e)" if "e \<in> set es" for e
    using that by (cases e) fastforce
  then show ?case by (auto simp: list_all2_conv_all_nth split_beta)
qed (auto simp: finite_f64_eq_def list_all2_conv_all_nth)

definition invalid_key_error :: muxiva_error where
  "invalid_key_error = validation_error ''MUXIVA-FRM-VALUE-KEY''
     ''value map key must be non-empty, at most 255 bytes, and contain no ASCII controls''"

definition validate_key :: "string \<Rightarrow> muxiva_error + unit" where
  "validate_key key =
     (if key \<noteq> [] \<and> length key \<le> 255 \<and> \<not> list_ex is_ascii_control key
      then Inr () else Inl invalid_key_error)"

text \<open>The loop of \<open>collect_values\<close>: an insertion that finds the key present is an error.\<close>

fun collect_from :: "value_map \<Rightarrow> (string \<times> val) list \<Rightarrow> muxiva_error + value_map" where
  "collect_from m [] = Inr m"
| "collect_from m ((key, v) # values) =
     res_bind (validate_key key)
       (\<lambda>_. if bt_get m key \<noteq> None then Inl invalid_key_error
            else collect_from (bt_insert key v m) values)"

definition collect_values :: "(string \<times> val) list \<Rightarrow> muxiva_error + value_map" where
  "collect_values values = collect_from [] values"

text \<open>\<open>ValueMap::try_from_iter\<close> and \<open>Metadata::try_from_iter\<close> are the same collection.\<close>

type_synonym metadata = value_map

definition value_map_try_from_iter :: "(string \<times> val) list \<Rightarrow> muxiva_error + value_map" where
  "value_map_try_from_iter values = collect_values values"

definition metadata_try_from_iter :: "(string \<times> val) list \<Rightarrow> muxiva_error + metadata" where
  "metadata_try_from_iter values = collect_values values"

subsection \<open>What a collected map holds\<close>

definition insert_all :: "(string \<times> val) list \<Rightarrow> value_map \<Rightarrow> value_map" where
  "insert_all es m = fold (\<lambda>(k, v). bt_insert k v) es m"

lemma insert_all_simps [simp]:
  "insert_all [] m = m" "insert_all ((k, v) # es) m = insert_all es (bt_insert k v m)"
  by (simp_all add: insert_all_def)

lemma insert_all_inv: "bt_inv m \<Longrightarrow> bt_inv (insert_all es m)"
  by (induction es arbitrary: m) (auto simp: bt.inv_ins)

lemma insert_all_get:
  "distinct (map fst es) \<Longrightarrow>
     bt_get (insert_all es m) k = (case map_of es k of None \<Rightarrow> bt_get m k | Some v \<Rightarrow> Some v)"
proof (induction es arbitrary: m)
  case (Cons e es)
  have "map_of es (fst e) = None"
    using Cons.prems by (simp add: map_of_eq_None_iff)
  with Cons show ?case
    by (cases e) (auto simp: bt_get_insert split: option.splits)
qed simp

lemma collect_from_Inr:
  "collect_from m es = Inr r \<longleftrightarrow>
     (\<forall>(k, v) \<in> set es. validate_key k = Inr ()) \<and> distinct (map fst es) \<and>
     (\<forall>k \<in> set (map fst es). bt_get m k = None) \<and> r = insert_all es m"
proof (induction m es rule: collect_from.induct)
  case (2 m key v es)
  show ?case
  proof (cases "validate_key key = Inr () \<and> bt_get m key = None")
    case True
    then have "collect_from m ((key, v) # es) = collect_from (bt_insert key v m) es"
      by simp
    moreover have "(\<forall>k \<in> set (map fst es). bt_get (bt_insert key v m) k = None) \<longleftrightarrow>
        (\<forall>k \<in> set (map fst es). bt_get m k = None) \<and> key \<notin> set (map fst es)"
      by (auto simp: bt_get_insert)
    ultimately show ?thesis using 2 True by auto
  next
    case False
    then show ?thesis by (cases "validate_key key") auto
  qed
qed auto

lemma collect_values_Inr:
  "collect_values es = Inr r \<longleftrightarrow>
     (\<forall>(k, v) \<in> set es. validate_key k = Inr ()) \<and> distinct (map fst es) \<and> r = insert_all es []"
  by (simp add: collect_values_def collect_from_Inr)

lemma collect_values_get:
  assumes "collect_values es = Inr r"
  shows "bt_inv r" and "bt_get r = map_of es"
  using assms
  by (auto simp: collect_values_Inr insert_all_inv insert_all_get fun_eq_iff split: option.splits)

lemma collect_from_error: "collect_from m es = Inl e \<Longrightarrow> e = invalid_key_error"
  by (induction m es rule: collect_from.induct)
     (auto simp: res_iff validate_key_def split: if_splits)

section \<open>Extensions\<close>

datatype extension_visibility = ExtPublic | ExtPrivate

datatype extension_producer = ProdCore | ProdNode node_id | ProdExternal producer_id

record extension =
  ext_key :: namespaced_name
  ext_schema_version :: u32
  ext_producer :: extension_producer
  ext_visibility :: extension_visibility
  ext_value :: val

type_synonym extensions = "extension list"

definition ext_duplicate_error :: muxiva_error where
  "ext_duplicate_error = validation_error ''MUXIVA-FRM-EXTENSION-DUPLICATE''
     ''extension key and schema version must be unique''"

definition ext_id :: "extension \<Rightarrow> namespaced_name \<times> u32" where
  "ext_id e = (ext_key e, ext_schema_version e)"

fun collect_extensions ::
  "(namespaced_name \<times> u32) set \<Rightarrow> extension list \<Rightarrow> extension list \<Rightarrow> muxiva_error + extensions" where
  "collect_extensions keys records [] = Inr records"
| "collect_extensions keys records (e # es) =
     (if ext_id e \<in> keys then Inl ext_duplicate_error
      else collect_extensions (insert (ext_id e) keys) (records @ [e]) es)"

definition extensions_try_from_iter :: "extension list \<Rightarrow> muxiva_error + extensions" where
  "extensions_try_from_iter es = collect_extensions {} [] es"

definition extensions_get :: "extensions \<Rightarrow> namespaced_name \<Rightarrow> u32 \<Rightarrow> extension option" where
  "extensions_get es key version =
     List.find (\<lambda>e. ext_key e = key \<and> ext_schema_version e = version) es"

definition extensions_public_iter :: "extensions \<Rightarrow> extension list" where
  "extensions_public_iter es = filter (\<lambda>e. ext_visibility e = ExtPublic) es"

lemma collect_extensions_Inr:
  "collect_extensions keys records es = Inr r \<longleftrightarrow>
     distinct (map ext_id es) \<and> (\<forall>e \<in> set es. ext_id e \<notin> keys) \<and> r = records @ es"
  by (induction keys records es rule: collect_extensions.induct) (auto simp: image_iff)

lemma extensions_try_from_iter_Inr:
  "extensions_try_from_iter es = Inr r \<longleftrightarrow> distinct (map ext_id es) \<and> r = es"
  by (auto simp: extensions_try_from_iter_def collect_extensions_Inr)

lemma extensions_get_iff:
  assumes "extensions_try_from_iter es = Inr r"
  shows "extensions_get r k v = Some e \<longleftrightarrow> e \<in> set r \<and> ext_id e = (k, v)"
proof -
  from assms have inj: "distinct (map ext_id r)"
    by (auto simp: extensions_try_from_iter_Inr)
  show ?thesis
  proof
    assume "extensions_get r k v = Some e"
    then show "e \<in> set r \<and> ext_id e = (k, v)"
      by (auto simp: extensions_get_def find_Some_iff ext_id_def)
  next
    assume e: "e \<in> set r \<and> ext_id e = (k, v)"
    then obtain e' where e': "extensions_get r k v = Some e'"
      by (cases "extensions_get r k v") (auto simp: extensions_get_def find_None_iff ext_id_def)
    then have "e' \<in> set r \<and> ext_id e' = (k, v)"
      by (auto simp: extensions_get_def find_Some_iff ext_id_def)
    with e inj have "e' = e" by (metis distinct_map inj_on_eq_iff)
    with e' show "extensions_get r k v = Some e" by simp
  qed
qed

section \<open>Clock domains and lineage\<close>

datatype clock_kind = Monotonic | MediaRelative | WallClock

record clock_domain =
  cd_id :: clock_domain_id
  cd_kind :: clock_kind

record media_time_range =
  mr_start :: timestamp
  mr_end :: timestamp
  mr_clock_domain :: clock_domain

definition media_time_range_new ::
  "timestamp \<Rightarrow> timestamp \<Rightarrow> clock_domain \<Rightarrow> muxiva_error + media_time_range" where
  "media_time_range_new start fin clock =
     (if fin \<le> start
      then Inl (validation_error ''MUXIVA-FRM-LINEAGE-TIME-RANGE''
                  ''a media time range must end after it starts'')
      else Inr \<lparr>mr_start = start, mr_end = fin, mr_clock_domain = clock\<rparr>)"

record transform_origin =
  to_node_id :: "node_id option"
  to_edge_id :: "edge_id option"

definition transform_origin_new ::
  "node_id option \<Rightarrow> edge_id option \<Rightarrow> muxiva_error + transform_origin" where
  "transform_origin_new node edge =
     (if node = None \<and> edge = None
      then Inl (validation_error ''MUXIVA-FRM-LINEAGE-ORIGIN''
                  ''lineage origin must identify a node or edge'')
      else Inr \<lparr>to_node_id = node, to_edge_id = edge\<rparr>)"

record lineage_entry =
  le_parent_frame_id :: frame_id
  le_origin :: transform_origin
  le_reason :: string
  le_media_time_range :: "media_time_range option"

definition validate_reason :: "string \<Rightarrow> muxiva_error + unit" where
  "validate_reason reason =
     (if reason = [] \<or> 256 < length reason \<or> list_ex is_ascii_control reason
      then Inl (validation_error ''MUXIVA-FRM-LINEAGE-REASON''
        ''lineage reason must be non-empty, at most 256 bytes, and contain no ASCII controls'')
      else Inr ())"

definition lineage_entry_new ::
  "frame_id \<Rightarrow> transform_origin \<Rightarrow> string \<Rightarrow> muxiva_error + lineage_entry" where
  "lineage_entry_new parent origin reason =
     res_bind (validate_reason reason)
       (\<lambda>_. Inr \<lparr>le_parent_frame_id = parent, le_origin = origin, le_reason = reason,
                  le_media_time_range = None\<rparr>)"

definition with_media_time_range ::
  "frame_id \<Rightarrow> transform_origin \<Rightarrow> string \<Rightarrow> media_time_range \<Rightarrow> muxiva_error + lineage_entry" where
  "with_media_time_range parent origin reason rng =
     res_bind (lineage_entry_new parent origin reason)
       (\<lambda>entry. Inr (entry\<lparr>le_media_time_range := Some rng\<rparr>))"

type_synonym lineage = "lineage_entry list"

definition lineage_append :: "lineage \<Rightarrow> lineage_entry \<Rightarrow> lineage" where
  "lineage_append l entry = l @ [entry]"

lemma lineage_entry_new_Inr [res_iff]:
  "lineage_entry_new p orig r = Inr e \<longleftrightarrow>
     validate_reason r = Inr () \<and>
     e = \<lparr>le_parent_frame_id = p, le_origin = orig, le_reason = r, le_media_time_range = None\<rparr>"
  by (auto simp: lineage_entry_new_def res_iff)

lemma media_time_range_new_Inr [res_iff]:
  "media_time_range_new s e c = Inr r \<longleftrightarrow>
     s < e \<and> r = \<lparr>mr_start = s, mr_end = e, mr_clock_domain = c\<rparr>"
  by (auto simp: media_time_range_new_def)

end
