(* ===== verification/Payloads.thy ===== *)
theory Payloads
  imports Values
begin

text \<open>
  The six payload types of a frame: PCM audio (\<open>muxiva-types/src/frame/audio.rs\<close>), pixel video
  (\<open>video.rs\<close>), text, bytes, signals and events (\<open>message.rs\<close>). The lemmas give the exact
  conditions under which each validating constructor succeeds and the invariant of the
  value it returns; \<open>usize\<close> and \<open>u64\<close> have the same width, so the conversions between
  them cannot fail.
\<close>

section \<open>Audio\<close>

datatype pcm_sample_format = PcmU8 | I16Le | I24Le | I32Le | F32Le | F64Le

fun bytes_per_sample :: "pcm_sample_format \<Rightarrow> usize" where
  "bytes_per_sample PcmU8 = 1"
| "bytes_per_sample I16Le = 2"
| "bytes_per_sample I24Le = 3"
| "bytes_per_sample I32Le = 4"
| "bytes_per_sample F32Le = 4"
| "bytes_per_sample F64Le = 8"

datatype audio_layout = Interleaved | Planar

record audio_data =
  ad_buffer :: frame_buffer
  ad_sample_rate_hz :: u32
  ad_channels :: u16
  ad_sample_format :: pcm_sample_format
  ad_layout :: audio_layout
  ad_samples_per_channel :: u64
  ad_duration_ns :: u64

definition arithmetic_error :: muxiva_error where
  "arithmetic_error = validation_error ''MUXIVA-FRM-ARITHMETIC'' ''frame size arithmetic overflowed''"

definition audio_invalid_plane_error :: muxiva_error where
  "audio_invalid_plane_error =
     validation_error ''MUXIVA-FRM-AUDIO-PLANE'' ''audio plane index is not part of the layout''"

definition checked_product :: "u64 \<Rightarrow> u64 \<Rightarrow> muxiva_error + u64" where
  "checked_product left right = ok_or (checked_mul64 left right) arithmetic_error"

text \<open>Division by \<open>sample_rate_hz\<close> would panic at zero; every caller passes a validated rate.\<close>

definition duration_ns_for_samples :: "u64 \<Rightarrow> u32 \<Rightarrow> muxiva_error + u64" where
  "duration_ns_for_samples samples sample_rate_hz =
     (let rate = sample_rate_hz;
          whole_seconds = samples div rate;
          remaining_samples = samples mod rate
      in ok_or (Option.bind (checked_mul64 whole_seconds 1000000000)
                 (\<lambda>whole. Option.bind (checked_mul64 remaining_samples 1000000000)
                    (\<lambda>fraction. checked_add64 whole (fraction div rate))))
           arithmetic_error)"

definition audio_data_new ::
  "frame_buffer \<Rightarrow> u32 \<Rightarrow> u16 \<Rightarrow> pcm_sample_format \<Rightarrow> audio_layout \<Rightarrow> u64
     \<Rightarrow> muxiva_error + audio_data" where
  "audio_data_new buffer sample_rate_hz channels sample_format layout samples_per_channel =
     (if \<not> (1 \<le> sample_rate_hz \<and> sample_rate_hz \<le> 768000)
      then Inl (validation_error ''MUXIVA-FRM-AUDIO-RATE''
                  ''audio sample rate must be between 1 and 768000 Hz'')
      else if \<not> (1 \<le> channels \<and> channels \<le> 1024)
      then Inl (validation_error ''MUXIVA-FRM-AUDIO-CHANNELS''
                  ''audio channel count must be between 1 and 1024'')
      else if samples_per_channel = 0
      then Inl (validation_error ''MUXIVA-FRM-AUDIO-SAMPLES''
                  ''audio must contain at least one sample per channel'')
      else
        res_bind (checked_product samples_per_channel channels) (\<lambda>samples.
        res_bind (checked_product samples (bytes_per_sample sample_format)) (\<lambda>expected_bytes.
        res_bind (duration_ns_for_samples samples_per_channel sample_rate_hz) (\<lambda>duration_ns.
          if length buffer \<noteq> expected_bytes
          then Inl (with_context (with_context
                 (validation_error ''MUXIVA-FRM-AUDIO-LENGTH''
                    ''audio payload length does not match its declared layout'')
                 ''expected_bytes'' (nat_to_string expected_bytes))
                 ''actual_bytes'' (nat_to_string (length buffer)))
          else Inr \<lparr>ad_buffer = buffer, ad_sample_rate_hz = sample_rate_hz,
                    ad_channels = channels, ad_sample_format = sample_format,
                    ad_layout = layout, ad_samples_per_channel = samples_per_channel,
                    ad_duration_ns = duration_ns\<rparr>))))"

text \<open>\<open>slice::get(start..end)\<close>: absent when the range is inverted or leaves the slice.\<close>

definition slice_get :: "'a list \<Rightarrow> nat \<Rightarrow> nat \<Rightarrow> 'a list option" where
  "slice_get xs start fin =
     (if start \<le> fin \<and> fin \<le> length xs then Some (take (fin - start) (drop start xs)) else None)"

definition audio_plane_bytes :: "audio_data \<Rightarrow> u16 \<Rightarrow> muxiva_error + u8 list" where
  "audio_plane_bytes self plane =
     (case ad_layout self of
        Interleaved \<Rightarrow> if plane = 0 then Inr (ad_buffer self) else Inl audio_invalid_plane_error
      | Planar \<Rightarrow>
          if ad_channels self \<le> plane then Inl audio_invalid_plane_error
          else
            res_bind (checked_product (ad_samples_per_channel self)
                        (bytes_per_sample (ad_sample_format self))) (\<lambda>plane_bytes.
            res_bind (checked_product plane plane_bytes) (\<lambda>start.
            res_bind (ok_or (checked_add64 start plane_bytes) arithmetic_error) (\<lambda>fin.
              ok_or (slice_get (ad_buffer self) start fin) arithmetic_error))))"

subsection \<open>Durations are exact floors\<close>

lemma checked_product_Inr [res_iff]:
  "checked_product a b = Inr c \<longleftrightarrow> c = a * b \<and> a * b \<le> u64_max"
  by (auto simp: checked_product_def res_iff)

lemma split_floor:
  fixes n q r :: nat
  assumes "0 < r"
  shows "n * q div r = n div r * q + (n mod r * q) div r"
proof -
  have "n * q = n div r * q * r + n mod r * q"
    by (metis div_mult_mod_eq distrib_right mult.assoc mult.commute)
  then show ?thesis using assms by simp
qed

text \<open>Splitting into whole seconds and a remainder loses neither precision nor range.\<close>

lemma duration_ns_for_samples_Inr:
  assumes "0 < rate" and "rate \<le> u32_max"
  shows "duration_ns_for_samples samples rate = Inr d \<longleftrightarrow>
         d = samples * 1000000000 div rate \<and> d \<le> u64_max"
proof -
  let ?w = "samples div rate * 1000000000" and ?f = "samples mod rate * 1000000000"
  have "samples mod rate < rate" using assms(1) by simp
  then have "samples mod rate < 4294967296" using assms(2) by (simp add: u32_max_def)
  then have f: "?f \<le> u64_max" by (simp add: u64_max_def)
  have floor: "samples * 1000000000 div rate = ?w + ?f div rate"
    by (rule split_floor) (rule assms(1))
  show ?thesis
    unfolding duration_ns_for_samples_def Let_def floor
    using f by (auto simp: checked_mul64_def checked_add64_def res_iff bind_eq_Some_conv
                 split: if_splits)
qed

subsection \<open>What validated audio satisfies\<close>

definition wf_audio :: "audio_data \<Rightarrow> bool" where
  "wf_audio a \<longleftrightarrow>
     1 \<le> ad_sample_rate_hz a \<and> ad_sample_rate_hz a \<le> 768000 \<and>
     1 \<le> ad_channels a \<and> ad_channels a \<le> 1024 \<and> 1 \<le> ad_samples_per_channel a \<and>
     length (ad_buffer a) =
       ad_samples_per_channel a * ad_channels a * bytes_per_sample (ad_sample_format a) \<and>
     length (ad_buffer a) \<le> u64_max \<and>
     ad_duration_ns a = ad_samples_per_channel a * 1000000000 div ad_sample_rate_hz a \<and>
     ad_duration_ns a \<le> u64_max"

lemma bytes_per_sample_pos [simp]: "0 < bytes_per_sample f"
  by (cases f) simp_all

text \<open>The constructor accepts exactly the well-formed values, and computes the duration.\<close>

lemma audio_data_new_Inr:
  "audio_data_new buffer rate channels fmt layout samples = Inr a \<longleftrightarrow>
     a = \<lparr>ad_buffer = buffer, ad_sample_rate_hz = rate, ad_channels = channels,
          ad_sample_format = fmt, ad_layout = layout, ad_samples_per_channel = samples,
          ad_duration_ns = samples * 1000000000 div rate\<rparr> \<and> wf_audio a"
proof (cases "1 \<le> rate \<and> rate \<le> 768000")
  case True
  then have dur: "duration_ns_for_samples samples rate = Inr d \<longleftrightarrow>
      d = samples * 1000000000 div rate \<and> d \<le> u64_max" for d
    by (intro duration_ns_for_samples_Inr) (simp_all add: u32_max_def)
  have "samples * channels \<le> samples * channels * bytes_per_sample fmt"
    by (simp add: Suc_le_eq)
  then have le: "samples * channels * bytes_per_sample fmt \<le> u64_max \<Longrightarrow> samples * channels \<le> u64_max"
    by (rule le_trans)
  show ?thesis
    using True le
    by (auto simp: audio_data_new_def wf_audio_def res_iff dur)
next
  case False
  then show ?thesis by (auto simp: audio_data_new_def wf_audio_def)
qed

lemma wf_audio_new: "audio_data_new b r c f l s = Inr a \<Longrightarrow> wf_audio a"
  using audio_data_new_Inr by blast

definition plane_size :: "audio_data \<Rightarrow> nat" where
  "plane_size a = ad_samples_per_channel a * bytes_per_sample (ad_sample_format a)"

lemma wf_audio_buffer_length:
  "wf_audio a \<Longrightarrow> length (ad_buffer a) = ad_channels a * plane_size a"
  by (auto simp: wf_audio_def plane_size_def)

lemma audio_plane_bytes_planar:
  assumes "wf_audio a" and "ad_layout a = Planar" and "c < ad_channels a"
  shows "audio_plane_bytes a c = Inr (take (plane_size a) (drop (c * plane_size a) (ad_buffer a)))"
proof -
  have len: "length (ad_buffer a) = ad_channels a * plane_size a" "length (ad_buffer a) \<le> u64_max"
    using wf_audio_buffer_length [OF assms(1)] assms(1) by (simp, simp add: wf_audio_def)
  have "Suc c * plane_size a \<le> ad_channels a * plane_size a"
    using assms(3) by (intro mult_right_mono) auto
  then have fin: "c * plane_size a + plane_size a \<le> length (ad_buffer a)"
    using len by simp
  then have "c * plane_size a \<le> u64_max" "plane_size a \<le> u64_max"
    using len(2) by simp_all
  with fin len(2) assms(2,3) show ?thesis
    by (simp add: audio_plane_bytes_def checked_product_def checked_mul64_def checked_add64_def
        slice_get_def plane_size_def)
qed

lemma concat_slices:
  "length xs = n * k \<Longrightarrow> concat (map (\<lambda>c. take k (drop (c * k) xs)) [0..<n]) = xs"
proof (induction n arbitrary: xs)
  case (Suc n)
  have "concat (map (\<lambda>c. take k (drop (c * k) xs)) (0 # map Suc [0..<n])) =
        take k xs @ concat (map (\<lambda>c. take k (drop (c * k) (drop k xs))) [0..<n])"
    by (simp add: comp_def add.commute)
  also have "\<dots> = take k xs @ drop k xs"
    using Suc.IH [of "drop k xs"] Suc.prems by simp
  finally show ?case
    by (simp only: upt_conv_Cons map_Suc_upt append_take_drop_id zero_less_Suc)
qed simp

text \<open>The planes of planar audio partition its buffer, in channel order.\<close>

lemma audio_planes_partition:
  assumes "wf_audio a" and "ad_layout a = Planar"
  shows "concat (map (\<lambda>c. projr (audio_plane_bytes a c)) [0..<ad_channels a]) = ad_buffer a"
proof -
  have "length (ad_buffer a) = ad_channels a * plane_size a"
    using assms(1) by (rule wf_audio_buffer_length)
  then have "concat (map (\<lambda>c. take (plane_size a) (drop (c * plane_size a) (ad_buffer a)))
      [0..<ad_channels a]) = ad_buffer a"
    by (rule concat_slices)
  moreover have "map (\<lambda>c. projr (audio_plane_bytes a c)) [0..<ad_channels a] =
      map (\<lambda>c. take (plane_size a) (drop (c * plane_size a) (ad_buffer a))) [0..<ad_channels a]"
    using assms by (intro map_cong) (auto simp: audio_plane_bytes_planar)
  ultimately show ?thesis by (simp only:)
qed

section \<open>Video\<close>

datatype pixel_format = PixelRgba8 | PixelYuv420p

record video_plane =
  vp_offset :: usize
  vp_stride :: usize
  vp_row_bytes :: usize
  vp_rows :: u32

datatype video_layout = Rgba8 video_plane | Yuv420p video_plane video_plane video_plane

record video_data =
  vd_buffer :: frame_buffer
  vd_width :: u32
  vd_height :: u32
  vd_pixel_format :: pixel_format
  vd_layout :: video_layout

definition checked_size_product :: "usize \<Rightarrow> usize \<Rightarrow> muxiva_error + usize" where
  "checked_size_product left right = ok_or (checked_mul64 left right) arithmetic_error"

definition checked_size_sum :: "usize \<Rightarrow> usize \<Rightarrow> muxiva_error + usize" where
  "checked_size_sum left right = ok_or (checked_add64 left right) arithmetic_error"

definition dimensions_error :: muxiva_error where
  "dimensions_error = validation_error ''MUXIVA-FRM-VIDEO-DIMENSIONS''
     ''video dimensions are invalid for the pixel format''"

definition video_invalid_plane_error :: muxiva_error where
  "video_invalid_plane_error = validation_error ''MUXIVA-FRM-VIDEO-PLANE''
     ''video plane descriptor is not part of the layout''"

definition validate_nonzero_dimensions :: "u32 \<Rightarrow> u32 \<Rightarrow> muxiva_error + unit" where
  "validate_nonzero_dimensions width height = fail_if (width = 0 \<or> height = 0) dimensions_error"

definition validate_yuv420p_dimensions :: "u32 \<Rightarrow> u32 \<Rightarrow> muxiva_error + unit" where
  "validate_yuv420p_dimensions width height =
     res_bind (validate_nonzero_dimensions width height)
       (\<lambda>_. fail_if (width mod 2 \<noteq> 0 \<or> height mod 2 \<noteq> 0) dimensions_error)"

definition validate_stride :: "usize \<Rightarrow> usize \<Rightarrow> muxiva_error + unit" where
  "validate_stride stride row_bytes =
     fail_if (stride < row_bytes)
       (validation_error ''MUXIVA-FRM-VIDEO-STRIDE''
          ''video stride is smaller than its plane row width'')"

definition validate_payload_length :: "frame_buffer \<Rightarrow> usize \<Rightarrow> muxiva_error + unit" where
  "validate_payload_length buffer expected_bytes =
     fail_if (length buffer \<noteq> expected_bytes)
       (with_context (with_context
          (validation_error ''MUXIVA-FRM-VIDEO-LENGTH''
             ''video payload length does not match its declared layout'')
          ''expected_bytes'' (nat_to_string expected_bytes))
          ''actual_bytes'' (nat_to_string (length buffer)))"

definition video_rgba8 ::
  "frame_buffer \<Rightarrow> u32 \<Rightarrow> u32 \<Rightarrow> usize \<Rightarrow> muxiva_error + video_data" where
  "video_rgba8 buffer width height stride =
     res_bind (validate_nonzero_dimensions width height) (\<lambda>_.
     res_bind (checked_size_product width 4) (\<lambda>row_bytes.
     res_bind (validate_stride stride row_bytes) (\<lambda>_.
     res_bind (checked_size_product stride height) (\<lambda>plane_bytes.
     res_bind (validate_payload_length buffer plane_bytes) (\<lambda>_.
       Inr \<lparr>vd_buffer = buffer, vd_width = width, vd_height = height,
            vd_pixel_format = PixelRgba8,
            vd_layout = Rgba8 \<lparr>vp_offset = 0, vp_stride = stride, vp_row_bytes = row_bytes,
                               vp_rows = height\<rparr>\<rparr>)))))"

definition video_yuv420p ::
  "frame_buffer \<Rightarrow> u32 \<Rightarrow> u32 \<Rightarrow> usize \<Rightarrow> usize \<Rightarrow> usize \<Rightarrow> muxiva_error + video_data" where
  "video_yuv420p buffer width height y_stride u_stride v_stride =
     res_bind (validate_yuv420p_dimensions width height) (\<lambda>_.
     let y_row_bytes = width; chroma_row_bytes = width div 2;
         y_rows = height; chroma_rows = height div 2 in
     res_bind (validate_stride y_stride y_row_bytes) (\<lambda>_.
     res_bind (validate_stride u_stride chroma_row_bytes) (\<lambda>_.
     res_bind (validate_stride v_stride chroma_row_bytes) (\<lambda>_.
     res_bind (checked_size_product y_stride y_rows) (\<lambda>y_bytes.
     res_bind (checked_size_product u_stride chroma_rows) (\<lambda>u_bytes.
     res_bind (checked_size_product v_stride chroma_rows) (\<lambda>v_bytes.
     res_bind (checked_size_sum y_bytes u_bytes) (\<lambda>v_offset.
     res_bind (checked_size_sum v_offset v_bytes) (\<lambda>total_bytes.
     res_bind (validate_payload_length buffer total_bytes) (\<lambda>_.
       Inr \<lparr>vd_buffer = buffer, vd_width = width, vd_height = height,
            vd_pixel_format = PixelYuv420p,
            vd_layout = Yuv420p
              \<lparr>vp_offset = 0, vp_stride = y_stride, vp_row_bytes = y_row_bytes, vp_rows = y_rows\<rparr>
              \<lparr>vp_offset = y_bytes, vp_stride = u_stride, vp_row_bytes = chroma_row_bytes,
               vp_rows = chroma_rows\<rparr>
              \<lparr>vp_offset = v_offset, vp_stride = v_stride, vp_row_bytes = chroma_row_bytes,
               vp_rows = chroma_rows\<rparr>\<rparr>))))))))))"

text \<open>
  \<open>VideoData::plane_bytes\<close> compares addresses: the descriptor must be one of the instances
  borrowed from this very value. A descriptor is therefore either the \<open>k\<close>-th plane of
  this value's layout or an instance that lives elsewhere.
\<close>

datatype plane_ref = OwnPlane nat | ForeignPlane video_plane

fun layout_planes :: "video_layout \<Rightarrow> video_plane list" where
  "layout_planes (Rgba8 plane) = [plane]"
| "layout_planes (Yuv420p y u v) = [y, u, v]"

definition video_plane_bytes :: "video_data \<Rightarrow> plane_ref \<Rightarrow> muxiva_error + u8 list" where
  "video_plane_bytes self ref =
     (case ref of
        ForeignPlane _ \<Rightarrow> Inl video_invalid_plane_error
      | OwnPlane k \<Rightarrow>
          if length (layout_planes (vd_layout self)) \<le> k then Inl video_invalid_plane_error
          else
            let plane = layout_planes (vd_layout self) ! k in
            res_bind (checked_size_product (vp_stride plane) (vp_rows plane)) (\<lambda>plane_bytes.
            res_bind (checked_size_sum (vp_offset plane) plane_bytes) (\<lambda>fin.
              ok_or (slice_get (vd_buffer self) (vp_offset plane) fin) arithmetic_error)))"

subsection \<open>Planes of validated video\<close>

lemma checked_size_Inr [res_iff]:
  "checked_size_product a b = Inr c \<longleftrightarrow> c = a * b \<and> a * b \<le> u64_max"
  "checked_size_sum a b = Inr c \<longleftrightarrow> c = a + b \<and> a + b \<le> u64_max"
  by (auto simp: checked_size_product_def checked_size_sum_def res_iff)

lemmas video_checks = validate_nonzero_dimensions_def validate_yuv420p_dimensions_def
  validate_stride_def validate_payload_length_def

definition plane_extent :: "video_plane \<Rightarrow> nat" where
  "plane_extent p = vp_stride p * vp_rows p"

text \<open>The planes follow each other without gaps, from the start of the buffer to its end.\<close>

fun planes_tile :: "nat \<Rightarrow> video_plane list \<Rightarrow> nat \<Rightarrow> bool" where
  "planes_tile start [] fin \<longleftrightarrow> start = fin"
| "planes_tile start (p # ps) fin \<longleftrightarrow>
     vp_offset p = start \<and> 0 < vp_rows p \<and> vp_row_bytes p \<le> vp_stride p \<and>
     planes_tile (start + plane_extent p) ps fin"

definition wf_video :: "video_data \<Rightarrow> bool" where
  "wf_video v \<longleftrightarrow>
     0 < vd_width v \<and> 0 < vd_height v \<and> length (vd_buffer v) \<le> u64_max \<and>
     planes_tile 0 (layout_planes (vd_layout v)) (length (vd_buffer v)) \<and>
     (case vd_layout v of Rgba8 _ \<Rightarrow> vd_pixel_format v = PixelRgba8
      | Yuv420p _ _ _ \<Rightarrow> vd_pixel_format v = PixelYuv420p)"

lemma wf_video_rgba8: "video_rgba8 b w h s = Inr v \<Longrightarrow> wf_video v"
  by (auto simp: video_rgba8_def res_iff video_checks wf_video_def plane_extent_def)

lemma wf_video_yuv420p: "video_yuv420p b w h ys us vs = Inr v \<Longrightarrow> wf_video v"
  by (auto simp: video_yuv420p_def Let_def res_iff video_checks wf_video_def plane_extent_def
      elim!: evenE)

lemma planes_tile_le: "planes_tile start ps fin \<Longrightarrow> start \<le> fin"
  by (induction ps arbitrary: start) force+

lemma planes_tile_nth:
  "planes_tile start ps fin \<Longrightarrow> k < length ps \<Longrightarrow>
     start \<le> vp_offset (ps ! k) \<and> vp_offset (ps ! k) + plane_extent (ps ! k) \<le> fin \<and>
     vp_row_bytes (ps ! k) \<le> vp_stride (ps ! k)"
proof (induction ps arbitrary: start k)
  case (Cons p ps)
  then show ?case
    using planes_tile_le by (cases k) force+
qed simp

lemma planes_tile_concat:
  "planes_tile start ps (length xs) \<Longrightarrow>
     concat (map (\<lambda>p. take (plane_extent p) (drop (vp_offset p) xs)) ps) = drop start xs"
proof (induction ps arbitrary: start)
  case (Cons p ps)
  then show ?case
    by simp (metis add.commute append_take_drop_id drop_drop)
qed simp

lemma video_plane_bytes_own:
  assumes "wf_video v" and "k < length (layout_planes (vd_layout v))"
  shows "video_plane_bytes v (OwnPlane k) =
         Inr (take (plane_extent (layout_planes (vd_layout v) ! k))
                (drop (vp_offset (layout_planes (vd_layout v) ! k)) (vd_buffer v)))"
proof -
  let ?p = "layout_planes (vd_layout v) ! k"
  have "vp_offset ?p + plane_extent ?p \<le> length (vd_buffer v)" "length (vd_buffer v) \<le> u64_max"
    using assms planes_tile_nth by (auto simp: wf_video_def)
  with assms(2) show ?thesis
    by (auto simp: video_plane_bytes_def checked_size_product_def checked_size_sum_def
        checked_mul64_def checked_add64_def slice_get_def plane_extent_def Let_def)
qed

section \<open>Text, bytes, signals and events\<close>

type_synonym text_data = string

definition text_from_utf8 :: "frame_buffer \<Rightarrow> muxiva_error + text_data" where
  "text_from_utf8 bytes =
     (let text = map (\<lambda>b. char_of (unat b)) bytes in
      if is_utf8 text then Inr text
      else Inl (validation_error ''MUXIVA-FRM-TEXT-UTF8'' ''text payload must contain valid UTF-8''))"

type_synonym media_type = string

definition is_media_token_byte :: "char \<Rightarrow> bool" where
  "is_media_token_byte b \<longleftrightarrow>
     is_ascii_alphanumeric b \<or>
     b \<in> {CHR ''!'', CHR ''#'', CHR 0x24, CHR ''&'', CHR 0x5E, CHR ''_'', CHR ''.'', CHR ''+'', CHR ''-''}"

fun split_once :: "char \<Rightarrow> string \<Rightarrow> (string \<times> string) option" where
  "split_once sep [] = None"
| "split_once sep (c # s) =
     (if c = sep then Some ([], s)
      else case split_once sep s of None \<Rightarrow> None | Some (a, b) \<Rightarrow> Some (c # a, b))"

definition is_valid_media_type :: "string \<Rightarrow> bool" where
  "is_valid_media_type val =
     (if \<not> (1 \<le> length val \<and> length val \<le> 127) \<or> \<not> list_all is_ascii_byte val then False
      else case split_once (CHR ''/'') val of
             None \<Rightarrow> False
           | Some (type_name, subtype) \<Rightarrow>
               type_name \<noteq> [] \<and> subtype \<noteq> [] \<and>
               list_all is_media_token_byte type_name \<and> list_all is_media_token_byte subtype)"

definition media_type_new :: "string \<Rightarrow> muxiva_error + media_type" where
  "media_type_new val =
     (if \<not> is_valid_media_type val
      then Inl (validation_error ''MUXIVA-FRM-MEDIA-TYPE''
                  ''media type must contain one valid ASCII type/subtype pair'')
      else Inr val)"

record byte_data =
  bd_buffer :: frame_buffer
  bd_media_type :: "media_type option"

record signal_data =
  sd_name :: namespaced_name
  sd_schema_version :: u32
  sd_source :: node_id
  sd_payload :: val

record event_data =
  ed_topic :: namespaced_name
  ed_schema_version :: u32
  ed_source :: node_id
  ed_payload :: val

lemma split_once_Some: "split_once sep s = Some (a, b) \<longleftrightarrow> s = a @ sep # b \<and> sep \<notin> set a"
proof (induction s arbitrary: a)
  case (Cons c s)
  show ?case
  proof (cases a)
    case Nil
    then show ?thesis by (auto split: option.splits)
  next
    case (Cons d a')
    show ?thesis
    proof (cases "c = sep")
      case False
      then have "split_once sep (c # s) = Some (a, b) \<longleftrightarrow> d = c \<and> split_once sep s = Some (a', b)"
        using Cons by (cases "split_once sep s") auto
      also have "\<dots> \<longleftrightarrow> d = c \<and> s = a' @ sep # b \<and> sep \<notin> set a'"
        by (simp only: Cons.IH)
      finally show ?thesis using Cons False by auto
    qed (use Cons in auto)
  qed
qed simp

lemma media_token_bytes:
  assumes "is_media_token_byte b"
  shows "32 < byte_val b" and "byte_val b < 127" and "b \<noteq> CHR ''/''"
  using assms by (auto simp: is_media_token_byte_def is_ascii_alphanumeric_def is_ascii_digit_def
      is_ascii_uppercase_def is_ascii_lowercase_def)

lemma media_type_new_Inr:
  "media_type_new s = Inr t \<longleftrightarrow>
     t = s \<and> length s \<le> 127 \<and>
     (\<exists>a b. s = a @ ''/'' @ b \<and> a \<noteq> [] \<and> b \<noteq> [] \<and>
        list_all is_media_token_byte a \<and> list_all is_media_token_byte b)"
  (is "_ \<longleftrightarrow> ?rhs")
proof -
  have ascii: "list_all is_ascii_byte s" if "s = a @ ''/'' @ b" "list_all is_media_token_byte a"
    "list_all is_media_token_byte b" for a b
    using that media_token_bytes(2) by (fastforce simp: list_all_iff is_ascii_byte_def)
  have slash: "CHR ''/'' \<notin> set a" if "list_all is_media_token_byte a" for a
    using that media_token_bytes(3) by (auto simp: list_all_iff)
  have split: "split_once (CHR ''/'') s = Some (a, b)"
    if "s = a @ ''/'' @ b" "list_all is_media_token_byte a" for a b
    using that slash by (simp add: split_once_Some)
  have "media_type_new s = Inr t \<longleftrightarrow> t = s \<and> is_valid_media_type s"
    by (auto simp: media_type_new_def)
  moreover have ?rhs if "is_valid_media_type s" "t = s"
  proof -
    from that(1) obtain a b where "split_once (CHR ''/'') s = Some (a, b)" "length s \<le> 127"
      "a \<noteq> []" "b \<noteq> []" "list_all is_media_token_byte a" "list_all is_media_token_byte b"
      by (auto simp: is_valid_media_type_def split: if_splits option.splits)
    moreover from this(1) have "s = a @ ''/'' @ b" by (simp add: split_once_Some)
    ultimately show ?thesis using that(2) by blast
  qed
  moreover have "is_valid_media_type s" if rhs: "t = s" ?rhs
  proof -
    from rhs obtain a b where ab: "s = a @ ''/'' @ b" "a \<noteq> []" "b \<noteq> []"
      "list_all is_media_token_byte a" "list_all is_media_token_byte b"
      by blast
    with ascii [OF ab(1,4,5)] split [OF ab(1,4)] rhs(2) show ?thesis
      by (auto simp: is_valid_media_type_def)
  qed
  ultimately show ?thesis by blast
qed

text \<open>A media type is a clean name in the sense every validated name of the code base is.\<close>

interpretation media: name_contract media_type_new 127
proof unfold_locales
  fix s t
  assume "media_type_new s = Inr t"
  then obtain a b where ab: "s = a @ ''/'' @ b" "list_all is_media_token_byte a"
      "list_all is_media_token_byte b" and len: "length s \<le> 127"
    by (auto simp: media_type_new_Inr)
  have bytes: "32 < byte_val c \<and> byte_val c < 127" if "c \<in> set s" for c
  proof -
    from that ab have "is_media_token_byte c \<or> c = CHR ''/''" by (auto simp: list_all_iff)
    then show ?thesis using media_token_bytes by auto
  qed
  then have "str_trim s = s" by (intro str_trim_printable) blast
  moreover have "\<forall>c \<in> set s. \<not> is_ascii_control c"
    using bytes by (fastforce simp: is_ascii_control_def)
  ultimately show "clean_name 127 s" using ab len by (simp add: clean_name_def)
qed (simp add: media_type_new_Inr)

section \<open>Properties\<close>

text \<open>
  C15. \<open>AudioData::new\<close> accepts a buffer exactly when its rate, channel and sample counts are
  in range and its length is the product of samples, channels and sample width without
  overflow; the duration it stores is the exact floor of samples over rate in nanoseconds.
\<close>

theorem audio_data_new_exact:
  "audio_data_new buffer rate channels fmt layout samples = Inr a \<longleftrightarrow>
     (1 \<le> rate \<and> rate \<le> 768000) \<and> (1 \<le> channels \<and> channels \<le> 1024) \<and> 1 \<le> samples \<and>
     length buffer = samples * channels * bytes_per_sample fmt \<and> length buffer \<le> u64_max \<and>
     samples * 1000000000 div rate \<le> u64_max \<and>
     a = \<lparr>ad_buffer = buffer, ad_sample_rate_hz = rate, ad_channels = channels,
          ad_sample_format = fmt, ad_layout = layout, ad_samples_per_channel = samples,
          ad_duration_ns = samples * 1000000000 div rate\<rparr>"
  by (auto simp: audio_data_new_Inr wf_audio_def)

text \<open>
  C16. The planes of any video value that \<open>rgba8\<close> or \<open>yuv420p\<close> returns are readable through
  \<open>plane_bytes\<close> and, concatenated in order, are exactly its buffer; a plane holds at least
  its declared row width in every row, and a descriptor of another value is refused.
\<close>

theorem video_planes_partition:
  assumes "video_rgba8 b w h s = Inr v \<or> video_yuv420p b w h ys us vs = Inr v"
  shows "concat (map (\<lambda>k. projr (video_plane_bytes v (OwnPlane k)))
           [0..<length (layout_planes (vd_layout v))]) = b \<and>
         (\<forall>k < length (layout_planes (vd_layout v)).
            \<exists>bytes. video_plane_bytes v (OwnPlane k) = Inr bytes \<and>
              length bytes = vp_stride (layout_planes (vd_layout v) ! k) *
                             vp_rows (layout_planes (vd_layout v) ! k) \<and>
              vp_row_bytes (layout_planes (vd_layout v) ! k)
                \<le> vp_stride (layout_planes (vd_layout v) ! k)) \<and>
         video_plane_bytes v (ForeignPlane p) = Inl video_invalid_plane_error"
proof -
  let ?ps = "layout_planes (vd_layout v)"
  have wf: "wf_video v" and b: "vd_buffer v = b"
    using assms wf_video_rgba8 wf_video_yuv420p
    by (auto simp: video_rgba8_def video_yuv420p_def Let_def res_iff)
  have tile: "planes_tile 0 ?ps (length b)" using wf b by (simp add: wf_video_def)
  have "map (\<lambda>k. projr (video_plane_bytes v (OwnPlane k))) [0..<length ?ps] =
        map (\<lambda>p. take (plane_extent p) (drop (vp_offset p) b)) ?ps"
    by (rule nth_equalityI) (simp_all add: video_plane_bytes_own [OF wf] b)
  with planes_tile_concat [OF tile]
  have "concat (map (\<lambda>k. projr (video_plane_bytes v (OwnPlane k))) [0..<length ?ps]) = b"
    by simp
  moreover have "\<exists>bytes. video_plane_bytes v (OwnPlane k) = Inr bytes \<and>
      length bytes = vp_stride (?ps ! k) * vp_rows (?ps ! k) \<and>
      vp_row_bytes (?ps ! k) \<le> vp_stride (?ps ! k)" if "k < length ?ps" for k
    using video_plane_bytes_own [OF wf that] planes_tile_nth [OF tile that] b
    by (auto simp: plane_extent_def)
  moreover have "video_plane_bytes v (ForeignPlane p) = Inl video_invalid_plane_error"
    by (simp add: video_plane_bytes_def)
  ultimately show ?thesis by blast
qed

theorem video_planes_partition_witness:
  "\<exists>v. video_yuv420p (map of_nat [0..<9]) 2 2 3 1 2 = Inr v \<and>
     concat (map (\<lambda>k. projr (video_plane_bytes v (OwnPlane k)))
       [0..<length (layout_planes (vd_layout v))]) = map of_nat [0..<9]"
proof -
  let ?r = "video_yuv420p (map of_nat [0..<9]) 2 2 3 1 2"
  have "\<exists>v. ?r = Inr v"
    by (simp add: video_yuv420p_def Let_def video_checks checked_size_product_def
        checked_size_sum_def checked_mul64_def checked_add64_def u64_max_def)
  then show ?thesis
    using video_planes_partition [of "map of_nat [0..<9]" 2 2 0 _ 3 1 2] by blast
qed

end
