(* ===== verification/Frames.thy ===== *)
theory Frames
  imports Payloads
begin

text \<open>
  Frame headers (\<open>muxiva-types/src/frame/header.rs\<close>) and frames (\<open>frame/mod.rs\<close>): construction,
  derivation, replacement and the merge of consecutive audio frames, and the public and
  log-safe views. \<open>wf_frame\<close> is the invariant every constructor establishes: the header
  names the type of the payload, the payload is well formed, and no frame is its own
  lineage parent.
\<close>

section \<open>Headers\<close>

datatype frame_type = TyAudio | TyVideo | TyText | TyByte | TySignal | TyEvent

record frame_header =
  fh_frame_id :: frame_id
  fh_timestamp :: timestamp
  fh_clock_domain :: clock_domain
  fh_sequence_id :: sequence_id
  fh_stream_id :: stream_id
  fh_trace_id :: trace_id
  fh_frame_type :: frame_type
  fh_metadata :: metadata
  fh_extensions :: extensions
  fh_lineage :: lineage

definition frame_header_new ::
  "frame_id \<Rightarrow> timestamp \<Rightarrow> clock_domain \<Rightarrow> sequence_id \<Rightarrow> stream_id \<Rightarrow> trace_id \<Rightarrow> frame_type \<Rightarrow>
   metadata \<Rightarrow> extensions \<Rightarrow> lineage \<Rightarrow> muxiva_error + frame_header" where
  "frame_header_new frame_id timestamp clock_domain sequence_id stream_id trace_id frame_type
     metadata extensions lineage =
     (if list_ex (\<lambda>entry. le_parent_frame_id entry = frame_id) lineage
      then Inl (validation_error ''MUXIVA-FRM-LINEAGE-CYCLE''
                  ''a frame cannot name itself as a lineage parent'')
      else Inr \<lparr>fh_frame_id = frame_id, fh_timestamp = timestamp, fh_clock_domain = clock_domain,
                fh_sequence_id = sequence_id, fh_stream_id = stream_id, fh_trace_id = trace_id,
                fh_frame_type = frame_type, fh_metadata = metadata,
                fh_extensions = extensions, fh_lineage = lineage\<rparr>)"

datatype ordering = OrdLess | OrdEqual | OrdGreater

definition compare_timestamp :: "frame_header \<Rightarrow> frame_header \<Rightarrow> muxiva_error + ordering" where
  "compare_timestamp self other =
     (if fh_clock_domain self \<noteq> fh_clock_domain other
      then Inl (with_context (with_context
             (validation_error ''MUXIVA-FRM-CLOCK-DOMAIN''
                ''timestamps from different clock domains cannot be ordered'')
             ''left_clock_domain_id'' (cd_id (fh_clock_domain self)))
             ''right_clock_domain_id'' (cd_id (fh_clock_domain other)))
      else Inr (if fh_timestamp self < fh_timestamp other then OrdLess
                else if fh_timestamp self = fh_timestamp other then OrdEqual else OrdGreater))"

section \<open>Frames\<close>

datatype frame_payload =
    PAudio audio_data | PVideo video_data | PText text_data
  | PByte byte_data | PSignal signal_data | PEvent event_data

fun payload_frame_type :: "frame_payload \<Rightarrow> frame_type" where
  "payload_frame_type (PAudio _) = TyAudio"
| "payload_frame_type (PVideo _) = TyVideo"
| "payload_frame_type (PText _) = TyText"
| "payload_frame_type (PByte _) = TyByte"
| "payload_frame_type (PSignal _) = TySignal"
| "payload_frame_type (PEvent _) = TyEvent"

text \<open>\<open>concrete_frame!\<close> generates one such struct per payload type.\<close>

record 'd concrete_frame =
  cf_header :: frame_header
  cf_data :: 'd

datatype frame =
    FAudio "audio_data concrete_frame"
  | FVideo "video_data concrete_frame"
  | FText "text_data concrete_frame"
  | FByte "byte_data concrete_frame"
  | FSignal "signal_data concrete_frame"
  | FEvent "event_data concrete_frame"

fun frame_type_of :: "frame \<Rightarrow> frame_type" where
  "frame_type_of (FAudio _) = TyAudio"
| "frame_type_of (FVideo _) = TyVideo"
| "frame_type_of (FText _) = TyText"
| "frame_type_of (FByte _) = TyByte"
| "frame_type_of (FSignal _) = TySignal"
| "frame_type_of (FEvent _) = TyEvent"

fun header :: "frame \<Rightarrow> frame_header" where
  "header (FAudio f) = cf_header f"
| "header (FVideo f) = cf_header f"
| "header (FText f) = cf_header f"
| "header (FByte f) = cf_header f"
| "header (FSignal f) = cf_header f"
| "header (FEvent f) = cf_header f"

definition as_audio :: "frame \<Rightarrow> audio_data concrete_frame option" where
  "as_audio self = (case self of FAudio f \<Rightarrow> Some f | _ \<Rightarrow> None)"

definition as_video :: "frame \<Rightarrow> video_data concrete_frame option" where
  "as_video self = (case self of FVideo f \<Rightarrow> Some f | _ \<Rightarrow> None)"

definition as_text :: "frame \<Rightarrow> text_data concrete_frame option" where
  "as_text self = (case self of FText f \<Rightarrow> Some f | _ \<Rightarrow> None)"

definition as_byte :: "frame \<Rightarrow> byte_data concrete_frame option" where
  "as_byte self = (case self of FByte f \<Rightarrow> Some f | _ \<Rightarrow> None)"

definition as_signal :: "frame \<Rightarrow> signal_data concrete_frame option" where
  "as_signal self = (case self of FSignal f \<Rightarrow> Some f | _ \<Rightarrow> None)"

definition as_event :: "frame \<Rightarrow> event_data concrete_frame option" where
  "as_event self = (case self of FEvent f \<Rightarrow> Some f | _ \<Rightarrow> None)"

text \<open>The derived \<open>Debug\<close> name of a frame type.\<close>

fun frame_type_debug :: "frame_type \<Rightarrow> string" where
  "frame_type_debug TyAudio = ''Audio''"
| "frame_type_debug TyVideo = ''Video''"
| "frame_type_debug TyText = ''Text''"
| "frame_type_debug TyByte = ''Byte''"
| "frame_type_debug TySignal = ''Signal''"
| "frame_type_debug TyEvent = ''Event''"

definition type_mismatch_error :: "frame_type \<Rightarrow> frame_type \<Rightarrow> muxiva_error" where
  "type_mismatch_error expected actual =
     with_context (with_context
       (validation_error ''MUXIVA-FRM-TYPE-MISMATCH''
          ''frame header, payload, or expected type differs'')
       ''expected_frame_type'' (frame_type_debug expected))
       ''actual_frame_type'' (frame_type_debug actual)"

fun assemble_frame :: "frame_header \<Rightarrow> frame_payload \<Rightarrow> frame" where
  "assemble_frame h (PAudio d) = FAudio \<lparr>cf_header = h, cf_data = d\<rparr>"
| "assemble_frame h (PVideo d) = FVideo \<lparr>cf_header = h, cf_data = d\<rparr>"
| "assemble_frame h (PText d) = FText \<lparr>cf_header = h, cf_data = d\<rparr>"
| "assemble_frame h (PByte d) = FByte \<lparr>cf_header = h, cf_data = d\<rparr>"
| "assemble_frame h (PSignal d) = FSignal \<lparr>cf_header = h, cf_data = d\<rparr>"
| "assemble_frame h (PEvent d) = FEvent \<lparr>cf_header = h, cf_data = d\<rparr>"

definition frame_new :: "frame_header \<Rightarrow> frame_payload \<Rightarrow> muxiva_error + frame" where
  "frame_new h payload =
     (if fh_frame_type h \<noteq> payload_frame_type payload
      then Inl (type_mismatch_error (fh_frame_type h) (payload_frame_type payload))
      else Inr (assemble_frame h payload))"

definition ensure_type :: "frame \<Rightarrow> frame_type \<Rightarrow> muxiva_error + unit" where
  "ensure_type self expected =
     fail_if (frame_type_of self \<noteq> expected) (type_mismatch_error expected (frame_type_of self))"

fun cloned_payload :: "frame \<Rightarrow> frame_payload" where
  "cloned_payload (FAudio f) = PAudio (cf_data f)"
| "cloned_payload (FVideo f) = PVideo (cf_data f)"
| "cloned_payload (FText f) = PText (cf_data f)"
| "cloned_payload (FByte f) = PByte (cf_data f)"
| "cloned_payload (FSignal f) = PSignal (cf_data f)"
| "cloned_payload (FEvent f) = PEvent (cf_data f)"

fun payload_byte_len :: "frame \<Rightarrow> usize option" where
  "payload_byte_len (FAudio f) = Some (length (ad_buffer (cf_data f)))"
| "payload_byte_len (FVideo f) = Some (length (vd_buffer (cf_data f)))"
| "payload_byte_len (FText f) = Some (length (cf_data f))"
| "payload_byte_len (FByte f) = Some (length (bd_buffer (cf_data f)))"
| "payload_byte_len (FSignal _) = None"
| "payload_byte_len (FEvent _) = None"

text \<open>
  The derived equality of frames. It differs from equality of the model in the values of
  metadata, extensions, signals and events, where the two zeros of a float are equal.
\<close>

definition extension_eq :: "extension \<Rightarrow> extension \<Rightarrow> bool" where
  "extension_eq a b \<longleftrightarrow>
     ext_key a = ext_key b \<and> ext_schema_version a = ext_schema_version b \<and>
     ext_producer a = ext_producer b \<and> ext_visibility a = ext_visibility b \<and>
     value_eq (ext_value a) (ext_value b)"

definition header_eq :: "frame_header \<Rightarrow> frame_header \<Rightarrow> bool" where
  "header_eq a b \<longleftrightarrow>
     fh_frame_id a = fh_frame_id b \<and> fh_timestamp a = fh_timestamp b \<and>
     fh_clock_domain a = fh_clock_domain b \<and> fh_sequence_id a = fh_sequence_id b \<and>
     fh_stream_id a = fh_stream_id b \<and> fh_trace_id a = fh_trace_id b \<and>
     fh_frame_type a = fh_frame_type b \<and> value_eq (VMap (fh_metadata a)) (VMap (fh_metadata b)) \<and>
     list_all2 extension_eq (fh_extensions a) (fh_extensions b) \<and> fh_lineage a = fh_lineage b"

definition payload_eq :: "frame_payload \<Rightarrow> frame_payload \<Rightarrow> bool" where
  "payload_eq p q =
     (case (p, q) of
        (PAudio a, PAudio b) \<Rightarrow> a = b
      | (PVideo a, PVideo b) \<Rightarrow> a = b
      | (PText a, PText b) \<Rightarrow> a = b
      | (PByte a, PByte b) \<Rightarrow> a = b
      | (PSignal a, PSignal b) \<Rightarrow>
          sd_name a = sd_name b \<and> sd_schema_version a = sd_schema_version b \<and>
          sd_source a = sd_source b \<and> value_eq (sd_payload a) (sd_payload b)
      | (PEvent a, PEvent b) \<Rightarrow>
          ed_topic a = ed_topic b \<and> ed_schema_version a = ed_schema_version b \<and>
          ed_source a = ed_source b \<and> value_eq (ed_payload a) (ed_payload b)
      | _ \<Rightarrow> False)"

definition frame_eq :: "frame \<Rightarrow> frame \<Rightarrow> bool" where
  "frame_eq f g \<longleftrightarrow> header_eq (header f) (header g) \<and> payload_eq (cloned_payload f) (cloned_payload g)"

lemma frame_eq_refl: "frame_eq f f"
  using value_eq_refl 
  by (auto simp: frame_eq_def header_eq_def payload_eq_def extension_eq_def list_all2_conv_all_nth
      value_eq_refl split: frame_payload.splits)

lemma frame_eq_type: "frame_eq f g \<Longrightarrow> frame_type_of f = frame_type_of g"
  by (cases f; cases g) (auto simp: frame_eq_def payload_eq_def)

section \<open>Derivation and replacement\<close>

record frame_derivation =
  dv_new_frame_id :: frame_id
  dv_timestamp :: timestamp
  dv_sequence_id :: sequence_id
  dv_origin :: transform_origin
  dv_reason :: string
  dv_metadata :: "metadata option"
  dv_extensions :: "extensions option"
  dv_payload :: "frame_payload option"

definition frame_derivation_new ::
  "frame_id \<Rightarrow> timestamp \<Rightarrow> sequence_id \<Rightarrow> transform_origin \<Rightarrow> string
     \<Rightarrow> muxiva_error + frame_derivation" where
  "frame_derivation_new new_frame_id timestamp sequence_id origin reason =
     res_bind (validate_reason reason)
       (\<lambda>_. Inr \<lparr>dv_new_frame_id = new_frame_id, dv_timestamp = timestamp,
                  dv_sequence_id = sequence_id, dv_origin = origin, dv_reason = reason,
                  dv_metadata = None, dv_extensions = None, dv_payload = None\<rparr>)"

definition with_metadata :: "frame_derivation \<Rightarrow> metadata \<Rightarrow> frame_derivation" where
  "with_metadata self m = self\<lparr>dv_metadata := Some m\<rparr>"

definition with_extensions :: "frame_derivation \<Rightarrow> extensions \<Rightarrow> frame_derivation" where
  "with_extensions self e = self\<lparr>dv_extensions := Some e\<rparr>"

definition with_payload :: "frame_derivation \<Rightarrow> frame_payload \<Rightarrow> frame_derivation" where
  "with_payload self p = self\<lparr>dv_payload := Some p\<rparr>"

definition unwrap_or :: "'a option \<Rightarrow> 'a \<Rightarrow> 'a" where
  "unwrap_or m d = (case m of None \<Rightarrow> d | Some x \<Rightarrow> x)"

definition derive :: "frame \<Rightarrow> frame_derivation \<Rightarrow> muxiva_error + frame" where
  "derive self derivation =
     (if fh_frame_id (header self) = dv_new_frame_id derivation
      then Inl (validation_error ''MUXIVA-FRM-DERIVATION-ID''
                  ''a derived frame must use a different ID from its direct parent'')
      else
        let parent_header = header self;
            payload = unwrap_or (dv_payload derivation) (cloned_payload self) in
        res_bind (lineage_entry_new (fh_frame_id parent_header) (dv_origin derivation)
                    (dv_reason derivation)) (\<lambda>entry.
        res_bind (frame_header_new (dv_new_frame_id derivation) (dv_timestamp derivation)
                    (fh_clock_domain parent_header) (dv_sequence_id derivation)
                    (fh_stream_id parent_header) (fh_trace_id parent_header)
                    (payload_frame_type payload)
                    (unwrap_or (dv_metadata derivation) (fh_metadata parent_header))
                    (unwrap_or (dv_extensions derivation) (fh_extensions parent_header))
                    (lineage_append (fh_lineage parent_header) entry)) (\<lambda>h.
          frame_new h payload)))"

definition attach_replacement_lineage ::
  "frame \<Rightarrow> frame \<Rightarrow> transform_origin \<Rightarrow> string \<Rightarrow> muxiva_error + frame" where
  "attach_replacement_lineage self replacement origin reason =
     (if fh_frame_id (header self) = fh_frame_id (header replacement)
      then Inl (validation_error ''MUXIVA-FRM-REPLACEMENT-ID''
                  ''a replacement frame must use a different ID from its direct parent'')
      else
        let replacement_header = header replacement in
        res_bind (lineage_entry_new (fh_frame_id (header self)) origin reason) (\<lambda>entry.
        res_bind (frame_header_new (fh_frame_id replacement_header)
                    (fh_timestamp replacement_header) (fh_clock_domain replacement_header)
                    (fh_sequence_id replacement_header) (fh_stream_id replacement_header)
                    (fh_trace_id replacement_header) (frame_type_of replacement)
                    (fh_metadata replacement_header) (fh_extensions replacement_header)
                    (lineage_append (fh_lineage (header self)) entry)) (\<lambda>h.
          frame_new h (cloned_payload replacement))))"

section \<open>Merging audio frames\<close>

definition audio_merge_type_error :: muxiva_error where
  "audio_merge_type_error =
     validation_error ''MUXIVA-FRM-AUDIO-MERGE-TYPE'' ''only audio frames can be merged''"

definition audio_merge_compatibility_error :: "string \<Rightarrow> muxiva_error" where
  "audio_merge_compatibility_error message =
     validation_error ''MUXIVA-FRM-AUDIO-MERGE-COMPATIBILITY'' message"

definition MAX_MERGE_PARENTS :: nat where
  "MAX_MERGE_PARENTS = 1024"

definition MERGE_REASON :: string where
  "MERGE_REASON = ''runtime_audio_merge''"

text \<open>The mutable variables of the loop over the parents.\<close>

record merge_state =
  ms_expected_sequence :: sequence_id
  ms_samples_per_channel :: u64
  ms_lineage_entries :: lineage
  ms_seen_ids :: "frame_id list"

definition offset_timestamp :: "timestamp \<Rightarrow> u64 \<Rightarrow> u32 \<Rightarrow> muxiva_error + timestamp" where
  "offset_timestamp first_timestamp samples rate =
     res_bind (duration_ns_for_samples samples rate) (\<lambda>offset.
     res_bind (ok_or (i64_try_from offset) arithmetic_error) (\<lambda>nanos.
       ok_or (timestamp_checked_add first_timestamp nanos) arithmetic_error))"

definition merge_parent ::
  "audio_data concrete_frame \<Rightarrow> transform_origin \<Rightarrow> merge_state \<Rightarrow> frame \<Rightarrow> muxiva_error + merge_state" where
  "merge_parent first origin st parent =
     (let first_header = cf_header first; first_data = cf_data first in
      res_bind (ok_or (as_audio parent) audio_merge_type_error) (\<lambda>audio.
      let h = cf_header audio; data = cf_data audio in
      res_bind (offset_timestamp (fh_timestamp first_header) (ms_samples_per_channel st)
                  (ad_sample_rate_hz first_data)) (\<lambda>expected_timestamp.
      if fh_frame_id h \<in> set (ms_seen_ids st)
      then Inl (audio_merge_compatibility_error ''parent IDs must be unique'')
      else if fh_stream_id h \<noteq> fh_stream_id first_header \<or>
              fh_trace_id h \<noteq> fh_trace_id first_header \<or>
              fh_clock_domain h \<noteq> fh_clock_domain first_header \<or>
              fh_timestamp h \<noteq> expected_timestamp \<or>
              fh_sequence_id h \<noteq> ms_expected_sequence st \<or>
              ad_sample_rate_hz data \<noteq> ad_sample_rate_hz first_data \<or>
              ad_channels data \<noteq> ad_channels first_data \<or>
              ad_sample_format data \<noteq> ad_sample_format first_data \<or>
              ad_layout data \<noteq> ad_layout first_data
      then Inl (audio_merge_compatibility_error
             ''audio parents must be consecutive and share routing, clock, and PCM shape'')
      else
        res_bind (ok_or (checked_add64 (ms_samples_per_channel st) (ad_samples_per_channel data))
                    arithmetic_error) (\<lambda>next_samples.
        res_bind (offset_timestamp (fh_timestamp first_header) next_samples
                    (ad_sample_rate_hz first_data)) (\<lambda>fin.
        res_bind (ok_or (Option.bind (checked_add64 (length (ms_lineage_entries st))
                                        (length (fh_lineage h)))
                           (\<lambda>n. checked_add64 n 1)) arithmetic_error) (\<lambda>next_lineage_len.
        if 4096 < next_lineage_len
        then Inl (validation_error ''MUXIVA-FRM-AUDIO-MERGE-LINEAGE''
                    ''merged audio lineage cannot exceed 4096 entries'')
        else
          res_bind (media_time_range_new expected_timestamp fin (fh_clock_domain h)) (\<lambda>rng.
          res_bind (with_media_time_range (fh_frame_id h) origin MERGE_REASON rng) (\<lambda>entry.
          res_bind (ok_or (sequence_checked_next (ms_expected_sequence st)) arithmetic_error) (\<lambda>next_sequence.
            Inr \<lparr>ms_expected_sequence = next_sequence,
                 ms_samples_per_channel = next_samples,
                 ms_lineage_entries = ms_lineage_entries st @ fh_lineage h @ [entry],
                 ms_seen_ids = bs_insert (fh_frame_id h) (ms_seen_ids st)\<rparr>)))))))))"

text \<open>
  The payload is assembled in layout order. The size pass reports a parent that is not
  audio; after it, \<open>expect\<close> cannot fail and \<open>the\<close> stands for it.
\<close>

definition total_payload_bytes :: "frame list \<Rightarrow> muxiva_error + usize" where
  "total_payload_bytes parents =
     try_fold (\<lambda>sum parent.
       res_bind (ok_or (as_audio parent) audio_merge_type_error) (\<lambda>audio.
         ok_or (checked_add64 sum (length (ad_buffer (cf_data audio)))) arithmetic_error)) 0 parents"

definition expect_audio :: "frame \<Rightarrow> audio_data" where
  "expect_audio parent = cf_data (the (as_audio parent))"

definition merge_audio_payload :: "frame list \<Rightarrow> audio_layout \<Rightarrow> muxiva_error + u8 list" where
  "merge_audio_payload parents layout =
     res_bind (total_payload_bytes parents) (\<lambda>total_bytes.
       case layout of
         Interleaved \<Rightarrow>
           Inr (fold (\<lambda>parent output. output @ ad_buffer (expect_audio parent)) parents [])
       | Planar \<Rightarrow>
           let channels = ad_channels (expect_audio (parents ! 0)) in
           try_fold (\<lambda>output channel.
             try_fold (\<lambda>output parent.
               res_bind (audio_plane_bytes (expect_audio parent) channel)
                 (\<lambda>bytes. Inr (output @ bytes))) output parents) [] [0..<channels])"

definition merge_audio ::
  "frame list \<Rightarrow> frame_id \<Rightarrow> transform_origin \<Rightarrow> muxiva_error + frame" where
  "merge_audio parents new_frame_id origin =
     (if \<not> (2 \<le> length parents \<and> length parents \<le> MAX_MERGE_PARENTS)
      then Inl (validation_error ''MUXIVA-FRM-AUDIO-MERGE-PARENTS''
                  ''audio merge requires between 2 and 1024 parent frames'')
      else
        res_bind (ok_or (as_audio (parents ! 0)) audio_merge_type_error) (\<lambda>first.
        if list_ex (\<lambda>parent. fh_frame_id (header parent) = new_frame_id) parents
        then Inl (validation_error ''MUXIVA-FRM-AUDIO-MERGE-ID''
                    ''a merged frame must use an ID distinct from every parent'')
        else
          let first_data = cf_data first; first_header = cf_header first in
          res_bind (try_fold (merge_parent first origin)
                      \<lparr>ms_expected_sequence = fh_sequence_id first_header,
                       ms_samples_per_channel = 0, ms_lineage_entries = [], ms_seen_ids = []\<rparr>
                      parents) (\<lambda>st.
          res_bind (merge_audio_payload parents (ad_layout first_data)) (\<lambda>payload.
          res_bind (audio_data_new payload (ad_sample_rate_hz first_data) (ad_channels first_data)
                      (ad_sample_format first_data) (ad_layout first_data)
                      (ms_samples_per_channel st)) (\<lambda>merged_audio.
          res_bind (frame_header_new new_frame_id (fh_timestamp first_header)
                      (fh_clock_domain first_header) (fh_sequence_id first_header)
                      (fh_stream_id first_header) (fh_trace_id first_header) TyAudio
                      (fh_metadata first_header) (fh_extensions first_header)
                      (ms_lineage_entries st)) (\<lambda>h.
            frame_new h (PAudio merged_audio)))))))"

section \<open>Views\<close>

record public_frame_view =
  pv_frame_id :: frame_id
  pv_timestamp :: timestamp
  pv_clock_domain :: clock_domain
  pv_sequence_id :: sequence_id
  pv_stream_id :: stream_id
  pv_trace_id :: trace_id
  pv_frame_type :: frame_type
  pv_metadata :: metadata
  pv_extensions :: "extension list"
  pv_lineage :: lineage

definition public_view :: "frame \<Rightarrow> public_frame_view" where
  "public_view self =
     (let h = header self in
      \<lparr>pv_frame_id = fh_frame_id h, pv_timestamp = fh_timestamp h,
       pv_clock_domain = fh_clock_domain h, pv_sequence_id = fh_sequence_id h,
       pv_stream_id = fh_stream_id h, pv_trace_id = fh_trace_id h,
       pv_frame_type = frame_type_of self, pv_metadata = fh_metadata h,
       pv_extensions = extensions_public_iter (fh_extensions h), pv_lineage = fh_lineage h\<rparr>)"

record log_safe_frame_view =
  lv_frame_id :: frame_id
  lv_stream_id :: stream_id
  lv_trace_id :: trace_id
  lv_frame_type :: frame_type
  lv_timestamp :: timestamp
  lv_clock_domain :: clock_domain
  lv_sequence_id :: sequence_id
  lv_payload_byte_len :: "usize option"
  lv_metadata_key_count :: usize
  lv_public_extension_count :: usize
  lv_lineage_count :: usize

definition log_safe_view :: "frame \<Rightarrow> log_safe_frame_view" where
  "log_safe_view self =
     (let h = header self in
      \<lparr>lv_frame_id = fh_frame_id h, lv_stream_id = fh_stream_id h, lv_trace_id = fh_trace_id h,
       lv_frame_type = frame_type_of self, lv_timestamp = fh_timestamp h,
       lv_clock_domain = fh_clock_domain h, lv_sequence_id = fh_sequence_id h,
       lv_payload_byte_len = payload_byte_len self,
       lv_metadata_key_count = length (fh_metadata h),
       lv_public_extension_count = length (extensions_public_iter (fh_extensions h)),
       lv_lineage_count = length (fh_lineage h)\<rparr>)"

section \<open>The frame invariant\<close>

fun wf_payload :: "frame_payload \<Rightarrow> bool" where
  "wf_payload (PAudio d) = wf_audio d"
| "wf_payload (PVideo d) = wf_video d"
| "wf_payload _ = True"

definition wf_header :: "frame_header \<Rightarrow> bool" where
  "wf_header h \<longleftrightarrow> (\<forall>entry \<in> set (fh_lineage h). le_parent_frame_id entry \<noteq> fh_frame_id h)"

definition wf_frame :: "frame \<Rightarrow> bool" where
  "wf_frame f \<longleftrightarrow>
     wf_header (header f) \<and> fh_frame_type (header f) = frame_type_of f \<and> wf_payload (cloned_payload f)"

lemma frame_header_new_Inr [res_iff]:
  "frame_header_new i t c s st tr ty m e l = Inr h \<longleftrightarrow>
     (\<forall>entry \<in> set l. le_parent_frame_id entry \<noteq> i) \<and>
     h = \<lparr>fh_frame_id = i, fh_timestamp = t, fh_clock_domain = c, fh_sequence_id = s,
          fh_stream_id = st, fh_trace_id = tr, fh_frame_type = ty, fh_metadata = m,
          fh_extensions = e, fh_lineage = l\<rparr>"
  by (auto simp: frame_header_new_def list_ex_iff)

lemma frame_new_Inr [res_iff]:
  "frame_new h p = Inr f \<longleftrightarrow> fh_frame_type h = payload_frame_type p \<and> f = assemble_frame h p"
  by (auto simp: frame_new_def)

lemma assemble_frame_simps [simp]:
  "header (assemble_frame h p) = h"
  "frame_type_of (assemble_frame h p) = payload_frame_type p"
  "cloned_payload (assemble_frame h p) = p"
  by (cases p; simp)+

lemma cloned_payload_type [simp]: "payload_frame_type (cloned_payload f) = frame_type_of f"
  by (cases f) simp_all

lemma as_audio_Some [res_iff]: "as_audio f = Some a \<longleftrightarrow> f = FAudio a"
  by (cases f) (simp_all add: as_audio_def)

lemma as_audio_FAudio [simp]: "as_audio (FAudio a) = Some a"
  by (simp add: as_audio_def)

lemma frame_determined: "header f = header g \<Longrightarrow> cloned_payload f = cloned_payload g \<Longrightarrow> f = g"
  by (cases f; cases g) (auto intro: concrete_frame.equality)

lemma wf_frame_new: "wf_header h \<Longrightarrow> wf_payload p \<Longrightarrow> frame_new h p = Inr f \<Longrightarrow> wf_frame f"
  by (auto simp: wf_frame_def res_iff)

lemma derive_Inr:
  "derive f d = Inr g \<longleftrightarrow>
     fh_frame_id (header f) \<noteq> dv_new_frame_id d \<and> validate_reason (dv_reason d) = Inr () \<and>
     (\<forall>entry \<in> set (fh_lineage (header f)). le_parent_frame_id entry \<noteq> dv_new_frame_id d) \<and>
     cloned_payload g = unwrap_or (dv_payload d) (cloned_payload f) \<and>
     header g =
       (header f)\<lparr>fh_frame_id := dv_new_frame_id d, fh_timestamp := dv_timestamp d,
         fh_sequence_id := dv_sequence_id d, fh_frame_type := frame_type_of g,
         fh_metadata := unwrap_or (dv_metadata d) (fh_metadata (header f)),
         fh_extensions := unwrap_or (dv_extensions d) (fh_extensions (header f)),
         fh_lineage := fh_lineage (header f) @
           [\<lparr>le_parent_frame_id = fh_frame_id (header f), le_origin = dv_origin d,
             le_reason = dv_reason d, le_media_time_range = None\<rparr>]\<rparr>"
  (is "_ \<longleftrightarrow> ?ok \<and> ?reason \<and> ?lin \<and> cloned_payload g = ?p \<and> header g = ?h (frame_type_of g)")
proof -
  have "derive f d = Inr g \<longleftrightarrow>
      ?ok \<and> ?reason \<and> ?lin \<and> g = assemble_frame (?h (payload_frame_type ?p)) ?p"
    by (cases "header f") (auto simp: derive_def Let_def res_iff lineage_append_def)
  also have "g = assemble_frame (?h (payload_frame_type ?p)) ?p \<longleftrightarrow>
      cloned_payload g = ?p \<and> header g = ?h (frame_type_of g)"
    using cloned_payload_type [of g] frame_determined [of g] by (auto simp del: cloned_payload_type)
  finally show ?thesis .
qed

lemma attach_replacement_lineage_Inr:
  "attach_replacement_lineage f r origin reason = Inr g \<longleftrightarrow>
     fh_frame_id (header f) \<noteq> fh_frame_id (header r) \<and> validate_reason reason = Inr () \<and>
     (\<forall>entry \<in> set (fh_lineage (header f)). le_parent_frame_id entry \<noteq> fh_frame_id (header r)) \<and>
     cloned_payload g = cloned_payload r \<and>
     header g =
       (header r)\<lparr>fh_frame_type := frame_type_of r,
         fh_lineage := fh_lineage (header f) @
           [\<lparr>le_parent_frame_id = fh_frame_id (header f), le_origin = origin,
             le_reason = reason, le_media_time_range = None\<rparr>]\<rparr>"
  (is "_ \<longleftrightarrow> ?ok \<and> ?reason \<and> ?lin \<and> cloned_payload g = ?p \<and> header g = ?h")
proof -
  have "attach_replacement_lineage f r origin reason = Inr g \<longleftrightarrow>
      ?ok \<and> ?reason \<and> ?lin \<and> g = assemble_frame ?h ?p"
    by (cases "header r") (auto simp: attach_replacement_lineage_def Let_def res_iff lineage_append_def)
  also have "g = assemble_frame ?h ?p \<longleftrightarrow> cloned_payload g = ?p \<and> header g = ?h"
    using frame_determined [of g] by auto
  finally show ?thesis .
qed

lemma wf_derive:
  assumes "wf_frame f" and "\<And>p. dv_payload d = Some p \<Longrightarrow> wf_payload p" and "derive f d = Inr g"
  shows "wf_frame g"
proof -
  have "wf_payload (unwrap_or (dv_payload d) (cloned_payload f))"
    using assms(1,2) by (auto simp: unwrap_or_def wf_frame_def split: option.splits)
  with assms(3) show ?thesis
    by (auto simp: derive_Inr wf_frame_def wf_header_def)
qed

lemma wf_attach_replacement_lineage:
  "wf_frame r \<Longrightarrow> attach_replacement_lineage f r origin reason = Inr g \<Longrightarrow> wf_frame g"
  using cloned_payload_type [of g] cloned_payload_type [of r]
  by (auto simp: attach_replacement_lineage_Inr wf_frame_def wf_header_def simp del: cloned_payload_type)

section \<open>What a merge returns\<close>

type_synonym audio_frame = "audio_data concrete_frame"

abbreviation samples_of :: "audio_frame \<Rightarrow> nat" where
  "samples_of a \<equiv> ad_samples_per_channel (cf_data a)"

definition time_at :: "timestamp \<Rightarrow> u32 \<Rightarrow> nat \<Rightarrow> timestamp" where
  "time_at t rate samples = t + int (samples * 1000000000 div rate)"

text \<open>The direct-parent entry of a parent that starts after \<open>n\<close> samples of the merge.\<close>

definition merge_entry :: "timestamp \<Rightarrow> u32 \<Rightarrow> transform_origin \<Rightarrow> nat \<Rightarrow> audio_frame \<Rightarrow> lineage_entry" where
  "merge_entry t rate origin n a =
     \<lparr>le_parent_frame_id = fh_frame_id (cf_header a), le_origin = origin, le_reason = MERGE_REASON,
      le_media_time_range = Some
        \<lparr>mr_start = time_at t rate n, mr_end = time_at t rate (n + samples_of a),
         mr_clock_domain = fh_clock_domain (cf_header a)\<rparr>\<rparr>"

fun merged_lineage :: "timestamp \<Rightarrow> u32 \<Rightarrow> transform_origin \<Rightarrow> nat \<Rightarrow> audio_frame list \<Rightarrow> lineage" where
  "merged_lineage t rate origin n [] = []"
| "merged_lineage t rate origin n (a # as) =
     fh_lineage (cf_header a) @ merge_entry t rate origin n a #
     merged_lineage t rate origin (n + samples_of a) as"

text \<open>The parents continue the first frame: same routing and PCM shape, no gap in time or count.\<close>

fun consecutive :: "audio_frame \<Rightarrow> nat \<Rightarrow> nat \<Rightarrow> audio_frame list \<Rightarrow> bool" where
  "consecutive first k n [] \<longleftrightarrow> True"
| "consecutive first k n (a # as) \<longleftrightarrow>
     fh_stream_id (cf_header a) = fh_stream_id (cf_header first) \<and>
     fh_trace_id (cf_header a) = fh_trace_id (cf_header first) \<and>
     fh_clock_domain (cf_header a) = fh_clock_domain (cf_header first) \<and>
     fh_sequence_id (cf_header a) = fh_sequence_id (cf_header first) + k \<and>
     fh_timestamp (cf_header a) =
       time_at (fh_timestamp (cf_header first)) (ad_sample_rate_hz (cf_data first)) n \<and>
     ad_sample_rate_hz (cf_data a) = ad_sample_rate_hz (cf_data first) \<and>
     ad_channels (cf_data a) = ad_channels (cf_data first) \<and>
     ad_sample_format (cf_data a) = ad_sample_format (cf_data first) \<and>
     ad_layout (cf_data a) = ad_layout (cf_data first) \<and>
     consecutive first (Suc k) (n + samples_of a) as"

lemma merged_lineage_append:
  "merged_lineage t r orig n (as @ bs) =
     merged_lineage t r orig n as @ merged_lineage t r orig (n + sum_list (map samples_of as)) bs"
  by (induction as arbitrary: n) (simp_all add: add.assoc)

lemma consecutive_append:
  "consecutive f k n (as @ bs) \<longleftrightarrow>
     consecutive f k n as \<and> consecutive f (k + length as) (n + sum_list (map samples_of as)) bs"
  by (induction as arbitrary: k n) (simp_all add: add.assoc)

lemma consecutive_shape:
  "consecutive f k n as \<Longrightarrow> a \<in> set as \<Longrightarrow>
     ad_channels (cf_data a) = ad_channels (cf_data f) \<and>
     ad_sample_format (cf_data a) = ad_sample_format (cf_data f) \<and>
     ad_layout (cf_data a) = ad_layout (cf_data f)"
  by (induction as arbitrary: k n) auto

lemma offset_timestamp_Inr:
  assumes "1 \<le> rate" and "rate \<le> 768000" and "offset_timestamp t n rate = Inr u"
  shows "u = time_at t rate n"
proof -
  have dur: "duration_ns_for_samples n rate = Inr d \<longleftrightarrow>
      d = n * 1000000000 div rate \<and> d \<le> u64_max" for d
    using assms(1,2) by (intro duration_ns_for_samples_Inr) (simp_all add: u32_max_def)
  from assms(3) show ?thesis
    by (auto simp: offset_timestamp_def res_iff dur time_at_def)
qed

lemma with_media_time_range_Inr [res_iff]:
  "with_media_time_range p orig r rng = Inr e \<longleftrightarrow>
     validate_reason r = Inr () \<and>
     e = \<lparr>le_parent_frame_id = p, le_origin = orig, le_reason = r, le_media_time_range = Some rng\<rparr>"
  by (auto simp: with_media_time_range_def res_iff)

text \<open>What the loop over the parents has established after a prefix of them.\<close>

definition merge_progress :: "audio_frame \<Rightarrow> transform_origin \<Rightarrow> frame list \<Rightarrow> merge_state \<Rightarrow> bool" where
  "merge_progress first origin pre st \<longleftrightarrow>
     (\<exists>as. pre = map FAudio as \<and> consecutive first 0 0 as \<and>
        ms_expected_sequence st = fh_sequence_id (cf_header first) + length as \<and>
        ms_samples_per_channel st = sum_list (map samples_of as) \<and>
        distinct (map (\<lambda>a. fh_frame_id (cf_header a)) as) \<and>
        set (ms_seen_ids st) = (\<lambda>a. fh_frame_id (cf_header a)) ` set as \<and>
        ms_lineage_entries st =
          merged_lineage (fh_timestamp (cf_header first)) (ad_sample_rate_hz (cf_data first)) origin 0 as)"

lemma merge_parent_progress:
  assumes rate: "1 \<le> ad_sample_rate_hz (cf_data first)" "ad_sample_rate_hz (cf_data first) \<le> 768000"
    and pre: "merge_progress first origin pre st"
    and step: "merge_parent first origin st x = Inr st'"
  shows "merge_progress first origin (pre @ [x]) st'"
proof -
  from pre obtain as where as: "pre = map FAudio as" "consecutive first 0 0 as"
    "ms_expected_sequence st = fh_sequence_id (cf_header first) + length as"
    "ms_samples_per_channel st = sum_list (map samples_of as)"
    "distinct (map (\<lambda>a. fh_frame_id (cf_header a)) as)"
    "set (ms_seen_ids st) = (\<lambda>a. fh_frame_id (cf_header a)) ` set as"
    "ms_lineage_entries st =
       merged_lineage (fh_timestamp (cf_header first)) (ad_sample_rate_hz (cf_data first)) origin 0 as"
    unfolding merge_progress_def by blast
  from step obtain a where a: "x = FAudio a" by (auto simp: merge_parent_def Let_def res_iff)
  show ?thesis
    unfolding merge_progress_def
    by (rule exI [of _ "as @ [a]"])
       (use step a as in \<open>auto simp: merge_parent_def Let_def res_iff merged_lineage_append
          consecutive_append merge_entry_def dest!: offset_timestamp_Inr [OF rate] split: if_splits\<close>)
qed

lemma merge_loop:
  assumes "1 \<le> ad_sample_rate_hz (cf_data first)" "ad_sample_rate_hz (cf_data first) \<le> 768000"
    and "try_fold (merge_parent first origin)
           \<lparr>ms_expected_sequence = fh_sequence_id (cf_header first), ms_samples_per_channel = 0,
            ms_lineage_entries = [], ms_seen_ids = []\<rparr> parents = Inr st"
  shows "merge_progress first origin parents st"
  using assms(3)
proof (rule try_fold_invariant)
  show "merge_progress first origin [] \<lparr>ms_expected_sequence = fh_sequence_id (cf_header first),
      ms_samples_per_channel = 0, ms_lineage_entries = [], ms_seen_ids = []\<rparr>"
    by (auto simp: merge_progress_def)
qed (rule merge_parent_progress [OF assms(1,2)])

lemma expect_audio_FAudio [simp]: "expect_audio (FAudio a) = cf_data a"
  by (simp add: expect_audio_def)

lemma fold_append_buffers:
  "fold (\<lambda>x out. out @ g x) xs acc = acc @ concat (map g xs)"
  by (induction xs arbitrary: acc) simp_all

lemma try_fold_append_ok:
  "(\<And>x. x \<in> set xs \<Longrightarrow> g x = Inr (h x)) \<Longrightarrow>
     try_fold (\<lambda>out x. res_bind (g x) (\<lambda>bytes. Inr (out @ bytes))) acc xs = Inr (acc @ concat (map h xs))"
  by (induction xs arbitrary: acc) simp_all

lemma try_fold_cong_append:
  "(\<And>acc x. x \<in> set xs \<Longrightarrow> g acc x = Inr (acc @ h x)) \<Longrightarrow>
     try_fold g acc xs = Inr (acc @ concat (map h xs))"
  by (induction xs arbitrary: acc) simp_all

lemma take_drop_concat:
  assumes "c < n" and "\<And>d. d < n \<Longrightarrow> length (g d) = k"
  shows "take k (drop (c * k) (concat (map g [0..<n]))) = g c"
  using assms
proof (induction n arbitrary: c g)
  case (Suc n)
  have rest: "concat (map g [0..<Suc n]) = g 0 @ concat (map (g \<circ> Suc) [0..<n])"
    by (simp add: upt_conv_Cons map_Suc_upt [symmetric] comp_def del: upt_Suc)
  have "length (g 0) = k" using Suc.prems(2) by simp
  then show ?case
  proof (cases c)
    case (Suc d)
    have "take k (drop (d * k) (concat (map (g \<circ> Suc) [0..<n]))) = (g \<circ> Suc) d"
      using Suc.prems \<open>c = Suc d\<close> by (intro Suc.IH) auto
    then show ?thesis using \<open>length (g 0) = k\<close> by (simp only: rest Suc) simp
  qed (simp add: rest del: upt_Suc)
qed simp

text \<open>One plane of the merge: the parents' planes one after the other.\<close>

definition joined_plane :: "audio_frame list \<Rightarrow> nat \<Rightarrow> u8 list" where
  "joined_plane as c = concat (map (\<lambda>a. projr (audio_plane_bytes (cf_data a) c)) as)"

lemma joined_plane_length:
  assumes "\<forall>a \<in> set as. wf_audio (cf_data a) \<and> ad_layout (cf_data a) = Planar \<and>
             ad_sample_format (cf_data a) = fmt \<and> c < ad_channels (cf_data a)"
  shows "length (joined_plane as c) = sum_list (map samples_of as) * bytes_per_sample fmt"
  using assms
proof (induction as)
  case (Cons a as)
  then have wf: "wf_audio (cf_data a)" "ad_layout (cf_data a) = Planar" "c < ad_channels (cf_data a)"
    and fmt: "ad_sample_format (cf_data a) = fmt" by auto
  have "Suc c * plane_size (cf_data a) \<le> ad_channels (cf_data a) * plane_size (cf_data a)"
    using wf(3) by (intro mult_right_mono) auto
  then have "length (projr (audio_plane_bytes (cf_data a) c)) = samples_of a * bytes_per_sample fmt"
    using wf_audio_buffer_length [OF wf(1)] fmt
    by (simp add: audio_plane_bytes_planar [OF wf] plane_size_def)
  with Cons show ?case by (simp add: joined_plane_def distrib_right)
qed (simp add: joined_plane_def)

lemma merge_payload_planar:
  assumes "as \<noteq> []" and "total_payload_bytes (map FAudio as) = Inr tot"
    and "\<forall>a \<in> set as. wf_audio (cf_data a) \<and> ad_layout (cf_data a) = Planar \<and>
           ad_channels (cf_data a) = n"
  shows "merge_audio_payload (map FAudio as) Planar = Inr (concat (map (joined_plane as) [0..<n]))"
proof -
  have inner: "try_fold (\<lambda>output parent.
      res_bind (audio_plane_bytes (expect_audio parent) c) (\<lambda>bytes. Inr (output @ bytes)))
      acc (map FAudio as) = Inr (acc @ joined_plane as c)" if "c < n" for c acc
  proof -
    have "audio_plane_bytes (expect_audio x) c = Inr (projr (audio_plane_bytes (expect_audio x) c))"
      if "x \<in> set (map FAudio as)" for x
      using that assms(3) \<open>c < n\<close> by (auto simp: audio_plane_bytes_planar)
    then show ?thesis
      by (subst try_fold_append_ok [where h = "\<lambda>x. projr (audio_plane_bytes (expect_audio x) c)"])
         (auto simp: joined_plane_def comp_def)
  qed
  have "ad_channels (expect_audio (map FAudio as ! 0)) = n"
    using assms(1,3) by (cases as) auto
  moreover have "try_fold (\<lambda>output channel. try_fold (\<lambda>output parent.
      res_bind (audio_plane_bytes (expect_audio parent) channel) (\<lambda>bytes. Inr (output @ bytes)))
      output (map FAudio as)) [] [0..<n] = Inr ([] @ concat (map (joined_plane as) [0..<n]))"
    by (rule try_fold_cong_append) (simp add: inner)
  ultimately show ?thesis
    using assms(2) by (simp add: merge_audio_payload_def)
qed

lemma merge_payload_interleaved:
  "total_payload_bytes (map FAudio as) = Inr tot \<Longrightarrow>
     merge_audio_payload (map FAudio as) Interleaved = Inr (concat (map (\<lambda>a. ad_buffer (cf_data a)) as))"
  by (simp add: merge_audio_payload_def fold_append_buffers comp_def)

text \<open>Everything a successful merge has checked and built, in one fact.\<close>

lemma merge_audio_Inr:
  assumes wf: "list_all wf_frame parents" and ok: "merge_audio parents new_id origin = Inr f"
  obtains as m where
    "parents = map FAudio as" "2 \<le> length as" "consecutive (as ! 0) 0 0 as"
    "distinct (map (\<lambda>a. fh_frame_id (cf_header a)) as)"
    "new_id \<notin> (\<lambda>a. fh_frame_id (cf_header a)) ` set as"
    "f = FAudio m"
    "cf_header m = (cf_header (as ! 0))\<lparr>fh_frame_id := new_id, fh_frame_type := TyAudio,
       fh_lineage := merged_lineage (fh_timestamp (cf_header (as ! 0)))
         (ad_sample_rate_hz (cf_data (as ! 0))) origin 0 as\<rparr>"
    "wf_header (cf_header m)"
    "merge_audio_payload parents (ad_layout (cf_data (as ! 0))) = Inr (ad_buffer (cf_data m))"
    "audio_data_new (ad_buffer (cf_data m)) (ad_sample_rate_hz (cf_data (as ! 0)))
       (ad_channels (cf_data (as ! 0))) (ad_sample_format (cf_data (as ! 0)))
       (ad_layout (cf_data (as ! 0))) (sum_list (map samples_of as)) = Inr (cf_data m)"
proof -
  from ok obtain first st payload merged h where
      len: "2 \<le> length parents" and first: "parents ! 0 = FAudio first"
    and ids: "\<forall>p \<in> set parents. fh_frame_id (header p) \<noteq> new_id"
    and loop: "try_fold (merge_parent first origin)
        \<lparr>ms_expected_sequence = fh_sequence_id (cf_header first), ms_samples_per_channel = 0,
         ms_lineage_entries = [], ms_seen_ids = []\<rparr> parents = Inr st"
    and payload: "merge_audio_payload parents (ad_layout (cf_data first)) = Inr payload"
    and merged: "audio_data_new payload (ad_sample_rate_hz (cf_data first))
        (ad_channels (cf_data first)) (ad_sample_format (cf_data first))
        (ad_layout (cf_data first)) (ms_samples_per_channel st) = Inr merged"
    and h: "frame_header_new new_id (fh_timestamp (cf_header first))
        (fh_clock_domain (cf_header first)) (fh_sequence_id (cf_header first))
        (fh_stream_id (cf_header first)) (fh_trace_id (cf_header first)) TyAudio
        (fh_metadata (cf_header first)) (fh_extensions (cf_header first))
        (ms_lineage_entries st) = Inr h"
    and f: "frame_new h (PAudio merged) = Inr f"
    unfolding merge_audio_def Let_def
    by (auto simp: res_bind_Inr ok_or_Inr as_audio_Some list_ex_iff split: if_splits)
  have "wf_frame (FAudio first)"
    using wf first len by (metis list_all_length nth_mem less_le_trans zero_less_numeral list_all_iff)
  then have rate: "1 \<le> ad_sample_rate_hz (cf_data first)" "ad_sample_rate_hz (cf_data first) \<le> 768000"
    by (auto simp: wf_frame_def wf_audio_def)
  from merge_loop [OF rate loop] obtain as where as: "parents = map FAudio as"
    "consecutive first 0 0 as" "ms_samples_per_channel st = sum_list (map samples_of as)"
    "distinct (map (\<lambda>a. fh_frame_id (cf_header a)) as)"
    "ms_lineage_entries st =
       merged_lineage (fh_timestamp (cf_header first)) (ad_sample_rate_hz (cf_data first)) origin 0 as"
    unfolding merge_progress_def by blast
  have fst: "as ! 0 = first" using first len as(1) by (cases as) auto
  from merged have data: "ad_buffer merged = payload" by (auto simp: audio_data_new_Inr)
  show ?thesis
  proof (rule that [of as "\<lparr>cf_header = h, cf_data = merged\<rparr>"])
    show "f = FAudio \<lparr>cf_header = h, cf_data = merged\<rparr>" using f by (simp add: res_iff)
    show "cf_header \<lparr>cf_header = h, cf_data = merged\<rparr> = (cf_header (as ! 0))\<lparr>fh_frame_id := new_id,
        fh_frame_type := TyAudio, fh_lineage := merged_lineage (fh_timestamp (cf_header (as ! 0)))
         (ad_sample_rate_hz (cf_data (as ! 0))) origin 0 as\<rparr>"
      using h as(5) by (cases "cf_header first") (simp add: fst res_iff)
  qed (use as len ids h payload merged data fst in \<open>auto simp: res_iff wf_header_def\<close>)
qed

lemma wf_parents_audio:
  "list_all wf_frame (map FAudio as) \<Longrightarrow> a \<in> set as \<Longrightarrow> wf_audio (cf_data a)"
  by (auto simp: list_all_iff wf_frame_def)

lemma wf_merge_audio:
  assumes "list_all wf_frame parents" and "merge_audio parents new_id origin = Inr f"
  shows "wf_frame f"
  using assms by (rule merge_audio_Inr) (auto simp: wf_frame_def intro: wf_audio_new)

lemma merged_plane:
  fixes m :: audio_frame
  assumes wf: "\<forall>a \<in> set as. wf_audio (cf_data a)" and shape: "consecutive (as ! 0) 0 0 as"
    and ne: "as \<noteq> []"
    and payload: "merge_audio_payload (map FAudio as) (ad_layout (cf_data (as ! 0))) =
          Inr (ad_buffer (cf_data m))"
    and new: "audio_data_new (ad_buffer (cf_data m)) (ad_sample_rate_hz (cf_data (as ! 0)))
       (ad_channels (cf_data (as ! 0))) (ad_sample_format (cf_data (as ! 0)))
       (ad_layout (cf_data (as ! 0))) (sum_list (map samples_of as)) = Inr (cf_data m)"
    and c: "c < (case ad_layout (cf_data m) of Interleaved \<Rightarrow> 1 | Planar \<Rightarrow> ad_channels (cf_data m))"
  shows "audio_plane_bytes (cf_data m) c = Inr (joined_plane as c)"
proof -
  let ?f = "cf_data (as ! 0)" and ?n = "sum_list (map samples_of as)"
  have m: "ad_layout (cf_data m) = ad_layout ?f" "ad_channels (cf_data m) = ad_channels ?f"
    "ad_sample_format (cf_data m) = ad_sample_format ?f" "samples_of m = ?n" "wf_audio (cf_data m)"
    using new by (metis audio_data_new_Inr audio_data.select_convs)+
  have sh: "ad_channels (cf_data a) = ad_channels ?f" "ad_sample_format (cf_data a) = ad_sample_format ?f"
    "ad_layout (cf_data a) = ad_layout ?f" if "a \<in> set as" for a
    using consecutive_shape [OF shape that] by auto
  from payload obtain tot where tot: "total_payload_bytes (map FAudio as) = Inr tot"
    by (auto simp: merge_audio_payload_def res_bind_Inr)
  show ?thesis
  proof (cases "ad_layout ?f")
    case Interleaved
    with payload tot have "ad_buffer (cf_data m) = concat (map (\<lambda>a. ad_buffer (cf_data a)) as)"
      by (simp add: merge_payload_interleaved)
    moreover have "joined_plane as 0 = concat (map (\<lambda>a. ad_buffer (cf_data a)) as)"
      unfolding joined_plane_def
      by (intro arg_cong [where f = concat] map_cong refl)
         (use sh(3) Interleaved in \<open>auto simp: audio_plane_bytes_def\<close>)
    moreover have "audio_plane_bytes (cf_data m) 0 = Inr (ad_buffer (cf_data m))"
      using m(1) Interleaved by (simp add: audio_plane_bytes_def)
    ultimately show ?thesis
      using c m(1) Interleaved by simp
  next
    case Planar
    let ?k = "?n * bytes_per_sample (ad_sample_format ?f)"
    have "merge_audio_payload (map FAudio as) Planar = Inr (concat (map (joined_plane as) [0..<ad_channels ?f]))"
      by (rule merge_payload_planar [OF ne tot]) (use sh Planar wf in auto)
    with payload Planar have buf: "ad_buffer (cf_data m) = concat (map (joined_plane as) [0..<ad_channels ?f])"
      by simp
    have len: "length (joined_plane as d) = ?k" if "d < ad_channels ?f" for d
      by (rule joined_plane_length) (use wf sh Planar that in auto)
    have "take ?k (drop (c * ?k) (ad_buffer (cf_data m))) = joined_plane as c"
      unfolding buf by (rule take_drop_concat) (use c m Planar len in auto)
    then show ?thesis
      using c m Planar by (simp add: audio_plane_bytes_planar plane_size_def)
  qed
qed

section \<open>Properties\<close>

text \<open>
  C8. \<open>Frame::merge_audio\<close> joins sample data exactly: a successful merge of well-formed
  parents has as many samples as the parents together, its duration is the floor of that
  total, and every plane it exposes (the whole buffer when interleaved, one per channel
  when planar) is the concatenation of the parents' planes in order.
\<close>

theorem merge_audio_joins_planes:
  assumes "list_all wf_frame parents" and "merge_audio parents new_id origin = Inr f"
  shows "\<exists>as m. parents = map FAudio as \<and> f = FAudio m \<and> wf_frame f \<and>
           ad_samples_per_channel (cf_data m) = (\<Sum>a\<leftarrow>as. ad_samples_per_channel (cf_data a)) \<and>
           ad_duration_ns (cf_data m) =
             ad_samples_per_channel (cf_data m) * 1000000000 div ad_sample_rate_hz (cf_data m) \<and>
           (\<forall>c < (case ad_layout (cf_data m) of Interleaved \<Rightarrow> 1 | Planar \<Rightarrow> ad_channels (cf_data m)).
              audio_plane_bytes (cf_data m) c =
                Inr (concat (map (\<lambda>a. projr (audio_plane_bytes (cf_data a) c)) as)))"
proof (rule merge_audio_Inr [OF assms])
  fix as m
  assume *: "parents = map FAudio as" "2 \<le> length as" "consecutive (as ! 0) 0 0 as" "f = FAudio m"
    "merge_audio_payload parents (ad_layout (cf_data (as ! 0))) = Inr (ad_buffer (cf_data m))"
    "audio_data_new (ad_buffer (cf_data m)) (ad_sample_rate_hz (cf_data (as ! 0)))
       (ad_channels (cf_data (as ! 0))) (ad_sample_format (cf_data (as ! 0)))
       (ad_layout (cf_data (as ! 0))) (sum_list (map samples_of as)) = Inr (cf_data m)"
  have wf: "\<forall>a \<in> set as. wf_audio (cf_data a)"
    using assms(1) *(1) wf_parents_audio by blast
  have ne: "as \<noteq> []" using *(2) by auto
  have samples: "samples_of m = sum_list (map samples_of as)" "wf_audio (cf_data m)"
    using *(6) by (metis audio_data_new_Inr audio_data.select_convs)+
  have "audio_plane_bytes (cf_data m) c = Inr (joined_plane as c)"
    if "c < (case ad_layout (cf_data m) of Interleaved \<Rightarrow> 1 | Planar \<Rightarrow> ad_channels (cf_data m))" for c
    by (rule merged_plane [OF wf *(3) ne _ *(6) that]) (use * in simp)
  with *(1,4) samples wf_merge_audio [OF assms] show ?thesis
    unfolding joined_plane_def by (auto simp: wf_audio_def)
qed

definition example_parents :: "frame list" where
  "example_parents =
     map (\<lambda>k. FAudio
       \<lparr>cf_header = \<lparr>fh_frame_id = ''p'' @ nat_to_string k, fh_timestamp = 50 + 500000000 * int k,
           fh_clock_domain = \<lparr>cd_id = ''clk'', cd_kind = MediaRelative\<rparr>, fh_sequence_id = 7 + k,
           fh_stream_id = ''s'', fh_trace_id = ''t'', fh_frame_type = TyAudio, fh_metadata = [],
           fh_extensions = [], fh_lineage = []\<rparr>,
        cf_data = \<lparr>ad_buffer = [of_nat k, 10, 20, 30], ad_sample_rate_hz = 4, ad_channels = 2,
           ad_sample_format = PcmU8, ad_layout = Planar, ad_samples_per_channel = 2,
           ad_duration_ns = 500000000\<rparr>\<rparr>) [0, 1]"

definition example_origin :: transform_origin where
  "example_origin = \<lparr>to_node_id = None, to_edge_id = Some ''e''\<rparr>"

lemma example_merge:
  "list_all wf_frame example_parents"
  "\<not> isl (merge_audio example_parents ''m'' example_origin)"
proof -
  show "list_all wf_frame example_parents"
    by (simp add: example_parents_def wf_frame_def wf_header_def wf_audio_def u64_max_def)
  have reason: "validate_reason MERGE_REASON = Inr ()"
    by (simp add: validate_reason_def MERGE_REASON_def is_ascii_control_def)
  show "\<not> isl (merge_audio example_parents ''m'' example_origin)"
    by (simp add: example_parents_def merge_audio_def MAX_MERGE_PARENTS_def merge_parent_def
        offset_timestamp_def duration_ns_for_samples_def media_time_range_new_def
        with_media_time_range_def lineage_entry_new_def reason timestamp_checked_add_def
        sequence_checked_next_def merge_audio_payload_def total_payload_bytes_def
        audio_plane_bytes_def checked_product_def slice_get_def audio_data_new_def
        frame_header_new_def frame_new_def expect_audio_def nat_to_string.simps arith_defs
        upt_rec)
qed

theorem merge_audio_joins_planes_witness:
  "\<exists>as m. example_parents = map FAudio as \<and>
     merge_audio example_parents ''m'' example_origin = Inr (FAudio m) \<and>
     ad_samples_per_channel (cf_data m) = (\<Sum>a\<leftarrow>as. ad_samples_per_channel (cf_data a))"
proof -
  obtain f where f: "merge_audio example_parents ''m'' example_origin = Inr f"
    using example_merge(2) by (cases "merge_audio example_parents ''m'' example_origin") auto
  then show ?thesis
    using merge_audio_joins_planes [OF example_merge(1) f] by auto
qed

text \<open>
  C11. The lineage of a merged frame is complete and its time ranges tile the merged frame:
  the parents are consecutive frames of one stream, the lineage is every parent's own
  lineage followed by a direct-parent entry whose range starts at that parent's timestamp
  and ends where the next parent starts; all direct parents are distinct, none is the new frame.
\<close>

theorem merge_audio_lineage:
  assumes "list_all wf_frame parents" and "merge_audio parents new_id origin = Inr f"
  shows "\<exists>as. parents = map FAudio as \<and> consecutive (as ! 0) 0 0 as \<and>
           distinct (new_id # map (\<lambda>a. fh_frame_id (cf_header a)) as) \<and>
           header f = (cf_header (as ! 0))\<lparr>fh_frame_id := new_id, fh_frame_type := TyAudio,
             fh_lineage := merged_lineage (fh_timestamp (cf_header (as ! 0)))
               (ad_sample_rate_hz (cf_data (as ! 0))) origin 0 as\<rparr>"
  by (rule merge_audio_Inr [OF assms]) auto

theorem merge_audio_lineage_witness:
  "\<exists>as f. example_parents = map FAudio as \<and>
     merge_audio example_parents ''m'' example_origin = Inr f \<and>
     fh_lineage (header f) = merged_lineage 50 4 example_origin 0 as"
proof -
  obtain f where f: "merge_audio example_parents ''m'' example_origin = Inr f"
    using example_merge(2) by (cases "merge_audio example_parents ''m'' example_origin") auto
  from merge_audio_lineage [OF example_merge(1) f] obtain as where
    as: "example_parents = map FAudio as" "fh_lineage (header f) =
      merged_lineage (fh_timestamp (cf_header (as ! 0))) (ad_sample_rate_hz (cf_data (as ! 0)))
        example_origin 0 as"
    by auto
  then have "fh_timestamp (cf_header (as ! 0)) = 50" "ad_sample_rate_hz (cf_data (as ! 0)) = 4"
    by (cases as; auto simp: example_parents_def)+
  with as f show ?thesis by auto
qed

text \<open>
  C14. \<open>Frame::derive\<close> keeps identity and provenance: a derived frame has a fresh id, inherits
  clock, stream and trace, takes unspecified metadata, extensions and payload from its
  parent, and its lineage is the parent's followed by one entry naming the parent; it
  fails exactly when the id is the parent's or an ancestor's or the reason is not a valid one.
\<close>

theorem derive_exact:
  "derive f d = Inr g \<longleftrightarrow>
     dv_new_frame_id d \<notin> insert (fh_frame_id (header f)) (le_parent_frame_id ` set (fh_lineage (header f))) \<and>
     validate_reason (dv_reason d) = Inr () \<and>
     cloned_payload g = unwrap_or (dv_payload d) (cloned_payload f) \<and>
     header g =
       (header f)\<lparr>fh_frame_id := dv_new_frame_id d, fh_timestamp := dv_timestamp d,
         fh_sequence_id := dv_sequence_id d, fh_frame_type := frame_type_of g,
         fh_metadata := unwrap_or (dv_metadata d) (fh_metadata (header f)),
         fh_extensions := unwrap_or (dv_extensions d) (fh_extensions (header f)),
         fh_lineage := fh_lineage (header f) @
           [\<lparr>le_parent_frame_id = fh_frame_id (header f), le_origin = dv_origin d,
             le_reason = dv_reason d, le_media_time_range = None\<rparr>]\<rparr>"
  unfolding derive_Inr by (auto simp: image_iff)

subsection \<open>Frames built through the public interface\<close>

inductive api_payload :: "frame_payload \<Rightarrow> bool" where
  audio: "audio_data_new b r c fmt l s = Inr a \<Longrightarrow> api_payload (PAudio a)"
| rgba8: "video_rgba8 b w h s = Inr v \<Longrightarrow> api_payload (PVideo v)"
| yuv420p: "video_yuv420p b w h ys us vs = Inr v \<Longrightarrow> api_payload (PVideo v)"
| plain: "api_payload (PText t)"
| byte: "api_payload (PByte b)"
| signal: "api_payload (PSignal s)"
| event: "api_payload (PEvent e)"

inductive api_frame :: "frame \<Rightarrow> bool" where
  new: "frame_header_new i t c s st tr ty m e l = Inr h \<Longrightarrow> api_payload p \<Longrightarrow>
        frame_new h p = Inr f \<Longrightarrow> api_frame f"
| derived: "api_frame f \<Longrightarrow> (\<forall>p. dv_payload d = Some p \<longrightarrow> api_payload p) \<Longrightarrow>
        derive f d = Inr g \<Longrightarrow> api_frame g"
| replaced: "api_frame f \<Longrightarrow> api_frame r \<Longrightarrow>
        attach_replacement_lineage f r origin reason = Inr g \<Longrightarrow> api_frame g"
| merged: "\<forall>p \<in> set ps. api_frame p \<Longrightarrow> merge_audio ps i origin = Inr g \<Longrightarrow> api_frame g"

lemma api_payload_wf: "api_payload p \<Longrightarrow> wf_payload p"
  by (induction rule: api_payload.induct)
     (auto intro: wf_audio_new wf_video_rgba8 wf_video_yuv420p)

text \<open>
  C12. Every frame that any sequence of constructions, derivations, edge replacements and
  audio merges can produce is well formed: its header names its payload's type, its
  payload satisfies the audio or video layout invariant, and it is not its own ancestor
  in its lineage.
\<close>

theorem api_frame_wf: "api_frame f \<Longrightarrow> wf_frame f"
proof (induction rule: api_frame.induct)
  case (new i t c s st tr ty m e l h p f)
  then show ?case
    by (auto simp: wf_frame_def wf_header_def res_iff intro: api_payload_wf)
next
  case (derived f d g)
  then show ?case by (auto intro: wf_derive api_payload_wf)
next
  case (replaced f r origin reason g)
  then show ?case by (auto intro: wf_attach_replacement_lineage)
next
  case (merged ps i origin g)
  then show ?case using wf_merge_audio [of ps i origin g] by (simp add: list_all_iff)
qed

definition example_text :: frame where
  "example_text = FText
     \<lparr>cf_header = \<lparr>fh_frame_id = ''x'', fh_timestamp = 0,
        fh_clock_domain = \<lparr>cd_id = ''clk'', cd_kind = Monotonic\<rparr>, fh_sequence_id = 0,
        fh_stream_id = ''s'', fh_trace_id = ''t'', fh_frame_type = TyText, fh_metadata = [],
        fh_extensions = [], fh_lineage = []\<rparr>, cf_data = ''hi''\<rparr>"

lemma api_example_text: "api_frame example_text"
  by (rule api_frame.new [of "''x''" 0 "\<lparr>cd_id = ''clk'', cd_kind = Monotonic\<rparr>" 0 "''s''" "''t''" TyText
        "[]" "[]" "[]" "header example_text" "PText ''hi''"])
     (simp_all add: frame_header_new_def frame_new_def example_text_def api_payload.plain)

theorem api_frame_wf_witness: "wf_frame example_text"
  by (rule api_frame_wf [OF api_example_text])

end
