(* ===== verification/Descriptors.thy ===== *)
theory Descriptors
  imports Frames
begin

text \<open>
  The pure data of a graph: node, port and configuration descriptors
  (\<open>muxiva-core/src/node.rs\<close>), edge descriptors, their policies and the per-edge metrics
  (\<open>edge.rs\<close>). The names of this layer are checked by two further copies of the name
  validator; both interpret \<open>exact_name_contract\<close>, so all of them accept the same strings.
\<close>

section \<open>Names\<close>

datatype descriptor_name_error =
    NameEmpty | NameTooLong | NameLeadingOrTrailingWhitespace | NameContainsControlCharacter

type_synonym port_name = string
type_synonym node_type_name = string
type_synonym config_key = string

definition validate_descriptor_name :: "string \<Rightarrow> descriptor_name_error + unit" where
  "validate_descriptor_name val =
     (if val = [] then Inl NameEmpty
      else if 255 < length val then Inl NameTooLong
      else if str_trim val \<noteq> val then Inl NameLeadingOrTrailingWhitespace
      else if list_ex is_ascii_control val then Inl NameContainsControlCharacter
      else Inr ())"

text \<open>\<open>descriptor_name!\<close> makes \<open>PortName\<close>, \<open>NodeTypeName\<close> and \<open>ConfigKey\<close>.\<close>

definition descriptor_name_new :: "string \<Rightarrow> descriptor_name_error + string" where
  "descriptor_name_new val = res_bind (validate_descriptor_name val) (\<lambda>_. Inr val)"

type_synonym edge_policy_name = string
type_synonym visibility_label = string

text \<open>The copy of the check in \<open>edge.rs\<close>.\<close>

definition validate_name :: "string \<Rightarrow> descriptor_name_error + unit" where
  "validate_name val =
     (if val = [] then Inl NameEmpty
      else if 255 < length val then Inl NameTooLong
      else if str_trim val \<noteq> val then Inl NameLeadingOrTrailingWhitespace
      else if list_ex is_ascii_control val then Inl NameContainsControlCharacter
      else Inr ())"

definition edge_policy_name_new :: "string \<Rightarrow> descriptor_name_error + edge_policy_name" where
  "edge_policy_name_new val = res_bind (validate_name val) (\<lambda>_. Inr val)"

definition visibility_label_new :: "string \<Rightarrow> descriptor_name_error + visibility_label" where
  "visibility_label_new val = res_bind (validate_name val) (\<lambda>_. Inr val)"

interpretation descriptor_name: exact_name_contract descriptor_name_new 255
  by unfold_locales
     (auto simp: descriptor_name_new_def validate_descriptor_name_def clean_name_def list_ex_iff res_iff
        split: if_splits)

interpretation edge_policy_name: exact_name_contract edge_policy_name_new 255
  by unfold_locales
     (auto simp: edge_policy_name_new_def validate_name_def clean_name_def list_ex_iff res_iff
        split: if_splits)

section \<open>Node descriptors\<close>

datatype node_kind = Source | Transform | Sink

datatype port_direction = Input | Output

record port_descriptor =
  pd_node_id :: node_id
  pd_name :: port_name
  pd_direction :: port_direction
  pd_frame_type :: frame_type

text \<open>\<open>ConfigSchema\<close> wraps one value.\<close>

type_synonym config_schema = val

record lifecycle_capabilities =
  lc_prepare :: bool
  lc_process :: bool
  lc_finish :: bool
  lc_abort :: bool

record node_descriptor =
  nd_node_id :: node_id
  nd_node_type :: node_type_name
  nd_kind :: node_kind
  nd_ports :: "port_descriptor list"
  nd_config_schema :: config_schema
  nd_lifecycle :: lifecycle_capabilities

definition for_node_id :: "node_descriptor \<Rightarrow> node_id \<Rightarrow> node_descriptor" where
  "for_node_id self node_id =
     \<lparr>nd_node_id = node_id, nd_node_type = nd_node_type self, nd_kind = nd_kind self,
      nd_ports = map (\<lambda>port. \<lparr>pd_node_id = node_id, pd_name = pd_name port,
                              pd_direction = pd_direction port,
                              pd_frame_type = pd_frame_type port\<rparr>) (nd_ports self),
      nd_config_schema = nd_config_schema self, nd_lifecycle = nd_lifecycle self\<rparr>"

type_synonym config_map = "(config_key, val) btree"

datatype duplicate_config_key = DuplicateConfigKey config_key

fun config_collect :: "config_map \<Rightarrow> (config_key \<times> val) list \<Rightarrow> duplicate_config_key + config_map" where
  "config_collect m [] = Inr m"
| "config_collect m ((key, v) # values) =
     (if bt_get m key \<noteq> None then Inl (DuplicateConfigKey key)
      else config_collect (bt_insert key v m) values)"

definition config_map_try_from_iter ::
  "(config_key \<times> val) list \<Rightarrow> duplicate_config_key + config_map" where
  "config_map_try_from_iter values = config_collect [] values"

section \<open>Factory selections\<close>

text \<open>The exact implementation a compiled graph selects (\<open>registry.rs\<close>).\<close>

datatype node_language = LangRust | LangCpp | LangPython | LangTypeScript

definition node_language_parse :: "string \<Rightarrow> node_language option" where
  "node_language_parse val =
     (if val = ''rust'' then Some LangRust
      else if val = ''cpp'' then Some LangCpp
      else if val = ''python'' then Some LangPython
      else if val = ''typescript'' then Some LangTypeScript
      else None)"

fun node_language_as_str :: "node_language \<Rightarrow> string" where
  "node_language_as_str LangRust = ''rust''"
| "node_language_as_str LangCpp = ''cpp''"
| "node_language_as_str LangPython = ''python''"
| "node_language_as_str LangTypeScript = ''typescript''"

type_synonym node_factory_version = string

datatype node_factory_version_error =
    VersionEmpty | VersionTooLong | VersionLeadingOrTrailingWhitespace | VersionInvalidCharacter

definition node_factory_version_new :: "string \<Rightarrow> node_factory_version_error + node_factory_version" where
  "node_factory_version_new val =
     (if val = [] then Inl VersionEmpty
      else if 64 < length val then Inl VersionTooLong
      else if str_trim val \<noteq> val then Inl VersionLeadingOrTrailingWhitespace
      else if \<not> list_all (\<lambda>b. is_ascii_alphanumeric b \<or> b \<in> {CHR ''.'', CHR ''-'', CHR ''+'', CHR ''_''}) val
      then Inl VersionInvalidCharacter
      else Inr val)"

record node_factory_selection =
  nfs_language :: node_language
  nfs_version :: node_factory_version

lemma node_language_roundtrip: "node_language_parse s = Some l \<longleftrightarrow> s = node_language_as_str l"
  by (cases l) (auto simp: node_language_parse_def)

interpretation factory_version: name_contract node_factory_version_new 64
  by unfold_locales
     (fastforce simp: node_factory_version_new_def clean_name_def list_all_iff is_ascii_control_def
        is_ascii_alphanumeric_def is_ascii_digit_def is_ascii_uppercase_def is_ascii_lowercase_def
        split: if_splits)+

section \<open>Edge descriptors\<close>

datatype queue_overflow_policy = OverflowBlock | OverflowDropOldest | OverflowDropNewest | OverflowAbort

text \<open>\<open>capacity\<close> is a \<open>NonZeroUsize\<close>: positive wherever a policy is used.\<close>

record queue_policy =
  qp_capacity :: usize
  qp_overflow :: queue_overflow_policy

definition queue_policy_default :: queue_policy where
  "queue_policy_default = \<lparr>qp_capacity = 1, qp_overflow = OverflowBlock\<rparr>"

datatype validation_failure_action = FailureDrop | FailureAbort

datatype validation_policy =
    TypeGateOnly
  | NamedValidation edge_policy_name validation_failure_action

datatype transform_policy = IdentityTransform | NamedTransform edge_policy_name

datatype enabled_condition = Always | Never | ConfigEquals node_id config_key val

datatype visibility_level = VisPublic | VisPrivate

record visibility_descriptor =
  vis_level :: visibility_level
  vis_labels :: "visibility_label list"

definition visibility_descriptor_new ::
  "visibility_level \<Rightarrow> visibility_label list \<Rightarrow> visibility_descriptor" where
  "visibility_descriptor_new level labels =
     \<lparr>vis_level = level, vis_labels = fold bs_insert labels []\<rparr>"

record edge_descriptor =
  ed_edge_id :: edge_id
  ed_from_node_id :: node_id
  ed_from_output_port :: port_name
  ed_to_node_id :: node_id
  ed_to_input_port :: port_name
  ed_frame_type :: frame_type
  ed_queue_policy :: queue_policy
  ed_validation_policy :: validation_policy
  ed_transform_policy :: transform_policy
  ed_enabled :: enabled_condition
  ed_visibility :: visibility_descriptor

section \<open>Edge metrics\<close>

record edge_metrics_snapshot =
  em_edge_id :: edge_id
  em_queue_capacity :: usize
  em_queue_len :: usize
  em_high_watermark :: usize
  em_enqueue_total :: u64
  em_dequeue_total :: u64
  em_drop_total :: u64
  em_signal_total :: u64
  em_full_total :: u64
  em_blocked_duration_ns :: u64
  em_oldest_frame_age_ns :: "u64 option"
  em_payload_bytes_total :: u64
  em_audio_duration_ns_total :: u64
  em_latest_error_reason :: "string option"

definition edge_metrics_zero :: "edge_id \<Rightarrow> usize \<Rightarrow> edge_metrics_snapshot" where
  "edge_metrics_zero edge_id queue_capacity =
     \<lparr>em_edge_id = edge_id, em_queue_capacity = queue_capacity, em_queue_len = 0,
      em_high_watermark = 0, em_enqueue_total = 0, em_dequeue_total = 0, em_drop_total = 0,
      em_signal_total = 0, em_full_total = 0, em_blocked_duration_ns = 0,
      em_oldest_frame_age_ns = None, em_payload_bytes_total = 0,
      em_audio_duration_ns_total = 0, em_latest_error_reason = None\<rparr>"

definition MAX_REASON_BYTES :: nat where
  "MAX_REASON_BYTES = 256"

definition em_set_latest_reason :: "edge_metrics_snapshot \<Rightarrow> string \<Rightarrow> edge_metrics_snapshot" where
  "em_set_latest_reason self reason =
     self\<lparr>em_latest_error_reason := Some (sanitize_bounded MAX_REASON_BYTES reason)\<rparr>"

definition em_record_delivery :: "edge_metrics_snapshot \<Rightarrow> edge_metrics_snapshot" where
  "em_record_delivery self =
     self\<lparr>em_enqueue_total := sat_add64 (em_enqueue_total self) 1,
          em_dequeue_total := sat_add64 (em_dequeue_total self) 1\<rparr>"

definition em_record_drop :: "edge_metrics_snapshot \<Rightarrow> string \<Rightarrow> edge_metrics_snapshot" where
  "em_record_drop self reason =
     em_set_latest_reason (self\<lparr>em_drop_total := sat_add64 (em_drop_total self) 1\<rparr>) reason"

definition em_record_signal :: "edge_metrics_snapshot \<Rightarrow> edge_metrics_snapshot" where
  "em_record_signal self = self\<lparr>em_signal_total := sat_add64 (em_signal_total self) 1\<rparr>"

definition em_record_error :: "edge_metrics_snapshot \<Rightarrow> string \<Rightarrow> edge_metrics_snapshot" where
  "em_record_error self reason = em_set_latest_reason self reason"

section \<open>Lemmas\<close>

lemma fold_bs_insert:
  "sorted_wrt (<) s \<Longrightarrow> sorted_wrt (<) (fold bs_insert ls s) \<and> set (fold bs_insert ls s) = set ls \<union> set s"
  by (induction ls arbitrary: s) auto

text \<open>Labels are sorted and free of duplicates, and depend only on the set that was given.\<close>

lemma visibility_labels_canonical:
  assumes "set ls = set ls'"
  shows "visibility_descriptor_new l ls = visibility_descriptor_new l ls'"
    and "sorted_wrt (<) (vis_labels (visibility_descriptor_new l ls))"
proof -
  have "sorted_wrt (<) (fold bs_insert xs [])" "set (fold bs_insert xs []) = set xs" for xs :: "string list"
    using fold_bs_insert [of "[]" xs] by auto
  then show "visibility_descriptor_new l ls = visibility_descriptor_new l ls'"
    and "sorted_wrt (<) (vis_labels (visibility_descriptor_new l ls))"
    using assms by (auto simp: visibility_descriptor_new_def strict_sorted_equal)
qed

lemma for_node_id_ports: "nd_node_id (for_node_id d i) = i \<and> list_all (\<lambda>p. pd_node_id p = i) (nd_ports (for_node_id d i))"
  by (simp add: for_node_id_def list_all_iff)

end
