(* ===== verification/Graph.thy ===== *)
theory Graph
  imports Descriptors
begin

text \<open>
  The graph builder (\<open>muxiva-core/src/graph.rs\<close>): node and edge validation, the builder's
  operations, and the deterministic topological order by repeated removal of ready nodes.
  The \<open>expect\<close> calls of the ordering are modelled as a panic outcome and shown unreachable.
\<close>

section \<open>Definitions\<close>

record edge_endpoint =
  ep_node_id :: node_id
  ep_port_name :: port_name

datatype endpoint_role = RoleSource | RoleTarget

datatype graph_build_error =
    DuplicateNode node_id
  | DuplicateEdge edge_id edge_endpoint edge_endpoint
  | PortNodeMismatch node_id node_id port_name
  | DuplicatePort node_id port_name port_direction
  | InvalidNodeKind node_id node_kind string
  | ProcessCapabilityMissing node_id
  | MissingNode edge_id endpoint_role node_id edge_endpoint edge_endpoint
  | MissingPort edge_id endpoint_role edge_endpoint port_direction edge_endpoint edge_endpoint
  | DirectionMismatch edge_id endpoint_role edge_endpoint port_direction port_direction
      edge_endpoint edge_endpoint
  | TypeMismatch edge_id edge_endpoint edge_endpoint frame_type frame_type frame_type string
  | ConfigNodeMissing node_id
  | FactoryNodeMissing node_id
  | Cycle "node_id list"

record node_definition =
  nf_descriptor :: node_descriptor
  nf_config :: config_map
  nf_factory :: "node_factory_selection option"

record graph_definition =
  gd_graph_id :: graph_id
  gd_nodes :: "node_definition list"
  gd_edges :: "edge_descriptor list"
  gd_topological_order :: "node_id list"

text \<open>The binary searches run over lists sorted by unique ids.\<close>

definition graph_node :: "graph_definition \<Rightarrow> node_id \<Rightarrow> node_definition option" where
  "graph_node self node_id = List.find (\<lambda>n. nd_node_id (nf_descriptor n) = node_id) (gd_nodes self)"

definition graph_edge :: "graph_definition \<Rightarrow> edge_id \<Rightarrow> edge_descriptor option" where
  "graph_edge self edge_id = List.find (\<lambda>e. ed_edge_id e = edge_id) (gd_edges self)"

record graph_builder =
  gb_graph_id :: graph_id
  gb_nodes :: "(node_id, node_definition) btree"
  gb_edges :: "(edge_id, edge_descriptor) btree"

definition builder_with_graph_id :: "graph_id \<Rightarrow> graph_builder" where
  "builder_with_graph_id graph_id = \<lparr>gb_graph_id = graph_id, gb_nodes = [], gb_edges = []\<rparr>"

definition builder_new :: graph_builder where
  "builder_new = builder_with_graph_id ''graph''"

section \<open>Validation\<close>

fun direction_order :: "port_direction \<Rightarrow> nat" where
  "direction_order Input = 0"
| "direction_order Output = 1"

text \<open>The loop over the ports, with the keys seen so far.\<close>

fun validate_ports ::
  "node_descriptor \<Rightarrow> (nat \<times> port_name) list \<Rightarrow> port_descriptor list \<Rightarrow> graph_build_error + unit" where
  "validate_ports descriptor seen [] = Inr ()"
| "validate_ports descriptor seen (port # ports) =
     (if pd_node_id port \<noteq> nd_node_id descriptor
      then Inl (PortNodeMismatch (nd_node_id descriptor) (pd_node_id port) (pd_name port))
      else
        let key = (direction_order (pd_direction port), pd_name port) in
        if key \<in> set seen
        then Inl (DuplicatePort (nd_node_id descriptor) (pd_name port) (pd_direction port))
        else if nd_kind descriptor = Source \<and> pd_direction port = Input
        then Inl (InvalidNodeKind (nd_node_id descriptor) (nd_kind descriptor)
                    ''Source nodes cannot declare input ports'')
        else if nd_kind descriptor = Sink \<and> pd_direction port = Output
        then Inl (InvalidNodeKind (nd_node_id descriptor) (nd_kind descriptor)
                    ''Sink nodes cannot declare output ports'')
        else validate_ports descriptor (bs_insert key seen) ports)"

definition validate_node_descriptor :: "node_descriptor \<Rightarrow> graph_build_error + unit" where
  "validate_node_descriptor descriptor =
     (if \<not> lc_process (nd_lifecycle descriptor)
      then Inl (ProcessCapabilityMissing (nd_node_id descriptor))
      else validate_ports descriptor [] (nd_ports descriptor))"

definition edge_source :: "edge_descriptor \<Rightarrow> edge_endpoint" where
  "edge_source edge = \<lparr>ep_node_id = ed_from_node_id edge, ep_port_name = ed_from_output_port edge\<rparr>"

definition edge_target :: "edge_descriptor \<Rightarrow> edge_endpoint" where
  "edge_target edge = \<lparr>ep_node_id = ed_to_node_id edge, ep_port_name = ed_to_input_port edge\<rparr>"

definition find_port ::
  "node_definition \<Rightarrow> port_name \<Rightarrow> port_direction \<Rightarrow> edge_descriptor \<Rightarrow> endpoint_role
     \<Rightarrow> graph_build_error + port_descriptor" where
  "find_port node name expected edge role =
     (case List.find (\<lambda>port. pd_name port = name \<and> pd_direction port = expected)
             (nd_ports (nf_descriptor node)) of
        Some port \<Rightarrow> Inr port
      | None \<Rightarrow>
          let source = edge_source edge;
              target = edge_target edge;
              endpoint = (case role of RoleSource \<Rightarrow> source | RoleTarget \<Rightarrow> target) in
          (case List.find (\<lambda>port. pd_name port = name) (nd_ports (nf_descriptor node)) of
             Some port \<Rightarrow>
               Inl (DirectionMismatch (ed_edge_id edge) role endpoint expected (pd_direction port)
                      source target)
           | None \<Rightarrow> Inl (MissingPort (ed_edge_id edge) role endpoint expected source target)))"

definition suggested_transform :: "frame_type \<Rightarrow> frame_type \<Rightarrow> string" where
  "suggested_transform source_type target_type =
     (if source_type \<noteq> target_type
      then ''insert an explicit TransformNode converting '' @ frame_type_debug source_type @
           '' to '' @ frame_type_debug target_type
      else ''no transform is needed; declare this Edge as exactly '' @ frame_type_debug source_type)"

definition validate_edge ::
  "(node_id, node_definition) btree \<Rightarrow> edge_descriptor \<Rightarrow> graph_build_error + unit" where
  "validate_edge nodes edge =
     (let source = edge_source edge; target = edge_target edge in
      res_bind (ok_or (bt_get nodes (ed_from_node_id edge))
                  (MissingNode (ed_edge_id edge) RoleSource (ed_from_node_id edge) source target)) (\<lambda>source_node.
      res_bind (ok_or (bt_get nodes (ed_to_node_id edge))
                  (MissingNode (ed_edge_id edge) RoleTarget (ed_to_node_id edge) source target)) (\<lambda>target_node.
      res_bind (find_port source_node (ed_from_output_port edge) Output edge RoleSource) (\<lambda>source_port.
      res_bind (find_port target_node (ed_to_input_port edge) Input edge RoleTarget) (\<lambda>target_port.
        if pd_frame_type source_port \<noteq> pd_frame_type target_port \<or>
           ed_frame_type edge \<noteq> pd_frame_type source_port \<or>
           ed_frame_type edge \<noteq> pd_frame_type target_port
        then Inl (TypeMismatch (ed_edge_id edge) source target (pd_frame_type source_port)
                    (pd_frame_type target_port) (ed_frame_type edge)
                    (suggested_transform (pd_frame_type source_port) (pd_frame_type target_port)))
        else Inr ())))))"

section \<open>Builder operations\<close>

definition add_node :: "graph_builder \<Rightarrow> node_descriptor \<Rightarrow> graph_build_error + graph_builder" where
  "add_node self descriptor =
     res_bind (validate_node_descriptor descriptor) (\<lambda>_.
       let node_id = nd_node_id descriptor in
       if bt_get (gb_nodes self) node_id \<noteq> None then Inl (DuplicateNode node_id)
       else Inr (self\<lparr>gb_nodes := bt_insert node_id
                   \<lparr>nf_descriptor = descriptor, nf_config = [], nf_factory = None\<rparr> (gb_nodes self)\<rparr>))"

definition connect :: "graph_builder \<Rightarrow> edge_descriptor \<Rightarrow> graph_build_error + graph_builder" where
  "connect self edge =
     (if bt_get (gb_edges self) (ed_edge_id edge) \<noteq> None
      then Inl (DuplicateEdge (ed_edge_id edge) (edge_source edge) (edge_target edge))
      else res_bind (validate_edge (gb_nodes self) edge) (\<lambda>_.
             Inr (self\<lparr>gb_edges := bt_insert (ed_edge_id edge) edge (gb_edges self)\<rparr>)))"

definition set_config :: "graph_builder \<Rightarrow> node_id \<Rightarrow> config_map \<Rightarrow> graph_build_error + graph_builder" where
  "set_config self node_id config =
     res_bind (ok_or (bt_get (gb_nodes self) node_id) (ConfigNodeMissing node_id)) (\<lambda>node.
       Inr (self\<lparr>gb_nodes := bt_set node_id (node\<lparr>nf_config := config\<rparr>) (gb_nodes self)\<rparr>))"

definition set_factory ::
  "graph_builder \<Rightarrow> node_id \<Rightarrow> node_factory_selection \<Rightarrow> graph_build_error + graph_builder" where
  "set_factory self node_id factory =
     res_bind (ok_or (bt_get (gb_nodes self) node_id) (FactoryNodeMissing node_id)) (\<lambda>node.
       Inr (self\<lparr>gb_nodes := bt_set node_id (node\<lparr>nf_factory := Some factory\<rparr>) (gb_nodes self)\<rparr>))"

section \<open>Topological order\<close>

text \<open>A failed \<open>expect\<close> or an unsigned underflow.\<close>

datatype panic = Panic

type_synonym degree_map = "(node_id, nat) btree"
type_synonym outgoing_map = "(node_id, node_id list) btree"

definition count_edge :: "degree_map \<times> outgoing_map \<Rightarrow> edge_descriptor \<Rightarrow> panic + degree_map \<times> outgoing_map" where
  "count_edge maps edge =
     (let (indegree, outgoing) = maps in
      res_bind (ok_or (bt_get indegree (ed_to_node_id edge)) Panic) (\<lambda>degree.
      res_bind (ok_or (bt_get outgoing (ed_from_node_id edge)) Panic) (\<lambda>targets.
        Inr (bt_set (ed_to_node_id edge) (degree + 1) indegree,
             bt_set (ed_from_node_id edge) (targets @ [ed_to_node_id edge]) outgoing))))"

definition release_target :: "degree_map \<times> node_id list \<Rightarrow> node_id \<Rightarrow> panic + degree_map \<times> node_id list" where
  "release_target st target =
     (let (indegree, ready) = st in
      res_bind (ok_or (bt_get indegree target) Panic) (\<lambda>degree.
        if degree = 0 then Inl Panic
        else Inr (bt_set target (degree - 1) indegree,
                  if degree - 1 = 0 then bs_insert target ready else ready)))"

text \<open>Each target released lowers the total degree by one and adds at most one ready node.\<close>

lemma release_target_Inr:
  "release_target (indegree, ready) t = Inr (indegree', ready') \<longleftrightarrow>
     (\<exists>d. bt_get indegree t = Some (Suc d) \<and> indegree' = bt_set t d indegree \<and>
        ready' = (if d = 0 then bs_insert t ready else ready))"
proof (cases "bt_get indegree t")
  case (Some n)
  then show ?thesis by (cases n) (auto simp: release_target_def)
qed (simp add: release_target_def)

lemma release_target_measure:
  assumes "release_target (indegree, ready) t = Inr (indegree', ready')"
  shows "sum_list (bt_values indegree') + length ready' \<le> sum_list (bt_values indegree) + length ready"
proof -
  from assms obtain d where d: "bt_get indegree t = Some (Suc d)" "indegree' = bt_set t d indegree"
    "ready' = (if d = 0 then bs_insert t ready else ready)"
    unfolding release_target_Inr by blast
  with bt_set_sum [OF d(1), of d] bs_insert_length [of t ready] show ?thesis by auto
qed

lemma release_targets_measure:
  "try_fold release_target (indegree, ready) ts = Inr (indegree', ready') \<Longrightarrow>
     sum_list (bt_values indegree') + length ready' \<le> sum_list (bt_values indegree) + length ready"
proof (induction ts arbitrary: indegree ready)
  case (Cons t ts)
  then obtain d r where "release_target (indegree, ready) t = Inr (d, r)"
    "try_fold release_target (d, r) ts = Inr (indegree', ready')"
    by (auto simp: res_iff)
  with Cons.IH [of d r] release_target_measure [of indegree ready t d r] show ?case by simp
qed simp

function kahn :: "outgoing_map \<Rightarrow> degree_map \<Rightarrow> node_id list \<Rightarrow> node_id list \<Rightarrow> panic + degree_map \<times> node_id list" where
  "kahn outgoing indegree [] ordered = Inr (indegree, ordered)"
| "kahn outgoing indegree (node_id # ready) ordered =
     (case bt_get outgoing node_id of
        None \<Rightarrow> Inl Panic
      | Some targets \<Rightarrow>
          (case try_fold release_target (indegree, ready) targets of
             Inl p \<Rightarrow> Inl p
           | Inr (indegree', ready') \<Rightarrow> kahn outgoing indegree' ready' (ordered @ [node_id])))"
  by pat_completeness auto
termination
  by (relation "measure (\<lambda>(outgoing, indegree, ready, ordered). sum_list (bt_values indegree) + length ready)")
     (auto dest: release_targets_measure)

definition stable_topological_order ::
  "(node_id, node_definition) btree \<Rightarrow> (edge_id, edge_descriptor) btree
     \<Rightarrow> panic + (graph_build_error + node_id list)" where
  "stable_topological_order nodes edges =
     (let indegree = map (\<lambda>node_id. (node_id, 0)) (bt_keys nodes);
          outgoing = map (\<lambda>node_id. (node_id, [])) (bt_keys nodes) in
      res_bind (try_fold count_edge (indegree, outgoing) (bt_values edges)) (\<lambda>(indegree, outgoing).
      let ready = map fst (filter (\<lambda>(_, degree). degree = 0) indegree) in
      res_bind (kahn outgoing indegree ready []) (\<lambda>(indegree, ordered).
        if length ordered \<noteq> length nodes
        then Inr (Inl (Cycle (map fst (filter (\<lambda>(_, degree). degree \<noteq> 0) indegree))))
        else Inr (Inr ordered))))"

definition build :: "graph_builder \<Rightarrow> panic + (graph_build_error + graph_definition)" where
  "build self =
     res_bind (stable_topological_order (gb_nodes self) (gb_edges self)) (\<lambda>order.
       case order of
         Inl e \<Rightarrow> Inr (Inl e)
       | Inr topological_order \<Rightarrow>
           Inr (Inr \<lparr>gd_graph_id = gb_graph_id self, gd_nodes = bt_values (gb_nodes self),
                     gd_edges = bt_values (gb_edges self),
                     gd_topological_order = topological_order\<rparr>))"

section \<open>Correctness of the order\<close>

text \<open>
  The specification: with the nodes in \<open>S\<close> already placed, a node is available when it is
  not placed and every source of an edge into it is. A stable order takes, at every
  position, the least available node.
\<close>

type_synonym arc = "node_id \<times> node_id"

definition available :: "node_id set \<Rightarrow> arc list \<Rightarrow> node_id set \<Rightarrow> node_id set" where
  "available N E S = {v \<in> N - S. \<forall>(u, w) \<in> set E. w = v \<longrightarrow> u \<in> S}"

definition stable_prefix :: "node_id set \<Rightarrow> arc list \<Rightarrow> node_id list \<Rightarrow> bool" where
  "stable_prefix N E xs \<longleftrightarrow>
     (\<forall>i < length xs. xs ! i \<in> available N E (set (take i xs)) \<and>
        (\<forall>v \<in> available N E (set (take i xs)). xs ! i \<le> v))"

definition degree :: "arc list \<Rightarrow> node_id set \<Rightarrow> node_id \<Rightarrow> nat" where
  "degree E S v = length (filter (\<lambda>(u, w). w = v \<and> u \<notin> S) E)"

definition targets_of :: "arc list \<Rightarrow> node_id \<Rightarrow> node_id list" where
  "targets_of E x = map snd (filter (\<lambda>(u, w). u = x) E)"

lemma degree_insert: "x \<notin> S \<Longrightarrow> degree E S v = degree E (insert x S) v + count_list (targets_of E x) v"
  by (induction E) (auto simp: degree_def targets_of_def)

lemma degree_zero: "degree E S v = 0 \<longleftrightarrow> (\<forall>(u, w) \<in> set E. w = v \<longrightarrow> u \<in> S)"
  by (auto simp: degree_def filter_empty_conv)

lemma available_degree: "available N E S = {v \<in> N - S. degree E S v = 0}"
  by (auto simp: available_def degree_zero)

lemma stable_prefix_snoc:
  "stable_prefix N E (xs @ [x]) \<longleftrightarrow>
     stable_prefix N E xs \<and> x \<in> available N E (set xs) \<and> (\<forall>v \<in> available N E (set xs). x \<le> v)"
  by (auto simp: stable_prefix_def nth_append less_Suc_eq)

text \<open>A stable prefix is closed under predecessors, has no repetition and stays inside the graph.\<close>

lemma stable_prefix_facts:
  "stable_prefix N E xs \<Longrightarrow>
     distinct xs \<and> set xs \<subseteq> N \<and> (\<forall>(u, v) \<in> set E. v \<in> set xs \<longrightarrow> u \<in> set xs)"
proof (induction xs rule: rev_induct)
  case (snoc x xs)
  then show ?case by (auto simp: stable_prefix_snoc available_def)
qed simp

text \<open>The order is determined: two stable prefixes of the same length are equal.\<close>

lemma stable_prefix_unique:
  "stable_prefix N E xs \<Longrightarrow> stable_prefix N E ys \<Longrightarrow> length xs = length ys \<Longrightarrow> xs = ys"
proof (induction xs arbitrary: ys rule: rev_induct)
  case (snoc x xs)
  then obtain zs z where ys: "ys = zs @ [z]" by (cases ys rule: rev_cases) auto
  with snoc have "xs = zs" by (auto simp: stable_prefix_snoc)
  with snoc.prems ys show ?case by (auto simp: stable_prefix_snoc intro: antisym)
qed simp

lemma release_targets:
  assumes "bt_inv indegree" and "set ts \<subseteq> set (bt_keys indegree)"
    and "\<forall>v \<in> set (bt_keys indegree). bt_get indegree v = Some (d v + count_list ts v)"
    and "sorted_wrt (<) ready"
  shows "\<exists>indegree' ready'. try_fold release_target (indegree, ready) ts = Inr (indegree', ready') \<and>
     bt_inv indegree' \<and> bt_keys indegree' = bt_keys indegree \<and>
     (\<forall>v \<in> set (bt_keys indegree). bt_get indegree' v = Some (d v)) \<and>
     sorted_wrt (<) ready' \<and> set ready' = set ready \<union> {v \<in> set ts. d v = 0}"
  using assms
proof (induction ts arbitrary: indegree ready)
  case (Cons t ts)
  let ?n = "d t + count_list ts t"
  let ?m = "bt_set t ?n indegree" and ?r = "if ?n = 0 then bs_insert t ready else ready"
  have t: "bt_get indegree t = Some (Suc ?n)" using Cons.prems(2,3) by auto
  then have step: "release_target (indegree, ready) t = Inr (?m, ?r)"
    by (simp add: release_target_Inr)
  have "\<exists>m r. try_fold release_target (?m, ?r) ts = Inr (m, r) \<and> bt_inv m \<and>
      bt_keys m = bt_keys ?m \<and> (\<forall>v \<in> set (bt_keys ?m). bt_get m v = Some (d v)) \<and>
      sorted_wrt (<) r \<and> set r = set ?r \<union> {v \<in> set ts. d v = 0}"
  proof (rule Cons.IH)
    show "\<forall>v \<in> set (bt_keys ?m). bt_get ?m v = Some (d v + count_list ts v)"
      using Cons.prems(3) t by (auto simp: bt_get_set)
  qed (use Cons.prems in auto)
  moreover have "set ?r \<union> {v \<in> set ts. d v = 0} = set ready \<union> {v \<in> set (t # ts). d v = 0}"
    by (auto simp: count_list_0_iff)
  ultimately show ?case by (auto simp: step simp del: set_simps(2))
qed auto

definition kahn_inv ::
  "node_id set \<Rightarrow> arc list \<Rightarrow> degree_map \<Rightarrow> node_id list \<Rightarrow> node_id list \<Rightarrow> bool" where
  "kahn_inv N E indegree ready ordered \<longleftrightarrow>
     bt_inv indegree \<and> set (bt_keys indegree) = N \<and>
     (\<forall>v \<in> N. bt_get indegree v = Some (degree E (set ordered) v)) \<and>
     sorted_wrt (<) ready \<and> set ready = available N E (set ordered) \<and> stable_prefix N E ordered"

lemma available_step:
  assumes "stable_prefix N E xs" and "x \<in> available N E (set xs)"
    and "\<forall>(u, v) \<in> set E. u \<in> N \<and> v \<in> N"
  shows "available N E (set (xs @ [x])) =
         (available N E (set xs) - {x}) \<union> {v \<in> set (targets_of E x). degree E (set (xs @ [x])) v = 0}"
    (is "?lhs = ?rhs")
proof (intro equalityI subsetI)
  let ?S = "set xs"
  have x: "x \<notin> ?S" using assms(2) by (auto simp: available_def)
  fix v
  assume "v \<in> ?lhs"
  then have v: "v \<in> N" "v \<notin> ?S" "v \<noteq> x" "degree E (insert x ?S) v = 0"
    by (auto simp: available_degree)
  show "v \<in> ?rhs"
  proof (cases "degree E ?S v = 0")
    case False
    then have "count_list (targets_of E x) v \<noteq> 0" using degree_insert [OF x, of E v] v(4) by simp
    then have "v \<in> set (targets_of E x)" by (meson count_list_0_iff)
    with v show ?thesis by simp
  qed (use v in \<open>auto simp: available_degree\<close>)
next
  let ?S = "set xs"
  have x: "x \<notin> ?S" "degree E ?S x = 0" using assms(2) by (auto simp: available_degree)
  fix v
  assume "v \<in> ?rhs"
  then consider "v \<in> available N E ?S" "v \<noteq> x"
    | "v \<in> set (targets_of E x)" "degree E (insert x ?S) v = 0" by auto
  then show "v \<in> ?lhs"
  proof cases
    case 1
    then show ?thesis using degree_insert [OF x(1), of E v] by (auto simp: available_degree)
  next
    case 2
    then have e: "(x, v) \<in> set E" by (auto simp: targets_of_def)
    then have "v \<notin> ?S" using stable_prefix_facts [OF assms(1)] x(1) by fastforce
    moreover have "v \<noteq> x" using e x by (auto simp: degree_zero)
    ultimately show ?thesis using 2 e assms(3) by (auto simp: available_degree)
  qed
qed

lemma kahn_correct:
  assumes "\<forall>(u, v) \<in> set E. u \<in> N \<and> v \<in> N"
    and "\<forall>x \<in> N. bt_get outgoing x = Some (targets_of E x)"
    and "kahn_inv N E indegree ready ordered"
  shows "\<exists>indegree' ordered'. kahn outgoing indegree ready ordered = Inr (indegree', ordered') \<and>
           kahn_inv N E indegree' [] ordered'"
  using assms
proof (induction outgoing indegree ready ordered rule: kahn.induct)
  case (2 outgoing indegree x ready ordered)
  let ?S = "set ordered" and ?T = "targets_of E x"
  from "2.prems"(3) have inv: "bt_inv indegree" "set (bt_keys indegree) = N"
    "\<forall>v \<in> N. bt_get indegree v = Some (degree E ?S v)" "sorted_wrt (<) (x # ready)"
    "insert x (set ready) = available N E ?S" "stable_prefix N E ordered"
    by (auto simp: kahn_inv_def)
  then have x: "x \<in> available N E ?S" "x \<in> N" "x \<notin> ?S" by (auto simp: available_def)
  have ready: "set ready = available N E ?S - {x}" using inv(4,5) by auto
  have "\<exists>m r. try_fold release_target (indegree, ready) ?T = Inr (m, r) \<and>
      bt_inv m \<and> bt_keys m = bt_keys indegree \<and>
      (\<forall>v \<in> set (bt_keys indegree). bt_get m v = Some (degree E (insert x ?S) v)) \<and>
      sorted_wrt (<) r \<and> set r = set ready \<union> {v \<in> set ?T. degree E (insert x ?S) v = 0}"
    by (rule release_targets)
       (use inv "2.prems"(1) degree_insert [OF x(3), of E] in \<open>auto simp: targets_of_def\<close>)
  then obtain m r where mr: "try_fold release_target (indegree, ready) ?T = Inr (m, r)"
    "bt_inv m" "bt_keys m = bt_keys indegree"
    "\<forall>v \<in> N. bt_get m v = Some (degree E (insert x ?S) v)" "sorted_wrt (<) r"
    "set r = set ready \<union> {v \<in> set ?T. degree E (insert x ?S) v = 0}"
    using inv(2) by auto
  have out: "bt_get outgoing x = Some ?T" using "2.prems"(2) x(2) by blast
  have least: "\<forall>v \<in> available N E ?S. x \<le> v" using inv(4) unfolding inv(5) [symmetric] by auto
  have "kahn_inv N E m r (ordered @ [x])"
    unfolding kahn_inv_def stable_prefix_snoc
    using mr inv x ready least available_step [OF inv(6) x(1) "2.prems"(1)] by simp
  from "2.IH" [OF out mr(1) refl "2.prems"(1,2) this] show ?case
    by (simp add: out mr(1))
qed auto

subsection \<open>The degree and adjacency tables\<close>

definition arc_of :: "edge_descriptor \<Rightarrow> arc" where
  "arc_of e = (ed_from_node_id e, ed_to_node_id e)"

lemma count_edges:
  assumes "bt_keys indegree = ns" and "bt_keys outgoing = ns"
    and "\<forall>e \<in> set es. ed_from_node_id e \<in> set ns \<and> ed_to_node_id e \<in> set ns"
    and "\<forall>v \<in> set ns. bt_get indegree v = Some (d v) \<and> bt_get outgoing v = Some (t v)"
  shows "\<exists>indegree' outgoing'. try_fold count_edge (indegree, outgoing) es = Inr (indegree', outgoing') \<and>
     bt_keys indegree' = ns \<and>
     (\<forall>v \<in> set ns. bt_get indegree' v = Some (d v + degree (map arc_of es) {} v) \<and>
        bt_get outgoing' v = Some (t v @ targets_of (map arc_of es) v))"
  using assms
proof (induction es arbitrary: indegree outgoing d t)
  case (Cons e es)
  let ?u = "ed_from_node_id e" and ?v = "ed_to_node_id e"
  let ?i = "bt_set ?v (d ?v + 1) indegree" and ?o = "bt_set ?u (t ?u @ [?v]) outgoing"
  have uv: "bt_get indegree ?v = Some (d ?v)" "bt_get outgoing ?u = Some (t ?u)"
    using Cons.prems(3,4) by auto
  then have "count_edge (indegree, outgoing) e = Inr (?i, ?o)"
    by (simp add: count_edge_def)
  moreover have "degree (map arc_of (e # es)) {} v = (if v = ?v then 1 else 0) + degree (map arc_of es) {} v"
    "targets_of (map arc_of (e # es)) v = (if v = ?u then [?v] else []) @ targets_of (map arc_of es) v" for v
    by (simp_all add: degree_def targets_of_def arc_of_def)
  moreover have "\<exists>i o'. try_fold count_edge (?i, ?o) es = Inr (i, o') \<and> bt_keys i = ns \<and>
     (\<forall>v \<in> set ns. bt_get i v = Some ((d(?v := d ?v + 1)) v + degree (map arc_of es) {} v) \<and>
        bt_get o' v = Some ((t(?u := t ?u @ [?v])) v @ targets_of (map arc_of es) v))"
    by (rule Cons.IH) (use Cons.prems uv in \<open>auto simp: bt_get_set\<close>)
  then obtain i o' where "try_fold count_edge (?i, ?o) es = Inr (i, o')" "bt_keys i = ns"
    "\<forall>v \<in> set ns. bt_get i v = Some ((d(?v := d ?v + 1)) v + degree (map arc_of es) {} v) \<and>
        bt_get o' v = Some ((t(?u := t ?u @ [?v])) v @ targets_of (map arc_of es) v)"
    by blast
  ultimately show ?case by (intro exI [of _ i] exI [of _ o']) auto
qed (auto simp: degree_def targets_of_def)

lemma bt_get_const: "v \<in> set ks \<Longrightarrow> bt_get (map (\<lambda>k. (k, c)) ks) v = Some c"
  by (induction ks) (auto simp: bt_get_def)

lemma bt_keys_const [simp]: "bt_keys (map (\<lambda>k. (k, c)) ks) = ks"
  by (simp add: bt_keys_def comp_def)

lemma bt_inv_keys: "bt_inv m \<longleftrightarrow> sorted_wrt (<) (bt_keys m)"
  by (simp add: bt_inv_def bt_keys_def)

lemma filter_keys:
  assumes "bt_inv m"
  shows "set (map fst (filter (\<lambda>(_, d). P d) m)) = {k. \<exists>d. bt_get m k = Some d \<and> P d}"
    and "sorted_wrt (<) (map fst (filter (\<lambda>(_, d). P d) m))"
proof -
  show "set (map fst (filter (\<lambda>(_, d). P d) m)) = {k. \<exists>d. bt_get m k = Some d \<and> P d}"
    using bt_get_iff [OF assms] by force
  show "sorted_wrt (<) (map fst (filter (\<lambda>(_, d). P d) m))"
    using assms by (auto simp: bt_inv_def sorted_wrt_map intro: sorted_wrt_filter)
qed

subsection \<open>The result\<close>

text \<open>The nodes that no order can place: those with a path from a cycle.\<close>

lemma unplaced_cycle:
  assumes "finite E" and "R \<noteq> {}" and "\<And>v. v \<in> R \<Longrightarrow> \<exists>u \<in> R. (u, v) \<in> E"
  shows "\<not> acyclic E"
proof
  assume "acyclic E"
  with assms(1) have "wf E" by (rule finite_acyclic_wf)
  then obtain z where "z \<in> R" "\<And>y. (y, z) \<in> E \<Longrightarrow> y \<notin> R"
    using assms(2) by (meson ex_in_conv wfE_min)
  with assms(3) show False by blast
qed

lemma unplaced_reached_from_cycle:
  assumes "finite E" and "v \<in> R" and "\<And>v. v \<in> R \<Longrightarrow> \<exists>u \<in> R. (u, v) \<in> E"
  shows "\<exists>w. (w, w) \<in> E\<^sup>+ \<and> (w, v) \<in> E\<^sup>*"
proof -
  define A where "A = {u \<in> R. (u, v) \<in> E\<^sup>*}"
  let ?F = "E \<inter> A \<times> A"
  have pred: "\<exists>u \<in> A. (u, x) \<in> ?F" if "x \<in> A" for x
  proof -
    from that assms(3) obtain u where "u \<in> R" "(u, x) \<in> E" by (auto simp: A_def)
    moreover from this that have "u \<in> A" by (auto simp: A_def intro: converse_rtrancl_into_rtrancl)
    ultimately show ?thesis using that by blast
  qed
  have "\<not> acyclic ?F"
    by (rule unplaced_cycle [of _ A]) (use assms(1,2) pred in \<open>auto simp: A_def\<close>)
  then obtain w where w: "(w, w) \<in> ?F\<^sup>+" by (auto simp: acyclic_def)
  then have "(w, w) \<in> E\<^sup>+" by (rule trancl_mono) blast
  moreover from w have "w \<in> A" by (meson Int_iff SigmaD1 tranclD)
  ultimately show ?thesis by (auto simp: A_def)
qed

lemma placed_not_reached_from_cycle:
  "stable_prefix N E xs \<Longrightarrow> v \<in> set xs \<Longrightarrow> (w, v) \<in> (set E)\<^sup>* \<Longrightarrow> (w, w) \<notin> (set E)\<^sup>+"
proof (induction xs arbitrary: v w rule: rev_induct)
  case (snoc x xs)
  then have pre: "stable_prefix N E xs" "\<And>u. (u, x) \<in> set E \<Longrightarrow> u \<in> set xs"
    by (auto simp: stable_prefix_snoc available_def)
  show ?case
  proof (cases "v \<in> set xs")
    case False
    with snoc.prems have v: "v = x" by simp
    show ?thesis
    proof
      assume cyc: "(w, w) \<in> (set E)\<^sup>+"
      show False
      proof (cases "w = x")
        case True
        with cyc obtain u where u: "(x, u) \<in> (set E)\<^sup>*" "(u, x) \<in> set E" by (meson tranclD2)
        then have "(u, u) \<in> (set E)\<^sup>+" by (meson rtrancl_into_trancl2)
        with snoc.IH [OF pre(1) pre(2) [OF u(2)], of u] show False by blast
      next
        case False
        with snoc.prems(3) v obtain u where "(w, u) \<in> (set E)\<^sup>*" "(u, x) \<in> set E"
          by (meson rtranclE)
        with snoc.IH [OF pre(1) pre(2), of u w] cyc show False by blast
      qed
    qed
  qed (use snoc.IH pre(1) snoc.prems(3) in blast)
qed simp

lemma stable_order_acyclic:
  assumes "stable_prefix N E xs" and "\<forall>(u, v) \<in> set E. u \<in> set xs \<and> v \<in> set xs"
  shows "acyclic (set E)"
proof -
  have "(SOME i. i < length xs \<and> xs ! i = u) < (SOME i. i < length xs \<and> xs ! i = v)"
    if "(u, v) \<in> set E" for u v
  proof -
    have d: "distinct xs" using stable_prefix_facts [OF assms(1)] by blast
    have ind: "(SOME i. i < length xs \<and> xs ! i = w) = k" if "k < length xs" "xs ! k = w" for k w
      by (rule some_equality) (use that d in \<open>auto simp: nth_eq_iff_index_eq\<close>)
    from that assms(2) obtain j where j: "j < length xs" "xs ! j = v"
      by (fastforce simp: in_set_conv_nth)
    with assms(1) have "v \<in> available N E (set (take j xs))" by (auto simp: stable_prefix_def)
    with that have "u \<in> set (take j xs)" by (fastforce simp: available_def)
    then obtain i where "i < j" "xs ! i = u" using j by (auto simp: in_set_conv_nth)
    with ind [of i u] ind [of j v] j show ?thesis by simp
  qed
  then have "set E \<subseteq> measure (\<lambda>u. SOME i. i < length xs \<and> xs ! i = u)" by auto
  then show ?thesis using wf_acyclic wf_measure acyclic_subset by metis
qed

lemma stable_topological_order_correct:
  assumes inv: "bt_inv nodes"
    and ends: "\<forall>e \<in> set (bt_values edges). ed_from_node_id e \<in> set (bt_keys nodes) \<and>
                 ed_to_node_id e \<in> set (bt_keys nodes)"
  defines "N \<equiv> set (bt_keys nodes)" and "E \<equiv> map arc_of (bt_values edges)"
  shows "\<exists>ordered. stable_prefix N E ordered \<and> available N E (set ordered) = {} \<and>
     (if set ordered = N
      then stable_topological_order nodes edges = Inr (Inr ordered)
      else stable_topological_order nodes edges = Inr (Inl (Cycle (sorted_list_of_set (N - set ordered)))))"
proof -
  let ?i0 = "map (\<lambda>k. (k, 0)) (bt_keys nodes) :: degree_map"
  let ?o0 = "map (\<lambda>k. (k, [])) (bt_keys nodes) :: outgoing_map"
  have "\<exists>i o'. try_fold count_edge (?i0, ?o0) (bt_values edges) = Inr (i, o') \<and> bt_keys i = bt_keys nodes \<and>
     (\<forall>v \<in> N. bt_get i v = Some ((\<lambda>_. 0) v + degree E {} v) \<and> bt_get o' v = Some ((\<lambda>_. []) v @ targets_of E v))"
    unfolding N_def E_def
    by (rule count_edges) (use ends in \<open>auto simp: bt_get_const\<close>)
  then obtain i o' where fill: "try_fold count_edge (?i0, ?o0) (bt_values edges) = Inr (i, o')"
    "bt_keys i = bt_keys nodes" "\<forall>v \<in> N. bt_get i v = Some (degree E {} v)"
    "\<forall>v \<in> N. bt_get o' v = Some (targets_of E v)" by auto
  let ?r = "map fst (filter (\<lambda>(_, d). d = 0) i)"
  have i: "bt_inv i" using inv fill(2) by (simp add: bt_inv_keys)
  have dom: "bt_get i v = Some d \<longleftrightarrow> v \<in> N \<and> d = degree E {} v" for v d
    using fill(2,3) bt_get_None [of i v] by (auto simp: N_def)
  have "set ?r = available N E {}"
    unfolding filter_keys(1) [OF i] available_degree dom by auto
  then have "kahn_inv N E i ?r []"
    using i fill(2,3) filter_keys(2) [OF i, of "\<lambda>d. d = 0"]
    by (simp add: kahn_inv_def stable_prefix_def N_def)
  moreover have "\<forall>(u, v) \<in> set E. u \<in> N \<and> v \<in> N"
    using ends by (auto simp: E_def N_def arc_of_def)
  ultimately obtain i' ordered where k: "kahn o' i ?r [] = Inr (i', ordered)" "kahn_inv N E i' [] ordered"
    using kahn_correct [OF _ fill(4)] by blast
  from k(2) have inv': "bt_inv i'" "set (bt_keys i') = N" "stable_prefix N E ordered"
    "available N E (set ordered) = {}" "\<forall>v \<in> N. bt_get i' v = Some (degree E (set ordered) v)"
    by (auto simp: kahn_inv_def)
  have ord: "distinct ordered" "set ordered \<subseteq> N" using stable_prefix_facts [OF inv'(3)] by auto
  have card: "length nodes = card N"
    using distinct_card [OF bt_inv_distinct [OF inv]] by (simp add: N_def bt_keys_def)
  have "finite N" by (simp add: N_def)
  then have "card (set ordered) = card N \<longleftrightarrow> set ordered = N"
    using ord(2) card_subset_eq by blast
  with card have len: "length ordered = length nodes \<longleftrightarrow> set ordered = N"
    using distinct_card [OF ord(1)] by simp
  have dom': "bt_get i' v = Some d \<longleftrightarrow> v \<in> N \<and> d = degree E (set ordered) v" for v d
    using inv'(2,5) bt_get_None [of i' v] by auto
  have rest: "{v. \<exists>d. bt_get i' v = Some d \<and> d \<noteq> 0} = N - set ordered"
  proof -
    have "degree E (set ordered) v = 0" if "v \<in> set ordered" for v
      using that stable_prefix_facts [OF inv'(3)] by (auto simp: degree_zero)
    moreover have "degree E (set ordered) v \<noteq> 0" if "v \<in> N" "v \<notin> set ordered" for v
      using that inv'(4) by (auto simp: available_degree)
    ultimately show ?thesis using dom' by auto
  qed
  let ?c = "map fst (filter (\<lambda>(_, d). d \<noteq> 0) i')"
  have "sorted_list_of_set (set ?c) = ?c"
    using filter_keys(2) [OF inv'(1), of "\<lambda>d. d \<noteq> 0"]
    by (simp only: strict_sorted_iff sorted_list_of_set.idem_if_sorted_distinct)
  then have "?c = sorted_list_of_set (N - set ordered)"
    by (simp only: filter_keys(1) [OF inv'(1)] rest)
  with fill(1) k(1) len inv'(3,4) show ?thesis
    by (intro exI [of _ ordered]) (simp add: stable_topological_order_def Let_def)
qed

section \<open>The builder's invariant\<close>

text \<open>Every stored node is valid under its own id, every stored edge against the stored nodes.\<close>

definition wf_builder :: "graph_builder \<Rightarrow> bool" where
  "wf_builder b \<longleftrightarrow>
     bt_inv (gb_nodes b) \<and> bt_inv (gb_edges b) \<and>
     (\<forall>i n. bt_get (gb_nodes b) i = Some n \<longrightarrow>
        nd_node_id (nf_descriptor n) = i \<and> validate_node_descriptor (nf_descriptor n) = Inr ()) \<and>
     (\<forall>i e. bt_get (gb_edges b) i = Some e \<longrightarrow>
        ed_edge_id e = i \<and> validate_edge (gb_nodes b) e = Inr ())"

text \<open>What an accepted edge guarantees: both ports exist, point the right way and agree on the type.\<close>

lemma find_port_Inr:
  assumes "find_port node name expected edge role = Inr port"
  shows "port \<in> set (nd_ports (nf_descriptor node)) \<and> pd_name port = name \<and> pd_direction port = expected"
proof -
  from assms have "List.find (\<lambda>port. pd_name port = name \<and> pd_direction port = expected)
      (nd_ports (nf_descriptor node)) = Some port"
    by (auto simp: find_port_def Let_def split: option.splits)
  then show ?thesis by (auto simp: find_Some_iff)
qed

lemma validate_edge_Inr:
  assumes "validate_edge nodes edge = Inr ()"
  shows "\<exists>sn tn sp tp. bt_get nodes (ed_from_node_id edge) = Some sn \<and>
     bt_get nodes (ed_to_node_id edge) = Some tn \<and>
     find_port sn (ed_from_output_port edge) Output edge RoleSource = Inr sp \<and>
     find_port tn (ed_to_input_port edge) Input edge RoleTarget = Inr tp \<and>
     pd_frame_type sp = ed_frame_type edge \<and> pd_frame_type tp = ed_frame_type edge"
  using assms by (auto simp: validate_edge_def Let_def res_iff split: if_splits)

text \<open>Validity of an edge depends on the descriptors of its two end points only.\<close>

lemma validate_edge_cong:
  assumes "\<And>i. map_option nf_descriptor (bt_get nodes i) = map_option nf_descriptor (bt_get nodes' i)"
  shows "validate_edge nodes edge = validate_edge nodes' edge"
proof -
  have port: "find_port n name d edge r = find_port n' name d edge r"
    if "nf_descriptor n = nf_descriptor n'" for n n' name d r
    unfolding find_port_def that ..
  show ?thesis
  proof (cases "bt_get nodes (ed_from_node_id edge)")
    case None
    with assms [of "ed_from_node_id edge"] show ?thesis by (simp add: validate_edge_def Let_def)
  next
    case (Some a)
    with assms [of "ed_from_node_id edge"] obtain a' where
      a: "bt_get nodes' (ed_from_node_id edge) = Some a'" "nf_descriptor a = nf_descriptor a'"
      by (cases "bt_get nodes' (ed_from_node_id edge)") auto
    show ?thesis
    proof (cases "bt_get nodes (ed_to_node_id edge)")
      case None
      with assms [of "ed_to_node_id edge"] Some a show ?thesis by (simp add: validate_edge_def Let_def)
    next
      fix c
      assume c: "bt_get nodes (ed_to_node_id edge) = Some c"
      with assms [of "ed_to_node_id edge"] obtain c' where
        c': "bt_get nodes' (ed_to_node_id edge) = Some c'" "nf_descriptor c = nf_descriptor c'"
        by (cases "bt_get nodes' (ed_to_node_id edge)") auto
      show ?thesis
        by (simp add: validate_edge_def Let_def Some a(1) c c'(1) port [OF a(2)] port [OF c'(2)])
    qed
  qed
qed

lemma validate_edge_add_node:
  assumes "validate_edge nodes edge = Inr ()" and "bt_get nodes i = None"
  shows "validate_edge (bt_insert i n nodes) edge = Inr ()"
proof -
  have "ed_from_node_id edge \<noteq> i" "ed_to_node_id edge \<noteq> i"
    using validate_edge_Inr [OF assms(1)] assms(2) by auto
  then show ?thesis using assms(1) by (simp add: validate_edge_def bt_get_insert)
qed

lemma wf_add_node: "wf_builder b \<Longrightarrow> add_node b d = Inr b' \<Longrightarrow> wf_builder b'"
  by (auto simp: wf_builder_def add_node_def Let_def res_iff bt_inv_insert bt_get_insert
      validate_edge_add_node split: if_splits)

lemma wf_connect: "wf_builder b \<Longrightarrow> connect b e = Inr b' \<Longrightarrow> wf_builder b'"
  by (auto simp: wf_builder_def connect_def res_iff bt_inv_insert bt_get_insert split: if_splits)

lemma wf_update_node:
  assumes wf: "wf_builder b" and node: "bt_get (gb_nodes b) i = Some n"
    and same: "nf_descriptor n' = nf_descriptor n"
  shows "wf_builder (b\<lparr>gb_nodes := bt_set i n' (gb_nodes b)\<rparr>)"
proof -
  have "validate_edge (bt_set i n' (gb_nodes b)) e = validate_edge (gb_nodes b) e" for e
    by (rule validate_edge_cong) (use node same in \<open>auto simp: bt_get_set\<close>)
  then show ?thesis
    using wf node same by (auto simp: wf_builder_def bt_get_set)
qed

datatype builder_op =
    AddNode node_descriptor
  | Connect edge_descriptor
  | SetConfig node_id config_map
  | SetFactory node_id node_factory_selection

fun builder_apply :: "builder_op \<Rightarrow> graph_builder \<Rightarrow> graph_build_error + graph_builder" where
  "builder_apply (AddNode d) b = add_node b d"
| "builder_apply (Connect e) b = connect b e"
| "builder_apply (SetConfig i c) b = set_config b i c"
| "builder_apply (SetFactory i f) b = set_factory b i f"

text \<open>A failed call leaves the builder as it was.\<close>

definition builder_step :: "builder_op \<Rightarrow> graph_builder \<Rightarrow> graph_builder" where
  "builder_step a b = (case builder_apply a b of Inr b' \<Rightarrow> b' | Inl _ \<Rightarrow> b)"

lemma wf_builder_apply: "wf_builder b \<Longrightarrow> builder_apply a b = Inr b' \<Longrightarrow> wf_builder b'"
  by (cases a)
     (auto simp: set_config_def set_factory_def res_iff intro: wf_add_node wf_connect wf_update_node)

interpretation builder: guarded_system builder_step wf_builder
  by unfold_locales (auto simp: builder_step_def intro: wf_builder_apply split: sum.splits)

lemma wf_builder_with_graph_id: "wf_builder (builder_with_graph_id i)"
  by (simp add: wf_builder_def builder_with_graph_id_def)

lemma wf_builder_edges:
  assumes "wf_builder b" and "e \<in> set (bt_values (gb_edges b))"
  shows "validate_edge (gb_nodes b) e = Inr ()"
proof -
  from assms(2) obtain i where "(i, e) \<in> set (gb_edges b)" by (auto simp: bt_values_def)
  then have "bt_get (gb_edges b) i = Some e"
    using assms(1) by (simp add: wf_builder_def bt_get_iff)
  with assms(1) show ?thesis by (auto simp: wf_builder_def)
qed

definition wf_node_descriptor :: "node_descriptor \<Rightarrow> bool" where
  "wf_node_descriptor d \<longleftrightarrow>
     lc_process (nd_lifecycle d) \<and> list_all (\<lambda>p. pd_node_id p = nd_node_id d) (nd_ports d) \<and>
     distinct (map (\<lambda>p. (pd_direction p, pd_name p)) (nd_ports d)) \<and>
     (nd_kind d = Source \<longrightarrow> list_all (\<lambda>p. pd_direction p = Output) (nd_ports d)) \<and>
     (nd_kind d = Sink \<longrightarrow> list_all (\<lambda>p. pd_direction p = Input) (nd_ports d))"

lemma direction_order_inj [simp]: "direction_order a = direction_order b \<longleftrightarrow> a = b"
  by (cases a; cases b) simp_all

abbreviation port_key :: "port_descriptor \<Rightarrow> nat \<times> port_name" where
  "port_key p \<equiv> (direction_order (pd_direction p), pd_name p)"

lemma validate_ports_Inr:
  "validate_ports d seen ps = Inr () \<Longrightarrow>
     list_all (\<lambda>p. pd_node_id p = nd_node_id d \<and> port_key p \<notin> set seen \<and>
        (nd_kind d = Source \<longrightarrow> pd_direction p = Output) \<and>
        (nd_kind d = Sink \<longrightarrow> pd_direction p = Input)) ps \<and>
     distinct (map (\<lambda>p. (pd_direction p, pd_name p)) ps)"
proof (induction d seen ps rule: validate_ports.induct)
  case (2 d seen p ps)
  from "2.prems" have p: "pd_node_id p = nd_node_id d" "port_key p \<notin> set seen"
    "\<not> (nd_kind d = Source \<and> pd_direction p = Input)" "\<not> (nd_kind d = Sink \<and> pd_direction p = Output)"
    "validate_ports d (bs_insert (port_key p) seen) ps = Inr ()"
    by (auto simp: Let_def split: if_splits)
  have IH: "list_all (\<lambda>q. pd_node_id q = nd_node_id d \<and> port_key q \<notin> set (bs_insert (port_key p) seen) \<and>
        (nd_kind d = Source \<longrightarrow> pd_direction q = Output) \<and>
        (nd_kind d = Sink \<longrightarrow> pd_direction q = Input)) ps \<and>
      distinct (map (\<lambda>p. (pd_direction p, pd_name p)) ps)"
    using "2.IH" [OF _ refl] p by simp
  have "pd_direction p = Output \<or> pd_direction p = Input" by (cases "pd_direction p") auto
  with IH p show ?case by (auto simp: list_all_iff)
qed simp

lemma wf_node_descriptor_valid: "validate_node_descriptor d = Inr () \<Longrightarrow> wf_node_descriptor d"
  using validate_ports_Inr [of d "[]" "nd_ports d"]
  by (auto simp: validate_node_descriptor_def wf_node_descriptor_def list_all_iff split: if_splits)

lemma wf_builder_node:
  assumes "wf_builder b" and "bt_get (gb_nodes b) i = Some n"
  shows "n \<in> set (bt_values (gb_nodes b)) \<and> nd_node_id (nf_descriptor n) = i"
proof -
  have "(i, n) \<in> set (gb_nodes b)" using assms by (simp add: wf_builder_def flip: bt_get_iff)
  with assms show ?thesis by (force simp: wf_builder_def bt_values_def)
qed

lemma wf_builder_nodes:
  assumes "wf_builder b" and "n \<in> set (bt_values (gb_nodes b))"
  shows "wf_node_descriptor (nf_descriptor n)"
proof -
  from assms(2) obtain i where "(i, n) \<in> set (gb_nodes b)" by (auto simp: bt_values_def)
  then have "bt_get (gb_nodes b) i = Some n" using assms(1) by (simp add: wf_builder_def bt_get_iff)
  with assms(1) show ?thesis by (auto simp: wf_builder_def intro: wf_node_descriptor_valid)
qed

lemma wf_builder_endpoints:
  assumes "wf_builder b"
  shows "\<forall>e \<in> set (bt_values (gb_edges b)). ed_from_node_id e \<in> set (bt_keys (gb_nodes b)) \<and>
           ed_to_node_id e \<in> set (bt_keys (gb_nodes b))"
proof
  fix e
  assume "e \<in> set (bt_values (gb_edges b))"
  from validate_edge_Inr [OF wf_builder_edges [OF assms this]]
  show "ed_from_node_id e \<in> set (bt_keys (gb_nodes b)) \<and> ed_to_node_id e \<in> set (bt_keys (gb_nodes b))"
    using bt_get_None [of "gb_nodes b"] by (metis option.distinct(1))
qed

text \<open>What \<open>build\<close> returns for a well-formed builder: it never panics, and it fails only on a cycle.\<close>

abbreviation builder_arcs :: "graph_builder \<Rightarrow> arc list" where
  "builder_arcs b \<equiv> map arc_of (bt_values (gb_edges b))"

lemma build_cases:
  assumes "wf_builder b"
  obtains (ok) order where
      "build b = Inr (Inr \<lparr>gd_graph_id = gb_graph_id b, gd_nodes = bt_values (gb_nodes b),
         gd_edges = bt_values (gb_edges b), gd_topological_order = order\<rparr>)"
      "stable_prefix (set (bt_keys (gb_nodes b))) (builder_arcs b) order"
      "set order = set (bt_keys (gb_nodes b))" "acyclic (set (builder_arcs b))"
    | (cycle) S where
      "build b = Inr (Inl (Cycle (sorted_list_of_set (set (bt_keys (gb_nodes b)) - S))))"
      "set (bt_keys (gb_nodes b)) - S = {v \<in> set (bt_keys (gb_nodes b)).
         \<exists>w. (w, w) \<in> (set (builder_arcs b))\<^sup>+ \<and> (w, v) \<in> (set (builder_arcs b))\<^sup>*}"
      "\<not> acyclic (set (builder_arcs b))"
proof -
  let ?N = "set (bt_keys (gb_nodes b))" and ?E = "builder_arcs b"
  have inv: "bt_inv (gb_nodes b)" using assms by (simp add: wf_builder_def)
  note ends = wf_builder_endpoints [OF assms]
  from stable_topological_order_correct [OF inv ends] obtain order where
    order: "stable_prefix ?N ?E order" "available ?N ?E (set order) = {}"
    "if set order = ?N then stable_topological_order (gb_nodes b) (gb_edges b) = Inr (Inr order)
     else stable_topological_order (gb_nodes b) (gb_edges b) =
       Inr (Inl (Cycle (sorted_list_of_set (?N - set order))))"
    by blast
  have arcs: "\<forall>(u, v) \<in> set ?E. u \<in> ?N \<and> v \<in> ?N" using ends by (auto simp: arc_of_def)
  have sub: "set order \<subseteq> ?N" using stable_prefix_facts [OF order(1)] by blast
  show thesis
  proof (cases "set order = ?N")
    case True
    with order arcs stable_order_acyclic [OF order(1)] show thesis
      by (intro ok [of order]) (auto simp: build_def)
  next
    case False
    have pred: "\<exists>u \<in> ?N - set order. (u, v) \<in> set ?E" if "v \<in> ?N - set order" for v
    proof -
      from that order(2) have "v \<notin> available ?N ?E (set order)" by (simp only: empty_iff not_False_eq_True)
      with that obtain u where "(u, v) \<in> set ?E" "u \<notin> set order"
        by (auto simp: available_def simp del: set_map)
      with arcs show ?thesis by blast
    qed
    have "\<not> acyclic (set ?E)"
      by (rule unplaced_cycle [of _ "?N - set order"]) (use False sub pred in auto)
    moreover have "?N - set order = {v \<in> ?N. \<exists>w. (w, w) \<in> (set ?E)\<^sup>+ \<and> (w, v) \<in> (set ?E)\<^sup>*}"
      using unplaced_reached_from_cycle [OF _ _ pred] placed_not_reached_from_cycle [OF order(1)]
      by (auto simp del: set_map)
    ultimately show thesis using False order(3) by (intro cycle [of "set order"]) (auto simp: build_def)
  qed
qed

section \<open>Properties\<close>

text \<open>
  C4. After any sequence of builder calls, failed ones included, \<open>build\<close> does not panic and
  succeeds exactly when the connections have no directed cycle; the order it returns then
  lists every node once and takes at each position the least node all of whose
  predecessors are placed, which makes it a topological order that depends on the graph alone.
\<close>

theorem build_topological:
  "let b = fold builder_step ops (builder_with_graph_id gid);
       N = set (bt_keys (gb_nodes b));
       E = map arc_of (bt_values (gb_edges b)) in
   (acyclic (set E) \<and>
     (\<exists>g. build b = Inr (Inr g) \<and> set (gd_topological_order g) = N \<and>
        distinct (gd_topological_order g) \<and>
        (\<forall>i < length (gd_topological_order g).
           let placed = set (take i (gd_topological_order g)) in
           is_arg_min id (\<lambda>v. v \<in> available N E placed) (gd_topological_order g ! i)))) \<or>
   (\<not> acyclic (set E) \<and> (\<exists>ids. build b = Inr (Inl (Cycle ids))))"
proof -
  let ?b = "fold builder_step ops (builder_with_graph_id gid)"
  have "wf_builder ?b" by (rule builder.run_inv) (rule wf_builder_with_graph_id)
  then show ?thesis
  proof (cases rule: build_cases)
    case (ok order)
    with stable_prefix_facts [OF ok(2)] show ?thesis
      unfolding Let_def by (intro disjI1 conjI exI) (auto simp: stable_prefix_def is_arg_min_def not_less)
  next
    case (cycle S)
    then show ?thesis by (auto simp: Let_def)
  qed
qed

text \<open>
  C9. In every graph the builder accepts, each edge joins an output port to an input port
  that exist on its two nodes and carry exactly the edge's frame type; sources have no
  inputs, sinks no outputs, and no node has two ports of one name and direction.
\<close>

theorem build_well_typed:
  assumes "build (fold builder_step ops (builder_with_graph_id gid)) = Inr (Inr g)"
  shows "(\<forall>e \<in> set (gd_edges g). \<exists>sn \<in> set (gd_nodes g). \<exists>tn \<in> set (gd_nodes g).
            \<exists>sp \<in> set (nd_ports (nf_descriptor sn)). \<exists>tp \<in> set (nd_ports (nf_descriptor tn)).
              nd_node_id (nf_descriptor sn) = ed_from_node_id e \<and> pd_name sp = ed_from_output_port e \<and>
              nd_node_id (nf_descriptor tn) = ed_to_node_id e \<and> pd_name tp = ed_to_input_port e \<and>
              pd_direction sp = Output \<and> pd_direction tp = Input \<and>
              pd_frame_type sp = ed_frame_type e \<and> pd_frame_type tp = ed_frame_type e) \<and>
         (\<forall>n \<in> set (gd_nodes g). wf_node_descriptor (nf_descriptor n))"
proof -
  let ?b = "fold builder_step ops (builder_with_graph_id gid)"
  have wf: "wf_builder ?b" by (rule builder.run_inv) (rule wf_builder_with_graph_id)
  from wf have "gd_nodes g = bt_values (gb_nodes ?b) \<and> gd_edges g = bt_values (gb_edges ?b)"
    by (cases rule: build_cases) (use assms in auto)
  then have g: "gd_nodes g = bt_values (gb_nodes ?b)" "gd_edges g = bt_values (gb_edges ?b)"
    by simp_all
  have edge: "\<exists>sn \<in> set (gd_nodes g). \<exists>tn \<in> set (gd_nodes g).
      \<exists>sp \<in> set (nd_ports (nf_descriptor sn)). \<exists>tp \<in> set (nd_ports (nf_descriptor tn)).
        nd_node_id (nf_descriptor sn) = ed_from_node_id e \<and> pd_name sp = ed_from_output_port e \<and>
        nd_node_id (nf_descriptor tn) = ed_to_node_id e \<and> pd_name tp = ed_to_input_port e \<and>
        pd_direction sp = Output \<and> pd_direction tp = Input \<and>
        pd_frame_type sp = ed_frame_type e \<and> pd_frame_type tp = ed_frame_type e"
    if e: "e \<in> set (gd_edges g)" for e
  proof -
    have "validate_edge (gb_nodes ?b) e = Inr ()"
      by (rule wf_builder_edges [OF wf]) (use e g(2) in simp)
    from validate_edge_Inr [OF this] obtain sn tn sp tp where
      n: "bt_get (gb_nodes ?b) (ed_from_node_id e) = Some sn" "bt_get (gb_nodes ?b) (ed_to_node_id e) = Some tn"
      and p: "find_port sn (ed_from_output_port e) Output e RoleSource = Inr sp"
        "find_port tn (ed_to_input_port e) Input e RoleTarget = Inr tp"
        "pd_frame_type sp = ed_frame_type e" "pd_frame_type tp = ed_frame_type e"
      by blast
    with find_port_Inr [OF p(1)] find_port_Inr [OF p(2)] wf_builder_node [OF wf n(1)]
      wf_builder_node [OF wf n(2)] show ?thesis
      by (intro bexI [of _ sn] bexI [of _ tn] bexI [of _ sp] bexI [of _ tp]) (auto simp: g)
  qed
  have "wf_node_descriptor (nf_descriptor n)" if "n \<in> set (gd_nodes g)" for n
    using that wf_builder_nodes [OF wf] by (simp add: g)
  with edge show ?thesis by blast
qed

definition example_node :: "node_id \<Rightarrow> node_kind \<Rightarrow> port_direction \<Rightarrow> node_descriptor" where
  "example_node i k d =
     \<lparr>nd_node_id = i, nd_node_type = ''t'', nd_kind = k,
      nd_ports = [\<lparr>pd_node_id = i, pd_name = ''p'', pd_direction = d, pd_frame_type = TyText\<rparr>],
      nd_config_schema = VMap [],
      nd_lifecycle = \<lparr>lc_prepare = False, lc_process = True, lc_finish = False, lc_abort = False\<rparr>\<rparr>"

definition example_edge :: "edge_id \<Rightarrow> node_id \<Rightarrow> node_id \<Rightarrow> edge_descriptor" where
  "example_edge i u v =
     \<lparr>ed_edge_id = i, ed_from_node_id = u, ed_from_output_port = ''p'', ed_to_node_id = v,
      ed_to_input_port = ''p'', ed_frame_type = TyText, ed_queue_policy = queue_policy_default,
      ed_validation_policy = TypeGateOnly, ed_transform_policy = IdentityTransform,
      ed_enabled = Always, ed_visibility = visibility_descriptor_new VisPublic []\<rparr>"

definition example_ops :: "builder_op list" where
  "example_ops = [AddNode (example_node ''b'' Sink Input), AddNode (example_node ''a'' Source Output),
     Connect (example_edge ''e'' ''a'' ''b'')]"

lemma example_build:
  "build (fold builder_step example_ops (builder_with_graph_id ''g'')) =
   Inr (Inr \<lparr>gd_graph_id = ''g'',
     gd_nodes = [\<lparr>nf_descriptor = example_node ''a'' Source Output, nf_config = [], nf_factory = None\<rparr>,
                 \<lparr>nf_descriptor = example_node ''b'' Sink Input, nf_config = [], nf_factory = None\<rparr>],
     gd_edges = [example_edge ''e'' ''a'' ''b''], gd_topological_order = [''a'', ''b'']\<rparr>)"
  by (simp add: example_ops_def example_node_def example_edge_def builder_step_def
      builder_with_graph_id_def add_node_def connect_def validate_node_descriptor_def
      validate_edge_def find_port_def build_def stable_topological_order_def count_edge_def
      release_target_def bt_get_def bt_keys_def bt_values_def Let_def)

theorem build_well_typed_witness:
  "\<exists>g. build (fold builder_step example_ops (builder_with_graph_id ''g'')) = Inr (Inr g) \<and>
       length (gd_edges g) = 1 \<and> (\<forall>n \<in> set (gd_nodes g). wf_node_descriptor (nf_descriptor n))"
  using build_well_typed [OF example_build] example_build by auto

text \<open>
  The node list of a cycle error is not the cycle: it is, in id order, every node that can
  be reached from some node on a cycle, so it also names nodes that lie on no cycle at all.
\<close>

lemma build_cycle_ids:
  assumes "build (fold builder_step ops (builder_with_graph_id gid)) = Inr (Inl err)"
  shows "let b = fold builder_step ops (builder_with_graph_id gid);
             E = set (map arc_of (bt_values (gb_edges b))) in
         err = Cycle (sorted_list_of_set {v \<in> set (bt_keys (gb_nodes b)). \<exists>w. (w, w) \<in> E\<^sup>+ \<and> (w, v) \<in> E\<^sup>*})"
proof -
  let ?b = "fold builder_step ops (builder_with_graph_id gid)"
  have "wf_builder ?b" by (rule builder.run_inv) (rule wf_builder_with_graph_id)
  then show ?thesis
  proof (cases rule: build_cases)
    case (cycle S)
    with assms show ?thesis by (simp add: Let_def)
  qed (use assms in auto)
qed

definition example_loop_node :: "node_id \<Rightarrow> node_descriptor" where
  "example_loop_node i = (example_node i Transform Input)\<lparr>nd_ports :=
     [\<lparr>pd_node_id = i, pd_name = ''p'', pd_direction = Input, pd_frame_type = TyText\<rparr>,
      \<lparr>pd_node_id = i, pd_name = ''p'', pd_direction = Output, pd_frame_type = TyText\<rparr>]\<rparr>"

definition example_cycle_ops :: "builder_op list" where
  "example_cycle_ops = [AddNode (example_loop_node ''a''), AddNode (example_node ''b'' Sink Input),
     Connect (example_edge ''e'' ''a'' ''a''), Connect (example_edge ''f'' ''a'' ''b'')]"

text \<open>The sink \<open>b\<close> is on no cycle, and the error names it.\<close>

lemma example_cycle_build:
  "build (fold builder_step example_cycle_ops (builder_with_graph_id ''g'')) =
     Inr (Inl (Cycle [''a'', ''b'']))"
  by (simp add: example_cycle_ops_def example_loop_node_def example_node_def example_edge_def
      builder_step_def builder_with_graph_id_def add_node_def connect_def
      validate_node_descriptor_def validate_edge_def find_port_def build_def
      stable_topological_order_def count_edge_def release_target_def bt_get_def bt_keys_def
      bt_values_def Let_def)

lemma build_cycle_ids_witness:
  "let b = fold builder_step example_cycle_ops (builder_with_graph_id ''g'');
       E = set (map arc_of (bt_values (gb_edges b))) in
   sorted_list_of_set {v \<in> set (bt_keys (gb_nodes b)). \<exists>w. (w, w) \<in> E\<^sup>+ \<and> (w, v) \<in> E\<^sup>*} = [''a'', ''b'']"
  using build_cycle_ids [OF example_cycle_build] by (simp add: Let_def)

theorem build_topological_witness:
  "\<exists>g. build (fold builder_step example_ops (builder_with_graph_id ''g'')) = Inr (Inr g) \<and>
       distinct (gd_topological_order g)"
  using build_topological [of example_ops "''g''"] example_build by (auto simp: Let_def)

end
