(* ===== verification/Queues.thy ===== *)
theory Queues
  imports Descriptors "HOL-Library.Sublist"
begin

text \<open>
  The bounded edge queue (\<open>muxiva-core/src/queue.rs\<close>) and the signal queue (\<open>signal.rs\<close>).
  Every critical section under the queue mutex is one function. A blocking call is split
  at its condition variable: \<open>push_start\<close> runs up to the first wait, \<open>push_resume\<close> from
  one wake-up to the next wait or return, so a sequence of these functions in any order
  is an interleaving of producers and consumers. \<open>Instant::now()\<close> is an argument.
\<close>

section \<open>Wake generations\<close>

datatype drain_mode = Drain | Discard

text \<open>\<open>QueueWake\<close>: the generation counter wraps at 64 bits.\<close>

record queue_wake =
  qw_generation :: "64 word"

definition wake_notify :: "queue_wake \<Rightarrow> queue_wake" where
  "wake_notify self = self\<lparr>qw_generation := qw_generation self + 1\<rparr>"

definition wake_wait_done :: "queue_wake \<Rightarrow> 64 word \<Rightarrow> bool" where
  "wake_wait_done self observed \<longleftrightarrow> qw_generation self \<noteq> observed"

section \<open>The edge queue\<close>

datatype queue_drop_reason = QueueFullDropOldest | QueueFullDropNewest | ShutdownDiscard

fun queue_drop_reason_as_str :: "queue_drop_reason \<Rightarrow> string" where
  "queue_drop_reason_as_str QueueFullDropOldest = ''queue full: dropped oldest frame''"
| "queue_drop_reason_as_str QueueFullDropNewest = ''queue full: dropped newest frame''"
| "queue_drop_reason_as_str ShutdownDiscard = ''queue closed: discarded buffered frame''"

datatype enqueue_outcome = Enqueued | Dropped queue_drop_reason | EnqueuedAfterDroppingOldest

datatype queue_push_error = PushClosed | OverflowAborted

datatype queue_closed = QueueClosed

record queue_state =
  qs_frames :: "frame list"
  qs_enqueued_at :: "nat list"
  qs_closed :: bool
  qs_high_watermark :: usize
  qs_enqueue_total :: u64
  qs_dequeue_total :: u64
  qs_drop_total :: u64
  qs_signal_total :: u64
  qs_full_total :: u64
  qs_blocked_duration_ns :: u64
  qs_payload_bytes_total :: u64
  qs_audio_duration_ns_total :: u64
  qs_latest_error_reason :: "string option"

record edge_queue =
  eq_edge_id :: edge_id
  eq_capacity :: usize
  eq_overflow :: queue_overflow_policy
  eq_state :: queue_state
  eq_target_wake :: "queue_wake option"

definition edge_queue_new :: "edge_id \<Rightarrow> queue_policy \<Rightarrow> queue_wake option \<Rightarrow> edge_queue" where
  "edge_queue_new edge_id policy target_wake =
     \<lparr>eq_edge_id = edge_id, eq_capacity = qp_capacity policy, eq_overflow = qp_overflow policy,
      eq_state = \<lparr>qs_frames = [], qs_enqueued_at = [], qs_closed = False, qs_high_watermark = 0,
        qs_enqueue_total = 0, qs_dequeue_total = 0, qs_drop_total = 0, qs_signal_total = 0,
        qs_full_total = 0, qs_blocked_duration_ns = 0, qs_payload_bytes_total = 0,
        qs_audio_duration_ns_total = 0, qs_latest_error_reason = None\<rparr>,
      eq_target_wake = target_wake\<rparr>"

definition set_reason :: "queue_state \<Rightarrow> string \<Rightarrow> queue_state" where
  "set_reason st reason = st\<lparr>qs_latest_error_reason := Some (sanitize_bounded MAX_REASON_BYTES reason)\<rparr>"

definition frame_measurement :: "frame \<Rightarrow> u64 \<times> u64" where
  "frame_measurement frame =
     (case as_audio frame of
        Some audio \<Rightarrow>
          (let data = cf_data audio in
           (length (ad_buffer data),
            if ad_sample_rate_hz data = 0 then 0
            else sat_mul64 (ad_samples_per_channel data) 1000000000 div ad_sample_rate_hz data))
      | None \<Rightarrow>
          (case as_byte frame of
             Some bytes \<Rightarrow> (length (bd_buffer (cf_data bytes)), 0)
           | None \<Rightarrow>
               (case as_text frame of
                  Some text \<Rightarrow> (length (cf_data text), 0)
                | None \<Rightarrow> (0, 0))))"

definition enqueue :: "nat \<Rightarrow> queue_state \<Rightarrow> frame \<Rightarrow> queue_state" where
  "enqueue now st frame =
     (let (payload_bytes, audio_duration_ns) = frame_measurement frame;
          frames = qs_frames st @ [frame] in
      st\<lparr>qs_frames := frames,
         qs_enqueued_at := qs_enqueued_at st @ [now],
         qs_enqueue_total := sat_add64 (qs_enqueue_total st) 1,
         qs_payload_bytes_total := sat_add64 (qs_payload_bytes_total st) payload_bytes,
         qs_audio_duration_ns_total := sat_add64 (qs_audio_duration_ns_total st) audio_duration_ns,
         qs_high_watermark := max (qs_high_watermark st) (length frames)\<rparr>)"

definition dequeue :: "queue_state \<Rightarrow> (frame \<times> queue_state) option" where
  "dequeue st =
     (case qs_frames st of
        [] \<Rightarrow> None
      | frame # frames \<Rightarrow>
          Some (frame, st\<lparr>qs_frames := frames, qs_enqueued_at := drop 1 (qs_enqueued_at st),
                          qs_dequeue_total := sat_add64 (qs_dequeue_total st) 1\<rparr>))"

definition nanos :: "nat \<Rightarrow> u64" where
  "nanos duration = min duration u64_max"

definition add_blocked_duration :: "nat \<Rightarrow> queue_state \<Rightarrow> nat option \<Rightarrow> queue_state" where
  "add_blocked_duration now st blocked_at =
     (case blocked_at of
        None \<Rightarrow> st
      | Some started \<Rightarrow>
          st\<lparr>qs_blocked_duration_ns := sat_add64 (qs_blocked_duration_ns st) (nanos (now - started))\<rparr>)"

definition notify_available :: "edge_queue \<Rightarrow> edge_queue" where
  "notify_available self = self\<lparr>eq_target_wake := map_option wake_notify (eq_target_wake self)\<rparr>"

text \<open>A push either returns or waits on \<open>not_full\<close> since the given instant.\<close>

datatype push_progress =
    PushReturns "queue_push_error + enqueue_outcome"
  | PushWaits nat

text \<open>The body of the \<open>while\<close> loop and what follows it, with the lock held.\<close>

definition push_loop :: "edge_queue \<Rightarrow> nat option \<Rightarrow> nat \<Rightarrow> frame \<Rightarrow> edge_queue \<times> push_progress" where
  "push_loop self blocked_at now frame =
     (let st = eq_state self in
      if length (qs_frames st) = eq_capacity self then
        let st = st\<lparr>qs_full_total := sat_add64 (qs_full_total st) 1\<rparr> in
        (case eq_overflow self of
           OverflowBlock \<Rightarrow>
             (self\<lparr>eq_state := st\<rparr>,
              PushWaits (case blocked_at of None \<Rightarrow> now | Some started \<Rightarrow> started))
         | OverflowDropOldest \<Rightarrow>
             let st = st\<lparr>qs_frames := drop 1 (qs_frames st), qs_enqueued_at := drop 1 (qs_enqueued_at st),
                         qs_drop_total := sat_add64 (qs_drop_total st) 1\<rparr>;
                 st = set_reason st (queue_drop_reason_as_str QueueFullDropOldest);
                 st = enqueue now st frame in
             (notify_available (self\<lparr>eq_state := st\<rparr>), PushReturns (Inr EnqueuedAfterDroppingOldest))
         | OverflowDropNewest \<Rightarrow>
             let st = st\<lparr>qs_drop_total := sat_add64 (qs_drop_total st) 1\<rparr>;
                 st = set_reason st (queue_drop_reason_as_str QueueFullDropNewest) in
             (self\<lparr>eq_state := st\<rparr>, PushReturns (Inr (Dropped QueueFullDropNewest)))
         | OverflowAbort \<Rightarrow>
             (self\<lparr>eq_state := set_reason st ''queue full: overflow policy abort''\<rparr>,
              PushReturns (Inl OverflowAborted)))
      else
        let st = add_blocked_duration now st blocked_at;
            st = enqueue now st frame in
        (notify_available (self\<lparr>eq_state := st\<rparr>), PushReturns (Inr Enqueued)))"

definition push_start :: "edge_queue \<Rightarrow> nat \<Rightarrow> frame \<Rightarrow> edge_queue \<times> push_progress" where
  "push_start self now frame =
     (if qs_closed (eq_state self) then (self, PushReturns (Inl PushClosed))
      else push_loop self None now frame)"

definition push_resume :: "edge_queue \<Rightarrow> nat \<Rightarrow> nat \<Rightarrow> frame \<Rightarrow> edge_queue \<times> push_progress" where
  "push_resume self started now frame =
     (if qs_closed (eq_state self)
      then (self\<lparr>eq_state := add_blocked_duration now (eq_state self) (Some started)\<rparr>,
            PushReturns (Inl PushClosed))
      else push_loop self (Some started) now frame)"

text \<open>One iteration of \<open>pop\<close>: \<open>None\<close> means it waits on \<open>not_empty\<close>.\<close>

definition pop_attempt :: "edge_queue \<Rightarrow> edge_queue \<times> (queue_closed + frame) option" where
  "pop_attempt self =
     (case dequeue (eq_state self) of
        Some (frame, st) \<Rightarrow> (self\<lparr>eq_state := st\<rparr>, Some (Inr frame))
      | None \<Rightarrow> (self, if qs_closed (eq_state self) then Some (Inl QueueClosed) else None))"

definition try_pop :: "edge_queue \<Rightarrow> edge_queue \<times> (queue_closed + frame option)" where
  "try_pop self =
     (case dequeue (eq_state self) of
        Some (frame, st) \<Rightarrow> (self\<lparr>eq_state := st\<rparr>, Inr (Some frame))
      | None \<Rightarrow> (self, if qs_closed (eq_state self) then Inl QueueClosed else Inr None))"

definition queue_close :: "edge_queue \<Rightarrow> drain_mode \<Rightarrow> edge_queue" where
  "queue_close self mode =
     (let st = (eq_state self)\<lparr>qs_closed := True\<rparr>;
          st = (if mode = Discard then
                  let discarded = length (qs_frames st);
                      st = st\<lparr>qs_frames := [], qs_enqueued_at := []\<rparr> in
                  if discarded \<noteq> 0
                  then set_reason (st\<lparr>qs_drop_total := sat_add64 (qs_drop_total st) discarded\<rparr>)
                         (queue_drop_reason_as_str ShutdownDiscard)
                  else st
                else st) in
      self\<lparr>eq_state := st, eq_target_wake := map_option wake_notify (eq_target_wake self)\<rparr>)"

definition queue_snapshot :: "edge_queue \<Rightarrow> nat \<Rightarrow> edge_metrics_snapshot" where
  "queue_snapshot self now =
     (let st = eq_state self in
      \<lparr>em_edge_id = eq_edge_id self, em_queue_capacity = eq_capacity self,
       em_queue_len = length (qs_frames st), em_high_watermark = qs_high_watermark st,
       em_enqueue_total = qs_enqueue_total st, em_dequeue_total = qs_dequeue_total st,
       em_drop_total = qs_drop_total st, em_signal_total = qs_signal_total st,
       em_full_total = qs_full_total st, em_blocked_duration_ns = qs_blocked_duration_ns st,
       em_oldest_frame_age_ns =
         (case qs_enqueued_at st of [] \<Rightarrow> None | at # _ \<Rightarrow> Some (nanos (now - at))),
       em_payload_bytes_total = qs_payload_bytes_total st,
       em_audio_duration_ns_total = qs_audio_duration_ns_total st,
       em_latest_error_reason = qs_latest_error_reason st\<rparr>)"

definition is_closed_and_empty :: "edge_queue \<Rightarrow> bool" where
  "is_closed_and_empty self \<longleftrightarrow> qs_closed (eq_state self) \<and> qs_frames (eq_state self) = []"

definition queue_record_drop :: "edge_queue \<Rightarrow> string \<Rightarrow> edge_queue" where
  "queue_record_drop self reason =
     (let st = eq_state self in
      self\<lparr>eq_state := set_reason (st\<lparr>qs_drop_total := sat_add64 (qs_drop_total st) 1\<rparr>) reason\<rparr>)"

definition queue_record_signal :: "edge_queue \<Rightarrow> edge_queue" where
  "queue_record_signal self =
     (let st = eq_state self in
      self\<lparr>eq_state := st\<lparr>qs_signal_total := sat_add64 (qs_signal_total st) 1\<rparr>\<rparr>)"

definition queue_record_error :: "edge_queue \<Rightarrow> string \<Rightarrow> edge_queue" where
  "queue_record_error self reason = self\<lparr>eq_state := set_reason (eq_state self) reason\<rparr>"

section \<open>The signal queue\<close>

datatype signal_queue_push_error = SignalFull | SignalClosed

type_synonym signal_frame = "signal_data concrete_frame"

record signal_queue =
  sq_capacity :: usize
  sq_queue :: "signal_frame list"
  sq_closed :: bool
  sq_enqueue_total :: u64
  sq_dequeue_total :: u64
  sq_full_total :: u64
  sq_target_wake :: queue_wake

definition signal_queue_new :: "usize \<Rightarrow> queue_wake \<Rightarrow> signal_queue" where
  "signal_queue_new capacity target_wake =
     \<lparr>sq_capacity = capacity, sq_queue = [], sq_closed = False, sq_enqueue_total = 0,
      sq_dequeue_total = 0, sq_full_total = 0, sq_target_wake = target_wake\<rparr>"

definition signal_try_push :: "signal_queue \<Rightarrow> signal_frame \<Rightarrow> signal_queue \<times> (signal_queue_push_error + unit)" where
  "signal_try_push self signal =
     (if sq_closed self then (self, Inl SignalClosed)
      else if length (sq_queue self) = sq_capacity self
      then (self\<lparr>sq_full_total := sat_add64 (sq_full_total self) 1\<rparr>, Inl SignalFull)
      else (self\<lparr>sq_queue := sq_queue self @ [signal],
                 sq_enqueue_total := sat_add64 (sq_enqueue_total self) 1,
                 sq_target_wake := wake_notify (sq_target_wake self)\<rparr>, Inr ()))"

definition signal_try_pop :: "signal_queue \<Rightarrow> signal_queue \<times> signal_frame option" where
  "signal_try_pop self =
     (case sq_queue self of
        [] \<Rightarrow> (self, None)
      | signal # queue \<Rightarrow>
          (self\<lparr>sq_queue := queue, sq_dequeue_total := sat_add64 (sq_dequeue_total self) 1\<rparr>,
           Some signal))"

definition signal_close :: "signal_queue \<Rightarrow> drain_mode \<Rightarrow> signal_queue" where
  "signal_close self mode =
     self\<lparr>sq_closed := True,
          sq_queue := (if mode = Discard then [] else sq_queue self),
          sq_target_wake := wake_notify (sq_target_wake self)\<rparr>"

definition signal_is_closed_and_empty :: "signal_queue \<Rightarrow> bool" where
  "signal_is_closed_and_empty self \<longleftrightarrow> sq_closed self \<and> sq_queue self = []"

record signal_queue_snapshot =
  sqs_capacity :: usize
  sqs_queue_len :: usize
  sqs_enqueue_total :: u64
  sqs_dequeue_total :: u64
  sqs_full_total :: u64

definition signal_snapshot :: "signal_queue \<Rightarrow> signal_queue_snapshot" where
  "signal_snapshot self =
     \<lparr>sqs_capacity = sq_capacity self, sqs_queue_len = length (sq_queue self),
      sqs_enqueue_total = sq_enqueue_total self, sqs_dequeue_total = sq_dequeue_total self,
      sqs_full_total = sq_full_total self\<rparr>"

section \<open>The contract of a bounded channel\<close>

text \<open>
  What a queue promises its clients, independently of its overflow policy. An operation
  accepts an element after dropping the \<open>k\<close> oldest ones, delivers the oldest one, clears
  the queue, or leaves the contents alone.
\<close>

datatype 'a channel_event = Accept nat 'a | Deliver 'a | Clear | Quiet

fun apply_event :: "'a channel_event \<Rightarrow> 'a list \<Rightarrow> 'a list" where
  "apply_event (Accept k x) c = drop k c @ [x]"
| "apply_event (Deliver x) c = tl c"
| "apply_event Clear c = []"
| "apply_event Quiet c = c"

fun event_log :: "('op \<Rightarrow> 'q \<Rightarrow> 'q) \<Rightarrow> ('op \<Rightarrow> 'q \<Rightarrow> 'a channel_event) \<Rightarrow> 'op list \<Rightarrow> 'q \<Rightarrow> 'a channel_event list" where
  "event_log step event [] q = []"
| "event_log step event (a # as) q = event a q # event_log step event as (step a q)"

definition accepted :: "'a channel_event list \<Rightarrow> 'a list" where
  "accepted evs = concat (map (\<lambda>e. case e of Accept k x \<Rightarrow> [x] | _ \<Rightarrow> []) evs)"

definition delivered :: "'a channel_event list \<Rightarrow> 'a list" where
  "delivered evs = concat (map (\<lambda>e. case e of Deliver x \<Rightarrow> [x] | _ \<Rightarrow> []) evs)"

definition lossy_event :: "'a channel_event \<Rightarrow> bool" where
  "lossy_event e = (case e of Accept k x \<Rightarrow> k \<noteq> 0 | Clear \<Rightarrow> True | _ \<Rightarrow> False)"

lemma log_simps [simp]:
  "accepted [] = []" "delivered [] = []"
  "accepted (e # es) = (case e of Accept k x \<Rightarrow> [x] | _ \<Rightarrow> []) @ accepted es"
  "delivered (e # es) = (case e of Deliver x \<Rightarrow> [x] | _ \<Rightarrow> []) @ delivered es"
  by (simp_all add: accepted_def delivered_def)

lemma subseq_drop_self: "subseq (drop k xs) xs"
  by (metis append_take_drop_id list_emb_append2 subseq_order.order_refl)

locale bounded_channel = guarded_system step inv
  for step :: "'op \<Rightarrow> 'q \<Rightarrow> 'q" and inv :: "'q \<Rightarrow> bool" +
  fixes event :: "'op \<Rightarrow> 'q \<Rightarrow> 'a channel_event"
    and contents :: "'q \<Rightarrow> 'a list"
    and closed :: "'q \<Rightarrow> bool"
    and bound :: "'q \<Rightarrow> nat"
  assumes step_contents: "contents (step a q) = apply_event (event a q) (contents q)"
    and deliver_oldest: "event a q = Deliver x \<Longrightarrow> \<exists>rest. contents q = x # rest"
    and inv_bounded: "inv q \<Longrightarrow> length (contents q) \<le> bound q"
    and step_bound: "bound (step a q) = bound q"
    and closed_step: "closed q \<Longrightarrow> closed (step a q)"
    and closed_rejects: "closed q \<Longrightarrow> event a q \<noteq> Accept k x"
begin

lemma run_bound: "bound (fold step as q) = bound q"
  by (induction as arbitrary: q) (simp_all add: step_bound)

lemma run_length: "inv q \<Longrightarrow> length (contents (fold step as q)) \<le> bound q"
  using run_inv inv_bounded run_bound by metis

text \<open>No element is delivered out of order, twice, or without having been accepted.\<close>

lemma run_order:
  "subseq (delivered (event_log step event as q) @ contents (fold step as q))
          (contents q @ accepted (event_log step event as q))"
proof (induction as arbitrary: q)
  case (Cons a as)
  let ?d = "delivered (event_log step event as (step a q)) @ contents (fold step as (step a q))"
  let ?a = "accepted (event_log step event as (step a q))"
  have IH: "subseq ?d (apply_event (event a q) (contents q) @ ?a)"
    using Cons.IH [of "step a q"] by (simp add: step_contents)
  show ?case
  proof (cases "event a q")
    case (Accept k x)
    from IH Accept have "subseq ?d (drop k (contents q) @ x # ?a)" by simp
    also have "subseq (drop k (contents q) @ x # ?a) (contents q @ x # ?a)"
      by (simp add: list_emb_append_mono subseq_drop_self)
    finally show ?thesis using Accept by simp
  next
    case (Deliver x)
    with IH deliver_oldest [OF Deliver] show ?thesis by auto
  next
    case Clear
    from IH Clear have "subseq ?d ?a" by simp
    also have "subseq ?a (contents q @ ?a)" by (rule list_emb_append2) simp
    finally show ?thesis using Clear by simp
  next
    case Quiet
    with IH show ?thesis by simp
  qed
qed simp

text \<open>Without lossy events, what was accepted is what was delivered plus what is queued.\<close>

lemma run_lossless:
  "list_all (\<lambda>e. \<not> lossy_event e) (event_log step event as q) \<Longrightarrow>
     delivered (event_log step event as q) @ contents (fold step as q) =
     contents q @ accepted (event_log step event as q)"
proof (induction as arbitrary: q)
  case (Cons a as)
  then have IH: "delivered (event_log step event as (step a q)) @ contents (fold step as (step a q)) =
      apply_event (event a q) (contents q) @ accepted (event_log step event as (step a q))"
    by (simp add: step_contents)
  show ?case
  proof (cases "event a q")
    case (Deliver x)
    with IH deliver_oldest [OF Deliver] show ?thesis by auto
  qed (use IH Cons.prems in \<open>auto simp: lossy_event_def\<close>)
qed simp

lemma closed_run: "closed q \<Longrightarrow> closed (fold step as q) \<and> accepted (event_log step event as q) = []"
proof (induction as arbitrary: q)
  case (Cons a as)
  then show ?case
    using closed_step [of q a] closed_rejects [of q a] by (auto split: channel_event.splits)
qed simp

end

section \<open>The edge queue keeps the contract\<close>

datatype queue_op =
    QPush nat frame
  | QResume nat nat frame
  | QPop
  | QTryPop
  | QClose drain_mode
  | QRecordDrop string
  | QRecordSignal
  | QRecordError string

fun queue_step :: "queue_op \<Rightarrow> edge_queue \<Rightarrow> edge_queue" where
  "queue_step (QPush now f) q = fst (push_start q now f)"
| "queue_step (QResume started now f) q = fst (push_resume q started now f)"
| "queue_step QPop q = fst (pop_attempt q)"
| "queue_step QTryPop q = fst (try_pop q)"
| "queue_step (QClose mode) q = queue_close q mode"
| "queue_step (QRecordDrop r) q = queue_record_drop q r"
| "queue_step QRecordSignal q = queue_record_signal q"
| "queue_step (QRecordError r) q = queue_record_error q r"

definition push_event :: "push_progress \<Rightarrow> frame \<Rightarrow> frame channel_event" where
  "push_event p f =
     (case p of
        PushReturns (Inr Enqueued) \<Rightarrow> Accept 0 f
      | PushReturns (Inr EnqueuedAfterDroppingOldest) \<Rightarrow> Accept 1 f
      | _ \<Rightarrow> Quiet)"

text \<open>What the caller of an operation observes of the contents.\<close>

fun queue_event :: "queue_op \<Rightarrow> edge_queue \<Rightarrow> frame channel_event" where
  "queue_event (QPush now f) q = push_event (snd (push_start q now f)) f"
| "queue_event (QResume started now f) q = push_event (snd (push_resume q started now f)) f"
| "queue_event QPop q = (case snd (pop_attempt q) of Some (Inr f) \<Rightarrow> Deliver f | _ \<Rightarrow> Quiet)"
| "queue_event QTryPop q = (case snd (try_pop q) of Inr (Some f) \<Rightarrow> Deliver f | _ \<Rightarrow> Quiet)"
| "queue_event (QClose mode) q = (if mode = Discard then Clear else Quiet)"
| "queue_event _ q = Quiet"

abbreviation queue_contents :: "edge_queue \<Rightarrow> frame list" where
  "queue_contents q \<equiv> qs_frames (eq_state q)"

definition wf_queue :: "edge_queue \<Rightarrow> bool" where
  "wf_queue q \<longleftrightarrow>
     0 < eq_capacity q \<and> length (queue_contents q) \<le> eq_capacity q \<and>
     length (qs_enqueued_at (eq_state q)) = length (queue_contents q) \<and>
     length (queue_contents q) \<le> qs_high_watermark (eq_state q) \<and>
     qs_high_watermark (eq_state q) \<le> eq_capacity q \<and>
     (case qs_latest_error_reason (eq_state q) of None \<Rightarrow> True | Some r \<Rightarrow> length r \<le> MAX_REASON_BYTES)"

lemmas queue_ops = push_start_def push_resume_def push_loop_def pop_attempt_def try_pop_def
  queue_close_def queue_record_drop_def queue_record_signal_def queue_record_error_def
  set_reason_def enqueue_def dequeue_def add_blocked_duration_def notify_available_def Let_def

lemma wf_queue_step: "wf_queue q \<Longrightarrow> wf_queue (queue_step a q)"
  by (cases a; cases "eq_overflow q")
     (auto simp: wf_queue_def queue_ops sanitize_bounded_length
        split: option.splits list.splits prod.splits)

lemma wf_queue_length: "wf_queue q \<Longrightarrow> length (queue_contents q) \<le> eq_capacity q"
  by (simp add: wf_queue_def)

lemma queue_step_contents:
  "queue_contents (queue_step a q) = apply_event (queue_event a q) (queue_contents q)"
  by (cases a; cases "eq_overflow q")
     (auto simp: queue_ops push_event_def split: option.splits list.splits prod.splits)

lemma queue_step_config [simp]:
  "eq_capacity (queue_step a q) = eq_capacity q" "eq_overflow (queue_step a q) = eq_overflow q"
  by (cases a; cases "eq_overflow q"; auto simp: queue_ops split: option.splits list.splits prod.splits)+

lemma queue_closed_step: "qs_closed (eq_state q) \<Longrightarrow> qs_closed (eq_state (queue_step a q))"
  by (cases a) (auto simp: queue_ops split: option.splits list.splits prod.splits)

lemma queue_closed_rejects: "qs_closed (eq_state q) \<Longrightarrow> queue_event a q \<noteq> Accept k x"
  by (cases a) (auto simp: push_event_def push_start_def push_resume_def
        split: option.splits sum.splits)

lemma queue_deliver_oldest: "queue_event a q = Deliver x \<Longrightarrow> \<exists>rest. queue_contents q = x # rest"
  by (cases a)
     (auto simp: push_event_def pop_attempt_def try_pop_def dequeue_def
        split: option.splits sum.splits list.splits if_splits push_progress.splits enqueue_outcome.splits)

interpretation eq: bounded_channel queue_step wf_queue queue_event queue_contents
  "\<lambda>q. qs_closed (eq_state q)" eq_capacity
  by unfold_locales
     (auto simp: queue_step_contents queue_closed_rejects
        intro: wf_queue_step wf_queue_length queue_closed_step queue_deliver_oldest)

text \<open>A blocking queue that is never closed with \<open>Discard\<close> has no lossy event.\<close>

definition is_discard :: "queue_op \<Rightarrow> bool" where
  "is_discard a \<longleftrightarrow> a = QClose Discard"

lemma lossless_event:
  "eq_overflow q \<noteq> OverflowDropOldest \<Longrightarrow> \<not> is_discard a \<Longrightarrow> \<not> lossy_event (queue_event a q)"
  by (cases a)
     (auto simp: lossy_event_def is_discard_def push_event_def push_start_def push_resume_def
        push_loop_def Let_def pop_attempt_def try_pop_def dequeue_def
        split: queue_overflow_policy.splits list.splits drain_mode.splits)

lemma lossless_log:
  "eq_overflow q \<noteq> OverflowDropOldest \<Longrightarrow> list_all (\<lambda>a. \<not> is_discard a) as \<Longrightarrow>
     list_all (\<lambda>e. \<not> lossy_event e) (event_log queue_step queue_event as q)"
  by (induction as arbitrary: q) (simp_all add: lossless_event)

text \<open>The counters count, up to saturation.\<close>

lemma sat_count: "min (Suc n) u64_max = sat_add64 (min n u64_max) 1"
  by (simp add: sat_add64_def)

lemma queue_step_counters:
  "qs_enqueue_total (eq_state (queue_step a q)) =
     (case queue_event a q of Accept k x \<Rightarrow> sat_add64 (qs_enqueue_total (eq_state q)) 1
      | _ \<Rightarrow> qs_enqueue_total (eq_state q))"
  "qs_dequeue_total (eq_state (queue_step a q)) =
     (case queue_event a q of Deliver x \<Rightarrow> sat_add64 (qs_dequeue_total (eq_state q)) 1
      | _ \<Rightarrow> qs_dequeue_total (eq_state q))"
  by (cases a; cases "eq_overflow q";
      auto simp: queue_ops push_event_def split: option.splits list.splits prod.splits)+

lemma queue_counters_exact:
  assumes "qs_enqueue_total (eq_state q) = min m u64_max" and "qs_dequeue_total (eq_state q) = min n u64_max"
  shows "qs_enqueue_total (eq_state (fold queue_step as q)) =
           min (m + length (accepted (event_log queue_step queue_event as q))) u64_max \<and>
         qs_dequeue_total (eq_state (fold queue_step as q)) =
           min (n + length (delivered (event_log queue_step queue_event as q))) u64_max"
  using assms
proof (induction as arbitrary: q m n)
  case (Cons a as)
  let ?e = "queue_event a q"
  define m' where "m' = (case ?e of Accept k x \<Rightarrow> Suc m | _ \<Rightarrow> m)"
  define n' where "n' = (case ?e of Deliver x \<Rightarrow> Suc n | _ \<Rightarrow> n)"
  have "qs_enqueue_total (eq_state (queue_step a q)) = min m' u64_max"
    "qs_dequeue_total (eq_state (queue_step a q)) = min n' u64_max"
    using Cons.prems
    by (auto simp: queue_step_counters m'_def n'_def sat_count split: channel_event.splits)
  from Cons.IH [OF this] show ?case
    by (cases ?e) (simp_all add: m'_def n'_def)
qed simp

lemma wf_queue_new: "0 < qp_capacity p \<Longrightarrow> wf_queue (edge_queue_new i p w)"
  by (simp add: wf_queue_def edge_queue_new_def)

section \<open>The signal queue keeps the contract\<close>

datatype signal_op = SPush signal_frame | SPop | SClose drain_mode

fun signal_step :: "signal_op \<Rightarrow> signal_queue \<Rightarrow> signal_queue" where
  "signal_step (SPush s) q = fst (signal_try_push q s)"
| "signal_step SPop q = fst (signal_try_pop q)"
| "signal_step (SClose mode) q = signal_close q mode"

fun signal_event :: "signal_op \<Rightarrow> signal_queue \<Rightarrow> signal_frame channel_event" where
  "signal_event (SPush s) q = (case snd (signal_try_push q s) of Inr _ \<Rightarrow> Accept 0 s | Inl _ \<Rightarrow> Quiet)"
| "signal_event SPop q = (case snd (signal_try_pop q) of Some s \<Rightarrow> Deliver s | None \<Rightarrow> Quiet)"
| "signal_event (SClose mode) q = (if mode = Discard then Clear else Quiet)"

definition wf_signal_queue :: "signal_queue \<Rightarrow> bool" where
  "wf_signal_queue q \<longleftrightarrow> length (sq_queue q) \<le> sq_capacity q"

lemmas signal_ops = signal_try_push_def signal_try_pop_def signal_close_def

lemma signal_step_contents: "sq_queue (signal_step a q) = apply_event (signal_event a q) (sq_queue q)"
  by (cases a) (auto simp: signal_ops split: list.splits)

interpretation sq: bounded_channel signal_step wf_signal_queue signal_event sq_queue sq_closed sq_capacity
proof unfold_locales
  fix a q x k
  show "wf_signal_queue q \<Longrightarrow> wf_signal_queue (signal_step a q)"
    by (cases a) (auto simp: signal_ops wf_signal_queue_def split: list.splits)
  show "signal_event a q = Deliver x \<Longrightarrow> \<exists>rest. sq_queue q = x # rest"
    by (cases a) (auto simp: signal_ops split: list.splits if_splits)
  show "sq_capacity (signal_step a q) = sq_capacity q"
    by (cases a) (auto simp: signal_ops split: list.splits)
  show "sq_closed q \<Longrightarrow> sq_closed (signal_step a q)"
    by (cases a) (auto simp: signal_ops split: list.splits)
  show "sq_closed q \<Longrightarrow> signal_event a q \<noteq> Accept k x"
    by (cases a) (auto simp: signal_ops split: list.splits)
qed (simp_all add: signal_step_contents wf_signal_queue_def)

section \<open>Properties\<close>

text \<open>
  C5. Whatever the interleaving of producers, consumers, closers and observers, an edge
  queue never holds more frames than its capacity, delivers frames in the order in which
  it accepted them, never delivers one twice or one it did not accept, and its enqueue and
  dequeue counters equal the numbers of accepted and delivered frames up to saturation.
\<close>

theorem edge_queue_order:
  assumes "0 < qp_capacity policy"
  shows "let q = edge_queue_new edge_id policy wake;
             q' = fold queue_step ops q;
             evs = event_log queue_step queue_event ops q in
         length (queue_contents q') \<le> qp_capacity policy \<and>
         subseq (delivered evs @ queue_contents q') (accepted evs) \<and>
         em_enqueue_total (queue_snapshot q' now) = min (length (accepted evs)) u64_max \<and>
         em_dequeue_total (queue_snapshot q' now) = min (length (delivered evs)) u64_max"
proof -
  let ?q = "edge_queue_new edge_id policy wake"
  have wf: "wf_queue ?q" using assms by (rule wf_queue_new)
  have new: "eq_capacity ?q = qp_capacity policy" "queue_contents ?q = []"
    "qs_enqueue_total (eq_state ?q) = min 0 u64_max" "qs_dequeue_total (eq_state ?q) = min 0 u64_max"
    by (simp_all add: edge_queue_new_def)
  show ?thesis
    using eq.run_length [OF wf, of ops] eq.run_order [of ops ?q] new(1,2)
      queue_counters_exact [OF new(3,4), of ops]
    by (simp add: queue_snapshot_def Let_def)
qed

theorem edge_queue_order_witness:
  "length (queue_contents (fold queue_step [QPush 1 example_text, QPush 2 example_text]
     (edge_queue_new ''e'' \<lparr>qp_capacity = 1, qp_overflow = OverflowDropOldest\<rparr> None))) \<le> 1"
  using edge_queue_order [of "\<lparr>qp_capacity = 1, qp_overflow = OverflowDropOldest\<rparr>"
      "''e''" None "[QPush 1 example_text, QPush 2 example_text]"]
  by (simp add: Let_def)

text \<open>
  C3. A queue whose policy is not drop-oldest loses nothing it accepted: unless it is closed
  with \<open>Discard\<close>, the accepted frames are exactly the delivered ones followed by the queued
  ones, in order, so a \<open>Drain\<close> close still hands over every accepted frame.
\<close>

theorem edge_queue_lossless:
  assumes "qp_overflow policy \<noteq> OverflowDropOldest"
    and "list_all (\<lambda>a. \<not> is_discard a) ops"
  shows "let q = edge_queue_new edge_id policy wake;
             evs = event_log queue_step queue_event ops q in
         accepted evs = delivered evs @ queue_contents (fold queue_step ops q)"
proof -
  let ?q = "edge_queue_new edge_id policy wake"
  have new: "eq_overflow ?q = qp_overflow policy" "queue_contents ?q = []"
    by (simp_all add: edge_queue_new_def)
  have "list_all (\<lambda>e. \<not> lossy_event e) (event_log queue_step queue_event ops ?q)"
    by (rule lossless_log) (use new(1) assms in auto)
  then show ?thesis
    using eq.run_lossless [of ops ?q] new(2) by (simp add: Let_def)
qed

theorem edge_queue_lossless_witness:
  "accepted (event_log queue_step queue_event [QPush 1 example_text, QClose Drain, QPop]
     (edge_queue_new ''e'' \<lparr>qp_capacity = 1, qp_overflow = OverflowBlock\<rparr> None)) =
   delivered (event_log queue_step queue_event [QPush 1 example_text, QClose Drain, QPop]
     (edge_queue_new ''e'' \<lparr>qp_capacity = 1, qp_overflow = OverflowBlock\<rparr> None)) @
   queue_contents (fold queue_step [QPush 1 example_text, QClose Drain, QPop]
     (edge_queue_new ''e'' \<lparr>qp_capacity = 1, qp_overflow = OverflowBlock\<rparr> None))"
  using edge_queue_lossless [of "\<lparr>qp_capacity = 1, qp_overflow = OverflowBlock\<rparr>"
      "[QPush 1 example_text, QClose Drain, QPop]" "''e''" None]
  unfolding Let_def by (simp only: is_discard_def) simp

text \<open>
  C10. Closing is final and wakes everyone: after a close no sequence of operations makes the
  queue accept a frame again; every blocked producer returns \<open>Closed\<close>; a consumer that
  waits gets the remaining frames and then \<open>QueueClosed\<close>, never another wait; and
  closing with \<open>Discard\<close> empties the queue for good.
\<close>

theorem edge_queue_close_final:
  "let q' = fold queue_step ops (queue_close q mode) in
     accepted (event_log queue_step queue_event ops (queue_close q mode)) = [] \<and>
     snd (push_start q' now f) = PushReturns (Inl PushClosed) \<and>
     snd (push_resume q' started now f) = PushReturns (Inl PushClosed) \<and>
     snd (pop_attempt q') =
       (case queue_contents q' of [] \<Rightarrow> Some (Inl QueueClosed) | x # _ \<Rightarrow> Some (Inr x)) \<and>
     queue_contents (fold queue_step ops (queue_close q Discard)) = []"
proof -
  have "qs_closed (eq_state (queue_close q m))" for m
    by (simp add: queue_close_def set_reason_def Let_def)
  then have after: "qs_closed (eq_state (fold queue_step ops (queue_close q m)))"
    "accepted (event_log queue_step queue_event ops (queue_close q m)) = []" for m
    using eq.closed_run [of "queue_close q m" ops] by auto
  have "queue_contents (queue_close q Discard) = []"
    by (simp add: queue_close_def set_reason_def Let_def)
  with eq.run_order [of ops "queue_close q Discard"] after(2)
  have "queue_contents (fold queue_step ops (queue_close q Discard)) = []"
    by (auto dest!: list_emb_length)
  with after show ?thesis
    by (auto simp: Let_def push_start_def push_resume_def pop_attempt_def dequeue_def split: list.splits)
qed

text \<open>
  C17. The signal queue never exceeds its capacity, delivers signals in the order it accepted
  them, and after a close accepts nothing more, whatever the interleaving.
\<close>

theorem signal_queue_order:
  "let q = signal_queue_new capacity wake;
       q' = fold signal_step ops q;
       evs = event_log signal_step signal_event ops q in
   length (sq_queue q') \<le> capacity \<and>
   subseq (delivered evs @ sq_queue q') (accepted evs) \<and>
   accepted (event_log signal_step signal_event later (signal_close q' mode)) = []"
proof -
  let ?q = "signal_queue_new capacity wake"
  have wf: "wf_signal_queue ?q" and new: "sq_queue ?q = []" "sq_capacity ?q = capacity"
    by (simp_all add: signal_queue_new_def wf_signal_queue_def)
  have "sq_closed (signal_close (fold signal_step ops ?q) mode)" by (simp add: signal_close_def)
  with sq.run_length [OF wf, of ops] sq.run_order [of ops ?q] sq.closed_run new show ?thesis
    by (auto simp: Let_def)
qed

text \<open>
  The payload counter of an edge is not the bytes it carried: a video frame adds nothing,
  although its own log-safe view reports the length of its buffer; audio, text and byte
  frames add exactly their payload length.
\<close>

lemma video_bytes_not_counted:
  "qs_payload_bytes_total (enqueue now st f) =
     sat_add64 (qs_payload_bytes_total st)
       (case f of FVideo v \<Rightarrow> 0 | _ \<Rightarrow> (case payload_byte_len f of Some n \<Rightarrow> n | None \<Rightarrow> 0))"
  by (cases f)
     (simp_all add: enqueue_def frame_measurement_def as_audio_def as_byte_def as_text_def Let_def)

end
