(* ===== verification/Services.thy ===== *)
theory Services
  imports Queues
begin

text \<open>
  The small shared services of the runtime: admission slots (\<open>muxiva-core/src/admission.rs\<close>),
  the stop token (\<open>cancellation.rs\<close>) and the typed resource store (\<open>resource.rs\<close>). Each
  mutex-protected section is one function; a waiting \<open>acquire\<close> is one attempt per wake-up.
\<close>

section \<open>Admission slots\<close>

datatype admission_error = ZeroCapacity | AdmissionClosed

record admission_state =
  as_max :: usize
  as_in_flight :: usize
  as_closed :: bool

text \<open>A lease holds a reference to the shared state until it is released.\<close>

record admission_lease =
  al_shared :: bool

definition admission_slots_new :: "usize \<Rightarrow> admission_error + admission_state" where
  "admission_slots_new max_in_flight =
     (if max_in_flight = 0 then Inl ZeroCapacity
      else Inr \<lparr>as_max = max_in_flight, as_in_flight = 0, as_closed = False\<rparr>)"

definition try_acquire ::
  "admission_state \<Rightarrow> admission_state \<times> (admission_error + admission_lease option)" where
  "try_acquire st =
     (if as_closed st then (st, Inl AdmissionClosed)
      else if as_in_flight st = as_max st then (st, Inr None)
      else (st\<lparr>as_in_flight := as_in_flight st + 1\<rparr>, Inr (Some \<lparr>al_shared = True\<rparr>)))"

text \<open>One turn of the loop of \<open>acquire\<close>; \<open>None\<close> means it waits for \<open>available\<close>.\<close>

definition acquire_attempt ::
  "admission_state \<Rightarrow> admission_state \<times> (admission_error + admission_lease) option" where
  "acquire_attempt st =
     (if as_closed st then (st, Some (Inl AdmissionClosed))
      else if as_in_flight st < as_max st
      then (st\<lparr>as_in_flight := as_in_flight st + 1\<rparr>, Some (Inr \<lparr>al_shared = True\<rparr>))
      else (st, None))"

definition admission_close :: "admission_state \<Rightarrow> admission_state" where
  "admission_close st = st\<lparr>as_closed := True\<rparr>"

text \<open>\<open>release\<close> and \<open>drop\<close> both run \<open>release_inner\<close>; the subtraction would panic at zero.\<close>

definition release_inner ::
  "admission_lease \<Rightarrow> admission_state \<Rightarrow> (admission_lease \<times> admission_state) option" where
  "release_inner lease st =
     (if \<not> al_shared lease then Some (lease, st)
      else if as_in_flight st = 0 then None
      else Some (lease\<lparr>al_shared := False\<rparr>, st\<lparr>as_in_flight := as_in_flight st - 1\<rparr>))"

record admission_snapshot =
  an_max_in_flight :: usize
  an_in_flight :: usize
  an_closed :: bool

definition admission_snapshot_of :: "admission_state \<Rightarrow> admission_snapshot" where
  "admission_snapshot_of st =
     \<lparr>an_max_in_flight = as_max st, an_in_flight = as_in_flight st, an_closed = as_closed st\<rparr>"

text \<open>
  \<open>with_slot\<close> when no other thread touches the slots: the outer \<open>None\<close> is a panic, the inner
  one a wait for a slot. The operation runs between the acquisition and the release.
\<close>

definition with_slot ::
  "admission_state \<Rightarrow> (unit \<Rightarrow> 'a) \<Rightarrow> (admission_state \<times> (admission_error + 'a) option) option" where
  "with_slot st operation =
     (case acquire_attempt st of
        (st', None) \<Rightarrow> Some (st', None)
      | (st', Some (Inl e)) \<Rightarrow> Some (st', Some (Inl e))
      | (st', Some (Inr lease)) \<Rightarrow>
          (let result = operation () in
           case release_inner lease st' of
             None \<Rightarrow> None
           | Some (_, st'') \<Rightarrow> Some (st'', Some (Inr result))))"

lemma with_slot_releases: "with_slot st f = Some (st', r) \<Longrightarrow> st' = st"
  by (auto simp: with_slot_def acquire_attempt_def release_inner_def split: if_splits)

text \<open>The slots with every lease ever handed out; \<open>None\<close> after a panic.\<close>

record admission_system =
  ay_state :: admission_state
  ay_leases :: "admission_lease list"

datatype admission_op = ATryAcquire | AAcquire | AClose | ARelease nat

definition add_lease :: "admission_state \<Rightarrow> admission_lease option \<Rightarrow> admission_system \<Rightarrow> admission_system" where
  "add_lease st lease y =
     y\<lparr>ay_state := st, ay_leases := ay_leases y @ (case lease of None \<Rightarrow> [] | Some l \<Rightarrow> [l])\<rparr>"

fun admission_run :: "admission_op \<Rightarrow> admission_system \<Rightarrow> admission_system option" where
  "admission_run ATryAcquire y =
     (case try_acquire (ay_state y) of
        (st, Inr lease) \<Rightarrow> Some (add_lease st lease y)
      | (st, Inl _) \<Rightarrow> Some (add_lease st None y))"
| "admission_run AAcquire y =
     (case acquire_attempt (ay_state y) of
        (st, Some (Inr lease)) \<Rightarrow> Some (add_lease st (Some lease) y)
      | (st, _) \<Rightarrow> Some (add_lease st None y))"
| "admission_run AClose y = Some (y\<lparr>ay_state := admission_close (ay_state y)\<rparr>)"
| "admission_run (ARelease i) y =
     (if length (ay_leases y) \<le> i then Some y
      else case release_inner (ay_leases y ! i) (ay_state y) of
             None \<Rightarrow> None
           | Some (lease, st) \<Rightarrow> Some (y\<lparr>ay_state := st, ay_leases := (ay_leases y)[i := lease]\<rparr>))"

definition admission_step :: "admission_op \<Rightarrow> admission_system option \<Rightarrow> admission_system option" where
  "admission_step a s = Option.bind s (admission_run a)"

definition held_leases :: "admission_system \<Rightarrow> nat" where
  "held_leases y = length (filter al_shared (ay_leases y))"

definition admission_ok :: "usize \<Rightarrow> admission_system option \<Rightarrow> bool" where
  "admission_ok limit s =
     (case s of
        None \<Rightarrow> False
      | Some y \<Rightarrow> as_max (ay_state y) = limit \<and> as_in_flight (ay_state y) = held_leases y \<and>
                  held_leases y \<le> limit)"

lemma filter_update_length:
  "i < length xs \<Longrightarrow>
     length (filter P (xs[i := x])) + (if P (xs ! i) then 1 else 0) =
     length (filter P xs) + (if P x then 1 else 0)"
proof (induction xs arbitrary: i)
  case (Cons y ys)
  then show ?case by (cases i) auto
qed simp

lemma held_positive: "i < length xs \<Longrightarrow> P (xs ! i) \<Longrightarrow> 0 < length (filter P xs)"
  by (auto simp: filter_empty_conv)

lemma admission_run_ok: "admission_ok n (Some y) \<Longrightarrow> admission_ok n (admission_run a y)"
proof (cases a)
  case (ARelease i)
  assume ok: "admission_ok n (Some y)"
  show ?thesis
  proof (cases "i < length (ay_leases y) \<and> al_shared (ay_leases y ! i)")
    case True
    then have "0 < held_leases y" using held_positive [of i "ay_leases y" al_shared] by (simp add: held_leases_def)
    moreover have "length (filter al_shared ((ay_leases y)[i := (ay_leases y ! i)\<lparr>al_shared := False\<rparr>])) + 1 =
        held_leases y"
      using True filter_update_length [of i "ay_leases y" al_shared "(ay_leases y ! i)\<lparr>al_shared := False\<rparr>"]
      by (simp add: held_leases_def)
    ultimately show ?thesis
      using ok True ARelease by (auto simp: admission_ok_def release_inner_def held_leases_def)
  next
    case False
    then show ?thesis
      using ok ARelease by (auto simp: admission_ok_def release_inner_def)
  qed
qed (auto simp: admission_ok_def try_acquire_def acquire_attempt_def admission_close_def
       add_lease_def held_leases_def)

interpretation admission: guarded_system admission_step "admission_ok limit" for limit
proof unfold_locales
  fix s a
  assume "admission_ok limit s"
  then obtain y where "s = Some y" by (cases s) (auto simp: admission_ok_def)
  with \<open>admission_ok limit s\<close> show "admission_ok limit (admission_step a s)"
    by (simp add: admission_step_def admission_run_ok)
qed

text \<open>
  C13. Whatever the interleaving of acquisitions, releases (explicit or by drop, repeated or
  not) and closing, admission never panics, the in-flight count equals the number of
  leases that still hold a slot, and it never exceeds the configured maximum.
\<close>

theorem admission_bounded:
  assumes "admission_slots_new limit = Inr st"
  shows "\<exists>y. fold admission_step ops (Some \<lparr>ay_state = st, ay_leases = []\<rparr>) = Some y \<and>
           as_in_flight (ay_state y) = held_leases y \<and> held_leases y \<le> limit"
proof -
  have "admission_ok limit (Some \<lparr>ay_state = st, ay_leases = []\<rparr>)"
    using assms by (auto simp: admission_slots_new_def admission_ok_def held_leases_def split: if_splits)
  from admission.run_inv [OF this, of ops] show ?thesis
    by (auto simp: admission_ok_def split: option.splits)
qed

theorem admission_bounded_witness:
  "\<exists>y. fold admission_step [ATryAcquire, AAcquire, ARelease 0, ARelease 0]
         (Some \<lparr>ay_state = \<lparr>as_max = 1, as_in_flight = 0, as_closed = False\<rparr>, ay_leases = []\<rparr>) = Some y \<and>
       as_in_flight (ay_state y) = held_leases y \<and> held_leases y \<le> 1"
  by (rule admission_bounded) (simp add: admission_slots_new_def)

section \<open>The stop token\<close>

record stop_state =
  st_cancelled :: bool
  st_generation :: "64 word"

definition stop_token_new :: stop_state where
  "stop_token_new = \<lparr>st_cancelled = False, st_generation = 0\<rparr>"

definition cancel :: "stop_state \<Rightarrow> stop_state \<times> bool" where
  "cancel self =
     (if st_cancelled self then (self, False)
      else (self\<lparr>st_cancelled := True, st_generation := st_generation self + 1\<rparr>, True))"

definition is_cancelled :: "stop_state \<Rightarrow> bool" where
  "is_cancelled self = st_cancelled self"

text \<open>Whether \<open>wait\<close> returns when it next checks its condition.\<close>

definition stop_wait_done :: "stop_state \<Rightarrow> bool" where
  "stop_wait_done self = is_cancelled self"

fun cancel_all :: "nat \<Rightarrow> stop_state \<Rightarrow> stop_state \<times> bool list" where
  "cancel_all 0 s = (s, [])"
| "cancel_all (Suc n) s =
     (let (s', first) = cancel s; (s'', rest) = cancel_all n s' in (s'', first # rest))"

lemma cancel_all_cancelled: "st_cancelled s \<Longrightarrow> cancel_all n s = (s, replicate n False)"
  by (induction n) (simp_all add: cancel_def)

text \<open>
  Of any number of cancellation requests on a fresh token exactly the first returns
  true; after it every waiter's condition holds, and the token stays cancelled.
\<close>

lemma cancel_first_only:
  "snd (cancel_all (Suc n) stop_token_new) = True # replicate n False \<and>
   stop_wait_done (fst (cancel_all (Suc n) stop_token_new)) \<and>
   \<not> stop_wait_done stop_token_new"
  by (simp add: stop_token_new_def cancel_def cancel_all_cancelled is_cancelled_def stop_wait_done_def)

section \<open>The resource store\<close>

type_synonym resource_key = string
type_synonym type_id = nat

text \<open>A Rust type is its \<open>TypeId\<close> with its name; a stored \<open>Arc<dyn Any>\<close> knows its own type.\<close>

record rust_type =
  rt_type_id :: type_id
  rt_type_name :: string

datatype resource_store_error =
    ResInvalidKey
  | ResMissing resource_key string
  | ResTypeMismatch resource_key string string
  | ResStopped

definition resource_key_new :: "string \<Rightarrow> resource_store_error + resource_key" where
  "resource_key_new val =
     (if val = [] \<or> 255 < length val \<or> str_trim val \<noteq> val \<or> list_ex is_ascii_control val
      then Inl ResInvalidKey else Inr val)"

interpretation resource_key: exact_name_contract resource_key_new 255
  by unfold_locales (auto simp: resource_key_new_def clean_name_def list_ex_iff split: if_splits)

record 'v resource_entry =
  re_type_id :: type_id
  re_type_name :: string
  re_value :: "type_id \<times> 'v"

record 'v resource_state =
  rs_stopped :: bool
  rs_entries :: "(resource_key, 'v resource_entry) btree"

definition resource_store_new :: "'v resource_state" where
  "resource_store_new = \<lparr>rs_stopped = False, rs_entries = []\<rparr>"

definition resource_insert ::
  "'v resource_state \<Rightarrow> rust_type \<Rightarrow> resource_key \<Rightarrow> 'v \<Rightarrow> 'v resource_state \<times> (resource_store_error + unit)" where
  "resource_insert st t key v =
     (if rs_stopped st then (st, Inl ResStopped)
      else (st\<lparr>rs_entries := bt_insert key
               \<lparr>re_type_id = rt_type_id t, re_type_name = rt_type_name t, re_value = (rt_type_id t, v)\<rparr>
               (rs_entries st)\<rparr>, Inr ()))"

definition resource_get ::
  "'v resource_state \<Rightarrow> rust_type \<Rightarrow> resource_key \<Rightarrow> resource_store_error + 'v" where
  "resource_get st t key =
     (case bt_get (rs_entries st) key of
        None \<Rightarrow> Inl (ResMissing key (rt_type_name t))
      | Some entry \<Rightarrow>
          if re_type_id entry \<noteq> rt_type_id t
          then Inl (ResTypeMismatch key (rt_type_name t) (re_type_name entry))
          else if fst (re_value entry) = rt_type_id t then Inr (snd (re_value entry))
          else Inl (ResTypeMismatch key (rt_type_name t) (re_type_name entry)))"

definition resource_stop :: "'v resource_state \<Rightarrow> 'v resource_state \<times> bool" where
  "resource_stop st = (st\<lparr>rs_stopped := True, rs_entries := []\<rparr>, \<not> rs_stopped st)"

definition resource_seal :: "'v resource_state \<Rightarrow> 'v resource_state \<times> bool" where
  "resource_seal st = (st\<lparr>rs_stopped := True\<rparr>, \<not> rs_stopped st)"

text \<open>
  C18. The resource store is a typed map: after an insertion the key reads back that value at
  its type, fails with a type mismatch at every other type, and other keys are unchanged;
  a sealed store refuses insertions and keeps its entries; a stopped one has none.
\<close>

theorem resource_store_typed_map:
  assumes "\<not> rs_stopped st"
  shows "let st' = fst (resource_insert st t key v) in
         resource_get st' t key = Inr v \<and>
         (\<forall>u. rt_type_id u \<noteq> rt_type_id t \<longrightarrow>
            resource_get st' u key = Inl (ResTypeMismatch key (rt_type_name u) (rt_type_name t))) \<and>
         (\<forall>u k. k \<noteq> key \<longrightarrow> resource_get st' u k = resource_get st u k) \<and>
         resource_insert (fst (resource_seal st')) u k w = (fst (resource_seal st'), Inl ResStopped) \<and>
         resource_get (fst (resource_seal st')) u k = resource_get st' u k \<and>
         resource_get (fst (resource_stop st')) u k = Inl (ResMissing k (rt_type_name u))"
  using assms
  by (auto simp: resource_insert_def resource_get_def resource_seal_def resource_stop_def
      bt_get_insert Let_def)

theorem resource_store_typed_map_witness:
  "resource_get (fst (resource_insert resource_store_new \<lparr>rt_type_id = 7, rt_type_name = ''Client''\<rparr> ''db'' (3::nat)))
     \<lparr>rt_type_id = 7, rt_type_name = ''Client''\<rparr> ''db'' = Inr 3"
  using resource_store_typed_map [of resource_store_new "\<lparr>rt_type_id = 7, rt_type_name = ''Client''\<rparr>" "''db''" "3::nat"]
  by (simp add: resource_store_new_def Let_def)

end
