(* ===== verification/Nodes.thy ===== *)
theory Nodes
  imports Graph Services
begin

text \<open>
  What the runtime hands to user code and gets back: the node context with its bounded
  emission budget, metric observations and abort reasons (\<open>muxiva-core/src/node.rs\<close>), and
  the decisions of an edge policy (\<open>edge_policy.rs\<close>). The notification bus and the
  resource store a context refers to are shared state and not part of the context record.
\<close>

section \<open>Emissions and metrics\<close>

record node_emission =
  ne_output_port :: port_name
  ne_frame :: frame

datatype node_metric_kind = Counter | Gauge

record node_metric_observation =
  mo_name :: string
  mo_kind :: node_metric_kind
  mo_value :: u64

datatype node_metric_error = NodeMetricError

definition metric_observation_new ::
  "string \<Rightarrow> node_metric_kind \<Rightarrow> u64 \<Rightarrow> node_metric_error + node_metric_observation" where
  "metric_observation_new name kind val =
     (if name \<noteq> [] \<and> length name \<le> 64 \<and>
         list_all (\<lambda>b. is_ascii_alphanumeric b \<or> b \<in> {CHR ''_'', CHR ''.'', CHR ''-''}) name
      then Inr \<lparr>mo_name = name, mo_kind = kind, mo_value = val\<rparr>
      else Inl NodeMetricError)"

definition counter_add :: "string \<Rightarrow> u64 \<Rightarrow> node_metric_error + node_metric_observation" where
  "counter_add name delta = metric_observation_new name Counter delta"

definition gauge :: "string \<Rightarrow> u64 \<Rightarrow> node_metric_error + node_metric_observation" where
  "gauge name val = metric_observation_new name Gauge val"

section \<open>The node context\<close>

record node_context =
  nc_node_id :: node_id
  nc_config :: config_map
  nc_input_port :: "port_name option"
  nc_emissions :: "node_emission list"
  nc_signals :: "signal_frame list"
  nc_emission_limit :: usize
  nc_emission_overflowed :: bool
  nc_has_signal_routes :: bool
  nc_next_tick :: "nat option"
  nc_metric_observations :: "node_metric_observation list"

datatype node_emission_error = NodeEmissionError usize

datatype signal_emission_error =
    NoConnectedDownstream node_id
  | SourceMismatch node_id node_id
  | SignalLimit usize

definition with_routing_limits ::
  "node_id \<Rightarrow> config_map \<Rightarrow> port_name option \<Rightarrow> usize \<Rightarrow> bool \<Rightarrow> node_context" where
  "with_routing_limits node_id config input_port emission_limit has_signal_routes =
     \<lparr>nc_node_id = node_id, nc_config = config, nc_input_port = input_port, nc_emissions = [],
      nc_signals = [], nc_emission_limit = emission_limit, nc_emission_overflowed = False,
      nc_has_signal_routes = has_signal_routes, nc_next_tick = None, nc_metric_observations = []\<rparr>"

definition with_emission_limit :: "node_id \<Rightarrow> config_map \<Rightarrow> port_name option \<Rightarrow> usize \<Rightarrow> node_context" where
  "with_emission_limit node_id config input_port emission_limit =
     with_routing_limits node_id config input_port emission_limit False"

definition node_context_new :: "node_id \<Rightarrow> config_map \<Rightarrow> port_name option \<Rightarrow> node_context" where
  "node_context_new node_id config input_port = with_emission_limit node_id config input_port 16384"

definition with_runtime_services :: "node_id \<Rightarrow> config_map \<Rightarrow> port_name option \<Rightarrow> node_context" where
  "with_runtime_services node_id config input_port =
     with_routing_limits node_id config input_port 16384 False"

definition emit :: "node_context \<Rightarrow> port_name \<Rightarrow> frame \<Rightarrow> node_context \<times> (node_emission_error + unit)" where
  "emit self output_port frame =
     (if nc_emission_limit self \<le> length (nc_emissions self)
      then (self\<lparr>nc_emission_overflowed := True\<rparr>, Inl (NodeEmissionError (nc_emission_limit self)))
      else (self\<lparr>nc_emissions := nc_emissions self @ [\<lparr>ne_output_port = output_port, ne_frame = frame\<rparr>]\<rparr>,
            Inr ()))"

definition take_emissions :: "node_context \<Rightarrow> node_context \<times> node_emission list" where
  "take_emissions self = (self\<lparr>nc_emissions := []\<rparr>, nc_emissions self)"

definition emit_signal :: "node_context \<Rightarrow> signal_frame \<Rightarrow> node_context \<times> (signal_emission_error + unit)" where
  "emit_signal self signal =
     (if \<not> nc_has_signal_routes self then (self, Inl (NoConnectedDownstream (nc_node_id self)))
      else if sd_source (cf_data signal) \<noteq> nc_node_id self
      then (self, Inl (SourceMismatch (nc_node_id self) (sd_source (cf_data signal))))
      else if nc_emission_limit self \<le> length (nc_signals self)
      then (self\<lparr>nc_emission_overflowed := True\<rparr>, Inl (SignalLimit (nc_emission_limit self)))
      else (self\<lparr>nc_signals := nc_signals self @ [signal]\<rparr>, Inr ()))"

definition take_signals :: "node_context \<Rightarrow> node_context \<times> signal_frame list" where
  "take_signals self = (self\<lparr>nc_signals := []\<rparr>, nc_signals self)"

definition schedule_next_tick :: "node_context \<Rightarrow> nat \<Rightarrow> node_context" where
  "schedule_next_tick self delay = self\<lparr>nc_next_tick := Some delay\<rparr>"

definition observe_metric :: "node_context \<Rightarrow> node_metric_observation \<Rightarrow> node_context" where
  "observe_metric self observation =
     self\<lparr>nc_metric_observations := nc_metric_observations self @ [observation]\<rparr>"

definition increment_counter :: "node_context \<Rightarrow> string \<Rightarrow> u64 \<Rightarrow> node_context \<times> (node_metric_error + unit)" where
  "increment_counter self name delta =
     (case metric_observation_new name Counter delta of
        Inl e \<Rightarrow> (self, Inl e)
      | Inr observation \<Rightarrow> (observe_metric self observation, Inr ()))"

definition set_gauge :: "node_context \<Rightarrow> string \<Rightarrow> u64 \<Rightarrow> node_context \<times> (node_metric_error + unit)" where
  "set_gauge self name val =
     (case metric_observation_new name Gauge val of
        Inl e \<Rightarrow> (self, Inl e)
      | Inr observation \<Rightarrow> (observe_metric self observation, Inr ()))"

text \<open>Conversions into structured errors.\<close>

definition node_emission_error_to_muxiva :: "node_emission_error \<Rightarrow> muxiva_error" where
  "node_emission_error_to_muxiva e =
     (case e of NodeEmissionError limit \<Rightarrow>
        validation_error ''MUXIVA-NODE-EMISSION-LIMIT''
          (''node lifecycle call exceeded its emission limit of '' @ nat_to_string limit))"

definition signal_emission_error_to_muxiva :: "signal_emission_error \<Rightarrow> muxiva_error" where
  "signal_emission_error_to_muxiva e =
     (case e of
        NoConnectedDownstream n \<Rightarrow>
          validation_error ''MUXIVA-SIGNAL-NO-EDGE''
            (''node `'' @ n @ ''` has no connected downstream edge'')
      | SourceMismatch context_node signal_source \<Rightarrow>
          validation_error ''MUXIVA-SIGNAL-SOURCE''
            (''signal source `'' @ signal_source @ ''` does not match emitting node `'' @ context_node @ ''`'')
      | SignalLimit limit \<Rightarrow>
          validation_error ''MUXIVA-SIGNAL-LIMIT''
            (''node lifecycle call exceeded its signal emission limit of '' @ nat_to_string limit))"

section \<open>Aborts and policy decisions\<close>

datatype abort_stage = StagePrepare | StageProcess | StageFinish | StageRuntime

datatype abort_category =
    AbortCancelled | AbortNodeError | AbortRustPanic | AbortForeignException | AbortExternalSdkError

record abort_root_context =
  ar_code :: string
  ar_message :: string
  ar_details :: config_map

record abort_reason =
  ab_category :: abort_category
  ab_node_id :: "node_id option"
  ab_stage :: abort_stage
  ab_root :: abort_root_context

datatype validation_decision = DecisionAccept | DecisionReject string

datatype edge_action =
    Forward frame
  | Replace frame
  | ActionDrop string
  | ActionAbort string
  | EmitSignal frame

record edge_context =
  ec_node_count :: usize
  ec_edge_count :: usize
  ec_topological_order :: "node_id list"
  ec_descriptor :: edge_descriptor
  ec_metrics :: edge_metrics_snapshot

definition edge_context_new ::
  "graph_definition \<Rightarrow> edge_descriptor \<Rightarrow> edge_metrics_snapshot \<Rightarrow> edge_context" where
  "edge_context_new graph descriptor metrics =
     \<lparr>ec_node_count = length (gd_nodes graph), ec_edge_count = length (gd_edges graph),
      ec_topological_order = gd_topological_order graph, ec_descriptor = descriptor,
      ec_metrics = metrics\<rparr>"

section \<open>The emission budget\<close>

datatype context_op =
    CEmit port_name frame
  | CEmitSignal signal_frame
  | CTakeEmissions
  | CTakeSignals
  | CTick nat
  | CCounter string u64
  | CGauge string u64
  | CObserve node_metric_observation

fun context_step :: "context_op \<Rightarrow> node_context \<Rightarrow> node_context" where
  "context_step (CEmit p f) c = fst (emit c p f)"
| "context_step (CEmitSignal s) c = fst (emit_signal c s)"
| "context_step CTakeEmissions c = fst (take_emissions c)"
| "context_step CTakeSignals c = fst (take_signals c)"
| "context_step (CTick d) c = schedule_next_tick c d"
| "context_step (CCounter n v) c = fst (increment_counter c n v)"
| "context_step (CGauge n v) c = fst (set_gauge c n v)"
| "context_step (CObserve m) c = observe_metric c m"

lemmas context_ops = emit_def emit_signal_def take_emissions_def take_signals_def
  schedule_next_tick_def increment_counter_def set_gauge_def observe_metric_def

definition wf_context :: "node_context \<Rightarrow> bool" where
  "wf_context c \<longleftrightarrow>
     length (nc_emissions c) \<le> nc_emission_limit c \<and> length (nc_signals c) \<le> nc_emission_limit c \<and>
     list_all (\<lambda>s. sd_source (cf_data s) = nc_node_id c) (nc_signals c) \<and>
     (nc_has_signal_routes c \<or> nc_signals c = [])"

lemma context_step_fixed [simp]:
  "nc_node_id (context_step a c) = nc_node_id c"
  "nc_emission_limit (context_step a c) = nc_emission_limit c"
  "nc_has_signal_routes (context_step a c) = nc_has_signal_routes c"
  by (cases a; auto simp: context_ops split: sum.splits)+

interpretation ctx: guarded_system context_step wf_context
proof unfold_locales
  fix c a
  assume "wf_context c"
  then show "wf_context (context_step a c)"
    by (cases a) (auto simp: wf_context_def context_ops split: sum.splits)
qed

lemma context_run_fixed [simp]:
  "nc_node_id (fold context_step ops c) = nc_node_id c"
  "nc_emission_limit (fold context_step ops c) = nc_emission_limit c"
  by (induction ops arbitrary: c) simp_all

text \<open>
  C21. Whatever a node does with its context during one call, the frames and signals it has
  collected never exceed the call's emission limit, every collected signal names the
  calling node as its source, and there are none unless the node has signal routes.
\<close>

theorem node_context_bounded:
  "let c = fold context_step ops (with_routing_limits i config port limit routes) in
     length (nc_emissions c) \<le> limit \<and> length (nc_signals c) \<le> limit \<and>
     list_all (\<lambda>s. sd_source (cf_data s) = i) (nc_signals c) \<and> (routes \<or> nc_signals c = [])"
proof -
  let ?c = "with_routing_limits i config port limit routes"
  have "wf_context ?c" by (simp add: wf_context_def with_routing_limits_def)
  from ctx.run_inv [OF this, of ops]
  have "wf_context (fold context_step ops ?c)" .
  moreover have "nc_has_signal_routes (fold context_step ops c) = nc_has_signal_routes c" for c
    by (induction ops arbitrary: c) simp_all
  ultimately show ?thesis by (simp add: wf_context_def with_routing_limits_def Let_def)
qed

end
