(* ===== verification/Runner.thy ===== *)
theory Runner
  imports Nodes "HOL-Library.Multiset"
begin

text \<open>
  The synchronous graph runner (\<open>muxiva-core/src/runner.rs\<close>). User code (\<open>dyn Node\<close>,
  \<open>dyn EdgePolicy\<close>) is a record of functions on a shared world; every method of the runner
  is a state transformer with early return, and an \<open>expect\<close> that fails is the outcome
  \<open>RunExpect\<close>. \<open>catch_unwind\<close> around a callback yields \<open>Panicked\<close>. The work list of one
  source, a local variable passed by reference, is a field of the runner; \<open>rn_trace\<close> is a
  history variable that records the lifecycle calls and is never read.
\<close>

section \<open>Types\<close>

datatype graph_runner_state =
    RunReady | RunPreparing | RunRunning | RunFinishing | RunAborting | RunFinished | RunAborted

record observed_edge_signal =
  os_edge_id :: edge_id
  os_frame :: frame

record abort_hook_diagnostic =
  ah_node_id :: node_id
  ah_message :: string

datatype graph_runner_build_error =
    MissingNodeInstance node_id
  | UnknownNodeInstance node_id
  | MissingEdgePolicy edge_id
  | UnknownEdgePolicy edge_id
  | InvalidEnabledCondition edge_id node_id

record dispatch_item =
  di_node_id :: node_id
  di_input_port :: port_name
  di_frame :: frame

datatype run_error = RunAbort abort_reason | RunExpect

text \<open>A panic payload is a string or some other value.\<close>

datatype panic_payload = PayloadStr string | PayloadOther

datatype 'a callback_result = Returned 'a | Failed muxiva_error | Panicked panic_payload

type_synonym ('v, 'w) shared = "'v resource_state \<times> 'w"

record ('v, 'w) behaviour =
  bh_on_prepare :: "node_id \<Rightarrow> node_context \<Rightarrow> ('v, 'w) shared \<Rightarrow>
    ('v, 'w) shared \<times> node_context \<times> unit callback_result"
  bh_on_process :: "node_id \<Rightarrow> frame option \<Rightarrow> node_context \<Rightarrow> ('v, 'w) shared \<Rightarrow>
    ('v, 'w) shared \<times> node_context \<times> unit callback_result"
  bh_on_finish :: "node_id \<Rightarrow> node_context \<Rightarrow> ('v, 'w) shared \<Rightarrow>
    ('v, 'w) shared \<times> node_context \<times> unit callback_result"
  bh_on_abort :: "node_id \<Rightarrow> abort_reason \<Rightarrow> node_context \<Rightarrow> ('v, 'w) shared \<Rightarrow>
    ('v, 'w) shared \<times> panic_payload option"
  bh_validate :: "edge_id \<Rightarrow> frame \<Rightarrow> edge_context \<Rightarrow> ('v, 'w) shared \<Rightarrow>
    ('v, 'w) shared \<times> validation_decision callback_result"
  bh_transform :: "edge_id \<Rightarrow> frame \<Rightarrow> edge_context \<Rightarrow> ('v, 'w) shared \<Rightarrow>
    ('v, 'w) shared \<times> edge_action callback_result"
  bh_on_signal :: "edge_id \<Rightarrow> signal_frame \<Rightarrow> edge_context \<Rightarrow> ('v, 'w) shared \<Rightarrow>
    ('v, 'w) shared \<times> unit callback_result"
  bh_on_drop :: "edge_id \<Rightarrow> string \<Rightarrow> edge_context \<Rightarrow> ('v, 'w) shared \<Rightarrow>
    ('v, 'w) shared \<times> unit callback_result"

datatype run_event =
    EvPrepare node_id
  | EvProcess node_id "(port_name \<times> frame) option"
  | EvFinish node_id
  | EvAbort node_id

record ('v, 'w) graph_runner =
  rn_graph :: graph_definition
  rn_nodes :: "node_id list"
  rn_policies :: "edge_id list"
  rn_routes :: "(node_id \<times> port_name, edge_id list) btree"
  rn_enabled_edges :: "edge_id list"
  rn_metrics :: "(edge_id, edge_metrics_snapshot) btree"
  rn_state :: graph_runner_state
  rn_prepared :: "node_id list"
  rn_aborted :: "node_id list"
  rn_observed_signals :: "observed_edge_signal list"
  rn_abort_diagnostics :: "abort_hook_diagnostic list"
  rn_bus_stopped :: bool
  rn_shared :: "('v, 'w) shared"
  rn_worklist :: "dispatch_item list"
  rn_trace :: "run_event list"

type_synonym ('v, 'w, 'a) run_act = "(('v, 'w) graph_runner, run_error, 'a) act"

section \<open>Abort reasons\<close>

definition bounded_message :: "string \<Rightarrow> string" where
  "bounded_message message = sanitize_bounded 256 message"

definition panic_message :: "panic_payload \<Rightarrow> string" where
  "panic_message payload =
     bounded_message (case payload of PayloadStr message \<Rightarrow> message
                      | PayloadOther \<Rightarrow> ''Rust task panicked with a non-string payload'')"

text \<open>The keys passed to \<open>details\<close> are literals: valid and distinct, so its \<open>expect\<close>s hold.\<close>

definition details :: "(string \<times> string) list \<Rightarrow> config_map" where
  "details values =
     (case config_map_try_from_iter (map (\<lambda>(key, v). (key, VString v)) values) of
        Inr m \<Rightarrow> m | Inl _ \<Rightarrow> [])"

fun abort_category_of :: "error_category \<Rightarrow> abort_category" where
  "abort_category_of CatCancelled = AbortCancelled"
| "abort_category_of CatExternal = AbortExternalSdkError"
| "abort_category_of CatConfiguration = AbortNodeError"
| "abort_category_of CatValidation = AbortNodeError"
| "abort_category_of CatLifecycle = AbortNodeError"
| "abort_category_of CatInternal = AbortNodeError"

definition node_error :: "muxiva_error \<Rightarrow> node_id \<Rightarrow> abort_stage \<Rightarrow> abort_reason" where
  "node_error error node_id stage =
     \<lparr>ab_category = abort_category_of (err_category error), ab_node_id = Some node_id, ab_stage = stage,
      ab_root = \<lparr>ar_code = err_code error, ar_message = bounded_message (err_message error),
                 ar_details = []\<rparr>\<rparr>"

definition runtime_abort :: "string \<Rightarrow> string \<Rightarrow> node_id option \<Rightarrow> abort_stage \<Rightarrow> abort_reason" where
  "runtime_abort code message node_id stage =
     \<lparr>ab_category = AbortNodeError, ab_node_id = node_id, ab_stage = stage,
      ab_root = \<lparr>ar_code = code, ar_message = message, ar_details = []\<rparr>\<rparr>"

definition runtime_abort_with_details ::
  "string \<Rightarrow> string \<Rightarrow> node_id option \<Rightarrow> abort_stage \<Rightarrow> (string \<times> string) list \<Rightarrow> abort_reason" where
  "runtime_abort_with_details code message node_id stage cx =
     \<lparr>ab_category = AbortNodeError, ab_node_id = node_id, ab_stage = stage,
      ab_root = \<lparr>ar_code = code, ar_message = message, ar_details = details cx\<rparr>\<rparr>"

definition policy_abort :: "edge_descriptor \<Rightarrow> string \<Rightarrow> string \<Rightarrow> string \<Rightarrow> abort_reason" where
  "policy_abort edge code message phase =
     \<lparr>ab_category = AbortNodeError, ab_node_id = Some (ed_from_node_id edge), ab_stage = StageRuntime,
      ab_root = \<lparr>ar_code = code, ar_message = bounded_message message,
                 ar_details = details [(''edge_id'', ed_edge_id edge), (''policy_phase'', phase)]\<rparr>\<rparr>"

definition panic_abort ::
  "panic_payload \<Rightarrow> node_id option \<Rightarrow> abort_stage \<Rightarrow> (edge_id \<times> string) option \<Rightarrow> abort_reason" where
  "panic_abort payload node_id stage edge =
     \<lparr>ab_category = AbortRustPanic, ab_node_id = node_id, ab_stage = stage,
      ab_root = \<lparr>ar_code = ''MUXIVA-RUN-PANIC'', ar_message = panic_message payload,
                 ar_details = (case edge of None \<Rightarrow> []
                               | Some (edge_id, phase) \<Rightarrow>
                                   details [(''edge_id'', edge_id), (''policy_phase'', phase)])\<rparr>\<rparr>"

section \<open>Construction\<close>

definition validate_node_instances ::
  "graph_definition \<Rightarrow> node_id list \<Rightarrow> graph_runner_build_error + unit" where
  "validate_node_instances graph nodes =
     (let expected = fold bs_insert (map (\<lambda>n. nd_node_id (nf_descriptor n)) (gd_nodes graph)) [];
          actual = fold bs_insert nodes [] in
      case List.find (\<lambda>i. i \<notin> set actual) expected of
        Some node_id \<Rightarrow> Inl (MissingNodeInstance node_id)
      | None \<Rightarrow>
          (case List.find (\<lambda>i. i \<notin> set expected) actual of
             Some node_id \<Rightarrow> Inl (UnknownNodeInstance node_id)
           | None \<Rightarrow> Inr ()))"

definition validate_edge_policies :: "edge_id list \<Rightarrow> edge_id list \<Rightarrow> graph_runner_build_error + unit" where
  "validate_edge_policies expected policies =
     (let actual = fold bs_insert policies [] in
      case List.find (\<lambda>i. i \<notin> set actual) expected of
        Some edge_id \<Rightarrow> Inl (MissingEdgePolicy edge_id)
      | None \<Rightarrow>
          (case List.find (\<lambda>i. i \<notin> set expected) actual of
             Some edge_id \<Rightarrow> Inl (UnknownEdgePolicy edge_id)
           | None \<Rightarrow> Inr ()))"

definition edge_is_enabled ::
  "graph_definition \<Rightarrow> edge_descriptor \<Rightarrow> graph_runner_build_error + bool" where
  "edge_is_enabled graph edge =
     (case ed_enabled edge of
        Always \<Rightarrow> Inr True
      | Never \<Rightarrow> Inr False
      | ConfigEquals node_id key expected \<Rightarrow>
          res_bind (ok_or (graph_node graph node_id) (InvalidEnabledCondition (ed_edge_id edge) node_id))
            (\<lambda>node. Inr (case bt_get (nf_config node) key of
                            None \<Rightarrow> False | Some v \<Rightarrow> value_eq v expected)))"

definition enabled_edges :: "graph_definition \<Rightarrow> graph_runner_build_error + edge_id list" where
  "enabled_edges graph =
     try_fold (\<lambda>enabled edge.
       res_bind (edge_is_enabled graph edge)
         (\<lambda>is_enabled. Inr (if is_enabled then bs_insert (ed_edge_id edge) enabled else enabled)))
       [] (gd_edges graph)"

definition edge_uses_named_policy :: "edge_descriptor \<Rightarrow> bool" where
  "edge_uses_named_policy edge \<longleftrightarrow>
     (case ed_validation_policy edge of NamedValidation _ _ \<Rightarrow> True | TypeGateOnly \<Rightarrow> False) \<or>
     (case ed_transform_policy edge of NamedTransform _ \<Rightarrow> True | IdentityTransform \<Rightarrow> False)"

definition add_route ::
  "edge_descriptor \<Rightarrow> (node_id \<times> port_name, edge_id list) btree \<Rightarrow> (node_id \<times> port_name, edge_id list) btree" where
  "add_route edge routes =
     (let key = (ed_from_node_id edge, ed_from_output_port edge) in
      bt_insert key ((case bt_get routes key of None \<Rightarrow> [] | Some ids \<Rightarrow> ids) @ [ed_edge_id edge]) routes)"

definition expected_policies :: "graph_definition \<Rightarrow> edge_id list \<Rightarrow> edge_id list" where
  "expected_policies graph enabled =
     fold bs_insert (map ed_edge_id
       (filter (\<lambda>edge. ed_edge_id edge \<in> set enabled \<and> edge_uses_named_policy edge) (gd_edges graph))) []"

definition graph_runner_new ::
  "graph_definition \<Rightarrow> node_id list \<Rightarrow> edge_id list \<Rightarrow> 'w \<Rightarrow>
     graph_runner_build_error + ('v, 'w) graph_runner" where
  "graph_runner_new graph nodes policies world =
     res_bind (validate_node_instances graph nodes) (\<lambda>_.
     res_bind (enabled_edges graph) (\<lambda>enabled.
     res_bind (validate_edge_policies (expected_policies graph enabled) policies) (\<lambda>_.
       Inr \<lparr>rn_graph = graph, rn_nodes = nodes, rn_policies = policies,
            rn_routes = fold add_route (gd_edges graph) [],
            rn_enabled_edges = enabled,
            rn_metrics = fold (\<lambda>edge. bt_insert (ed_edge_id edge) (edge_metrics_zero (ed_edge_id edge) 0))
                           (gd_edges graph) [],
            rn_state = RunReady, rn_prepared = [], rn_aborted = [], rn_observed_signals = [],
            rn_abort_diagnostics = [], rn_bus_stopped = False,
            rn_shared = (resource_store_new, world), rn_worklist = [], rn_trace = []\<rparr>)))"

section \<open>Lifecycle calls\<close>

text \<open>The part the four lifecycle calls share: look the node up, build its context, call, classify.\<close>

definition node_call ::
  "node_id \<Rightarrow> port_name option \<Rightarrow> abort_stage \<Rightarrow> run_event \<Rightarrow>
   (node_context \<Rightarrow> ('v, 'w) shared \<Rightarrow> ('v, 'w) shared \<times> node_context \<times> unit callback_result) \<Rightarrow>
   ('v, 'w, node_context) run_act" where
  "node_call node_id input_port stage event hook self =
     (case graph_node (rn_graph self) node_id of
        None \<Rightarrow> (self, Inl RunExpect)
      | Some definition' \<Rightarrow>
          if node_id \<notin> set (rn_nodes self) then (self, Inl RunExpect)
          else
            (case hook (with_runtime_services node_id (nf_config definition') input_port) (rn_shared self) of
               (shared', cx, result) \<Rightarrow>
                 (self\<lparr>rn_shared := shared', rn_trace := rn_trace self @ [event]\<rparr>,
                  case result of
                    Returned _ \<Rightarrow> Inr cx
                  | Failed error \<Rightarrow> Inl (RunAbort (node_error error node_id stage))
                  | Panicked payload \<Rightarrow> Inl (RunAbort (panic_abort payload (Some node_id) stage None)))))"

definition call_prepare :: "('v, 'w) behaviour \<Rightarrow> node_id \<Rightarrow> ('v, 'w, unit) run_act" where
  "call_prepare bh node_id =
     se_bind (node_call node_id None StagePrepare (EvPrepare node_id) (bh_on_prepare bh node_id))
       (\<lambda>_. se_return ())"

definition call_process ::
  "('v, 'w) behaviour \<Rightarrow> node_id \<Rightarrow> frame option \<Rightarrow> port_name option \<Rightarrow> ('v, 'w, node_emission list) run_act" where
  "call_process bh node_id input input_port =
     se_bind (node_call node_id input_port StageProcess
                (EvProcess node_id (case (input_port, input) of (Some p, Some f) \<Rightarrow> Some (p, f) | _ \<Rightarrow> None))
                (bh_on_process bh node_id input))
       (\<lambda>cx. se_return (snd (take_emissions cx)))"

definition call_finish :: "('v, 'w) behaviour \<Rightarrow> node_id \<Rightarrow> ('v, 'w, unit) run_act" where
  "call_finish bh node_id =
     se_bind (node_call node_id None StageFinish (EvFinish node_id) (bh_on_finish bh node_id))
       (\<lambda>_. se_return ())"

section \<open>Edge metrics and policy failures\<close>

definition with_metrics ::
  "edge_id \<Rightarrow> (edge_metrics_snapshot \<Rightarrow> edge_metrics_snapshot) \<Rightarrow> ('v, 'w, unit) run_act" where
  "with_metrics edge_id f self =
     (case bt_get (rn_metrics self) edge_id of
        None \<Rightarrow> (self, Inl RunExpect)
      | Some m \<Rightarrow> (self\<lparr>rn_metrics := bt_set edge_id (f m) (rn_metrics self)\<rparr>, Inr ()))"

definition edge_error :: "edge_descriptor \<Rightarrow> string \<Rightarrow> string \<Rightarrow> ('v, 'w, 'a) run_act" where
  "edge_error edge code message =
     se_bind (with_metrics (ed_edge_id edge) (\<lambda>m. em_record_error m message)) (\<lambda>_.
       se_fail (RunAbort (policy_abort edge code message ''runtime'')))"

definition policy_returned_error :: "edge_descriptor \<Rightarrow> muxiva_error \<Rightarrow> string \<Rightarrow> ('v, 'w, 'a) run_act" where
  "policy_returned_error edge error phase =
     se_bind (with_metrics (ed_edge_id edge) (\<lambda>m. em_record_error m (err_message error))) (\<lambda>_.
       se_fail (RunAbort
         \<lparr>ab_category = abort_category_of (err_category error), ab_node_id = Some (ed_from_node_id edge),
          ab_stage = StageRuntime,
          ab_root = \<lparr>ar_code = err_code error, ar_message = bounded_message (err_message error),
                     ar_details = details [(''edge_id'', ed_edge_id edge), (''policy_phase'', phase)]\<rparr>\<rparr>))"

definition policy_panicked :: "edge_descriptor \<Rightarrow> panic_payload \<Rightarrow> string \<Rightarrow> ('v, 'w, 'a) run_act" where
  "policy_panicked edge payload phase =
     se_bind (with_metrics (ed_edge_id edge) (\<lambda>m. em_record_error m (panic_message payload))) (\<lambda>_.
       se_fail (RunAbort (panic_abort payload (Some (ed_from_node_id edge)) StageRuntime
                            (Some (ed_edge_id edge, phase)))))"

text \<open>
  One protected call of a policy: the context from a metrics snapshot, the policy looked up
  in the map, and the three outcomes of \<open>catch_unwind\<close>.
\<close>

definition policy_call ::
  "edge_descriptor \<Rightarrow> string \<Rightarrow>
   (edge_context \<Rightarrow> ('v, 'w) shared \<Rightarrow> ('v, 'w) shared \<times> 'a callback_result) \<Rightarrow> ('v, 'w, 'a) run_act" where
  "policy_call edge phase hook self =
     (case bt_get (rn_metrics self) (ed_edge_id edge) of
        None \<Rightarrow> (self, Inl RunExpect)
      | Some snapshot \<Rightarrow>
          if ed_edge_id edge \<notin> set (rn_policies self) then (self, Inl RunExpect)
          else
            (case hook (edge_context_new (rn_graph self) edge snapshot) (rn_shared self) of
               (shared', result) \<Rightarrow>
                 (case result of
                    Returned x \<Rightarrow> se_return x
                  | Failed error \<Rightarrow> policy_returned_error edge error phase
                  | Panicked payload \<Rightarrow> policy_panicked edge payload phase)
                 (self\<lparr>rn_shared := shared'\<rparr>)))"

section \<open>Edges\<close>

definition drop_frame :: "('v, 'w) behaviour \<Rightarrow> edge_descriptor \<Rightarrow> string \<Rightarrow> ('v, 'w, unit) run_act" where
  "drop_frame bh edge reason =
     se_bind (with_metrics (ed_edge_id edge) (\<lambda>m. em_record_drop m reason)) (\<lambda>_.
       policy_call edge ''on_drop'' (bh_on_drop bh (ed_edge_id edge) reason))"

definition push_item :: "dispatch_item \<Rightarrow> ('v, 'w, unit) run_act" where
  "push_item item self = (self\<lparr>rn_worklist := rn_worklist self @ [item]\<rparr>, Inr ())"

definition deliver :: "edge_descriptor \<Rightarrow> frame \<Rightarrow> ('v, 'w, unit) run_act" where
  "deliver edge frame =
     (if frame_type_of frame \<noteq> ed_frame_type edge
      then edge_error edge ''MUXIVA-RUN-DELIVERY-TYPE''
             ''policy output type does not match the Edge destination''
      else se_bind (with_metrics (ed_edge_id edge) em_record_delivery) (\<lambda>_.
             push_item \<lparr>di_node_id = ed_to_node_id edge, di_input_port = ed_to_input_port edge,
                        di_frame = frame\<rparr>))"

definition observe_signal :: "edge_id \<Rightarrow> frame \<Rightarrow> ('v, 'w, unit) run_act" where
  "observe_signal edge_id frame self =
     (self\<lparr>rn_observed_signals := rn_observed_signals self @
        [\<lparr>os_edge_id = edge_id, os_frame = frame\<rparr>]\<rparr>, Inr ())"

definition lift_node_error :: "node_id \<Rightarrow> muxiva_error + 'a \<Rightarrow> ('v, 'w, 'a) run_act" where
  "lift_node_error node_id r =
     (case r of Inl error \<Rightarrow> se_fail (RunAbort (node_error error node_id StageRuntime))
      | Inr x \<Rightarrow> se_return x)"

fun apply_action :: "('v, 'w) behaviour \<Rightarrow> edge_descriptor \<Rightarrow> frame \<Rightarrow> edge_action \<Rightarrow> ('v, 'w, unit) run_act" where
  "apply_action bh edge original (Forward frame) =
     (if \<not> frame_eq frame original \<or> fh_frame_id (header frame) \<noteq> fh_frame_id (header original)
      then edge_error edge ''MUXIVA-RUN-FORWARD-MUTATION''
             ''Forward must return the unchanged input frame; use Replace''
      else deliver edge frame)"
| "apply_action bh edge original (Replace replacement) =
     (if fh_frame_id (header replacement) = fh_frame_id (header original)
      then edge_error edge ''MUXIVA-RUN-REPLACE-ID'' ''Replace must return a frame with a fresh ID''
      else if frame_type_of replacement \<noteq> ed_frame_type edge
      then edge_error edge ''MUXIVA-RUN-REPLACE-TYPE'' ''replacement frame type does not match the Edge''
      else
        se_bind (lift_node_error (ed_from_node_id edge)
                   (transform_origin_new None (Some (ed_edge_id edge)))) (\<lambda>origin.
        se_bind (lift_node_error (ed_from_node_id edge)
                   (attach_replacement_lineage original replacement origin ''edge policy replacement''))
          (deliver edge)))"
| "apply_action bh edge original (ActionDrop reason) = drop_frame bh edge reason"
| "apply_action bh edge original (ActionAbort reason) =
     se_bind (with_metrics (ed_edge_id edge) (\<lambda>m. em_record_error m reason)) (\<lambda>_.
       se_fail (RunAbort (policy_abort edge ''MUXIVA-RUN-POLICY-ABORT'' reason ''transform'')))"
| "apply_action bh edge original (EmitSignal frame) =
     (if frame_type_of frame \<noteq> TySignal
      then edge_error edge ''MUXIVA-RUN-SIGNAL-TYPE'' ''EmitSignal requires a Signal frame''
      else
        se_bind (with_metrics (ed_edge_id edge) em_record_signal) (\<lambda>_.
        case as_signal frame of
          None \<Rightarrow> se_fail RunExpect
        | Some signal \<Rightarrow>
            se_bind (policy_call edge ''on_signal'' (bh_on_signal bh (ed_edge_id edge) signal)) (\<lambda>_.
              observe_signal (ed_edge_id edge) frame)))"

text \<open>The three parts of \<open>apply_edge\<close> after the type gate.\<close>

definition edge_validation :: "('v, 'w) behaviour \<Rightarrow> edge_descriptor \<Rightarrow> frame \<Rightarrow> ('v, 'w, validation_decision) run_act" where
  "edge_validation bh edge original =
     (case ed_validation_policy edge of
        TypeGateOnly \<Rightarrow> se_return DecisionAccept
      | NamedValidation _ _ \<Rightarrow> policy_call edge ''validate'' (bh_validate bh (ed_edge_id edge) original))"

definition edge_reject :: "('v, 'w) behaviour \<Rightarrow> edge_descriptor \<Rightarrow> string \<Rightarrow> ('v, 'w, unit) run_act" where
  "edge_reject bh edge reason =
     (case ed_validation_policy edge of
        NamedValidation _ on_failure \<Rightarrow>
          (case on_failure of
             FailureAbort \<Rightarrow>
               se_bind (with_metrics (ed_edge_id edge) (\<lambda>m. em_record_error m reason)) (\<lambda>_.
                 se_fail (RunAbort (policy_abort edge ''MUXIVA-RUN-VALIDATION'' reason ''validate'')))
           | FailureDrop \<Rightarrow> drop_frame bh edge reason)
      | TypeGateOnly \<Rightarrow> drop_frame bh edge reason)"

definition edge_transform :: "('v, 'w) behaviour \<Rightarrow> edge_descriptor \<Rightarrow> frame \<Rightarrow> ('v, 'w, edge_action) run_act" where
  "edge_transform bh edge original =
     (case ed_transform_policy edge of
        IdentityTransform \<Rightarrow> se_return (Forward original)
      | NamedTransform _ \<Rightarrow> policy_call edge ''transform'' (bh_transform bh (ed_edge_id edge) original))"

definition apply_edge :: "('v, 'w) behaviour \<Rightarrow> edge_id \<Rightarrow> frame \<Rightarrow> ('v, 'w, unit) run_act" where
  "apply_edge bh edge_id original self =
     (case graph_edge (rn_graph self) edge_id of
        None \<Rightarrow> (self, Inl RunExpect)
      | Some edge \<Rightarrow>
          (if frame_type_of original \<noteq> ed_frame_type edge
           then edge_error edge ''MUXIVA-RUN-EDGE-TYPE'' ''frame failed the mandatory exact Edge type gate''
           else
             se_bind (edge_validation bh edge original) (\<lambda>validation.
             case validation of
               DecisionReject reason \<Rightarrow> edge_reject bh edge reason
             | DecisionAccept \<Rightarrow> se_bind (edge_transform bh edge original) (apply_action bh edge original)))
          self)"

section \<open>Routing\<close>

definition frame_type_name :: "frame_type \<Rightarrow> string" where
  "frame_type_name t =
     (case t of TyAudio \<Rightarrow> ''Audio'' | TyVideo \<Rightarrow> ''Video'' | TyText \<Rightarrow> ''Text'' | TyByte \<Rightarrow> ''Byte''
      | TySignal \<Rightarrow> ''Signal'' | TyEvent \<Rightarrow> ''Event'')"

definition route_frame :: "('v, 'w) behaviour \<Rightarrow> node_id \<Rightarrow> port_name \<Rightarrow> frame \<Rightarrow> ('v, 'w, unit) run_act" where
  "route_frame bh node_id output_port frame self =
     se_for (\<lambda>edge_id self.
         if edge_id \<in> set (rn_enabled_edges self) then apply_edge bh edge_id frame self else (self, Inr ()))
       (case bt_get (rn_routes self) (node_id, output_port) of None \<Rightarrow> [] | Some ids \<Rightarrow> ids) self"

definition route_emission ::
  "('v, 'w) behaviour \<Rightarrow> node_id \<Rightarrow> node_descriptor \<Rightarrow> node_emission \<Rightarrow> ('v, 'w, unit) run_act" where
  "route_emission bh node_id descriptor emission =
     (case List.find (\<lambda>port. pd_name port = ne_output_port emission \<and> pd_direction port = Output)
             (nd_ports descriptor) of
        None \<Rightarrow>
          se_fail (RunAbort (runtime_abort_with_details ''MUXIVA-RUN-OUTPUT-PORT''
            ''node emitted through an undeclared output port'' (Some node_id) StageProcess
            [(''output_port'', ne_output_port emission)]))
      | Some port \<Rightarrow>
          if frame_type_of (ne_frame emission) \<noteq> pd_frame_type port
          then se_fail (RunAbort (runtime_abort_with_details ''MUXIVA-RUN-OUTPUT-TYPE''
            ''node emitted a frame whose type does not match its output port'' (Some node_id) StageProcess
            [(''output_port'', ne_output_port emission),
             (''expected_type'', frame_type_name (pd_frame_type port)),
             (''actual_type'', frame_type_name (frame_type_of (ne_frame emission)))]))
          else route_frame bh node_id (ne_output_port emission) (ne_frame emission))"

definition route_emissions ::
  "('v, 'w) behaviour \<Rightarrow> node_id \<Rightarrow> node_emission list \<Rightarrow> ('v, 'w, unit) run_act" where
  "route_emissions bh node_id emissions self =
     (case graph_node (rn_graph self) node_id of
        None \<Rightarrow> (self, Inl RunExpect)
      | Some definition' \<Rightarrow> se_for (route_emission bh node_id (nf_descriptor definition')) emissions self)"

section \<open>The run\<close>

definition process_item ::
  "('v, 'w) behaviour \<Rightarrow> node_id \<Rightarrow> frame option \<Rightarrow> port_name option \<Rightarrow> ('v, 'w, unit) run_act" where
  "process_item bh node_id input input_port =
     se_bind (call_process bh node_id input input_port) (route_emissions bh node_id)"

text \<open>The \<open>while let\<close> loop over the work list; that it ends is a theorem about built graphs.\<close>

partial_function (option) drain ::
  "('v, 'w) behaviour \<Rightarrow> ('v, 'w) graph_runner \<Rightarrow> (('v, 'w) graph_runner \<times> (run_error + unit)) option" where
  "drain bh self =
     (case rn_worklist self of
        [] \<Rightarrow> Some (self, Inr ())
      | item # rest \<Rightarrow>
          (case process_item bh (di_node_id item) (Some (di_frame item)) (Some (di_input_port item))
                  (self\<lparr>rn_worklist := rest\<rparr>) of
             (self', Inl e) \<Rightarrow> Some (self', Inl e)
           | (self', Inr _) \<Rightarrow> drain bh self'))"

text \<open>The question-mark operator on computations that may not end.\<close>

definition and_then ::
  "('s \<times> ('e + 'a)) option \<Rightarrow> ('s \<Rightarrow> ('s \<times> ('e + 'b)) option) \<Rightarrow> ('s \<times> ('e + 'b)) option" where
  "and_then m f =
     (case m of None \<Rightarrow> None
      | Some (s, r) \<Rightarrow> (case r of Inl e \<Rightarrow> Some (s, Inl e) | Inr _ \<Rightarrow> f s))"

fun run_sources ::
  "('v, 'w) behaviour \<Rightarrow> node_id list \<Rightarrow> ('v, 'w) graph_runner \<Rightarrow>
     (('v, 'w) graph_runner \<times> (run_error + unit)) option" where
  "run_sources bh [] self = Some (self, Inr ())"
| "run_sources bh (node_id # ids) self =
     (case graph_node (rn_graph self) node_id of
        None \<Rightarrow> Some (self, Inl RunExpect)
      | Some definition' \<Rightarrow>
          if nd_kind (nf_descriptor definition') \<noteq> Source then run_sources bh ids self
          else and_then (Some (process_item bh node_id None None (self\<lparr>rn_worklist := []\<rparr>))) (\<lambda>self.
               and_then (drain bh self) (run_sources bh ids)))"

definition prepare_node :: "('v, 'w) behaviour \<Rightarrow> node_id \<Rightarrow> ('v, 'w, unit) run_act" where
  "prepare_node bh node_id =
     se_bind (call_prepare bh node_id) (\<lambda>_ self.
       (self\<lparr>rn_prepared := bs_insert node_id (rn_prepared self)\<rparr>, Inr ()))"

definition execute ::
  "('v, 'w) behaviour \<Rightarrow> ('v, 'w) graph_runner \<Rightarrow> (('v, 'w) graph_runner \<times> (run_error + unit)) option" where
  "execute bh self =
     (let order = gd_topological_order (rn_graph self) in
      and_then (Some (se_for (prepare_node bh) order (self\<lparr>rn_state := RunPreparing\<rparr>))) (\<lambda>self.
      and_then (run_sources bh order (self\<lparr>rn_state := RunRunning\<rparr>)) (\<lambda>self.
      Some (se_for (call_finish bh) (rev order) (self\<lparr>rn_state := RunFinishing\<rparr>)))))"

definition abort_node :: "('v, 'w) behaviour \<Rightarrow> abort_reason \<Rightarrow> node_id \<Rightarrow> ('v, 'w, unit) run_act" where
  "abort_node bh reason node_id self =
     (if node_id \<notin> set (rn_prepared self) \<or> node_id \<in> set (rn_aborted self) then (self, Inr ())
      else
        let self = self\<lparr>rn_aborted := bs_insert node_id (rn_aborted self)\<rparr> in
        case graph_node (rn_graph self) node_id of
          None \<Rightarrow> (self, Inl RunExpect)
        | Some definition' \<Rightarrow>
            if node_id \<notin> set (rn_nodes self) then (self, Inl RunExpect)
            else
              (case bh_on_abort bh node_id reason
                      (with_runtime_services node_id (nf_config definition') None) (rn_shared self) of
                 (shared', panicked) \<Rightarrow>
                   (self\<lparr>rn_shared := shared', rn_trace := rn_trace self @ [EvAbort node_id],
                         rn_abort_diagnostics := rn_abort_diagnostics self @
                           (case panicked of None \<Rightarrow> []
                            | Some payload \<Rightarrow>
                                [\<lparr>ah_node_id = node_id, ah_message = panic_message payload\<rparr>])\<rparr>,
                    Inr ())))"

definition abort_all_prepared :: "('v, 'w) behaviour \<Rightarrow> abort_reason \<Rightarrow> ('v, 'w, unit) run_act" where
  "abort_all_prepared bh reason self =
     se_for (abort_node bh reason) (rev (gd_topological_order (rn_graph self))) self"

definition release_runtime_resources :: "('v, 'w) graph_runner \<Rightarrow> ('v, 'w) graph_runner" where
  "release_runtime_resources self =
     self\<lparr>rn_nodes := [], rn_policies := [], rn_bus_stopped := True,
          rn_shared := (fst (resource_stop (fst (rn_shared self))), snd (rn_shared self))\<rparr>"

definition single_use_error :: abort_reason where
  "single_use_error =
     runtime_abort ''MUXIVA-RUN-SINGLE-USE'' ''a GraphRunner can execute only once'' None StageRuntime"

definition run ::
  "('v, 'w) behaviour \<Rightarrow> ('v, 'w) graph_runner \<Rightarrow> (('v, 'w) graph_runner \<times> (run_error + usize)) option" where
  "run bh self =
     (if rn_state self \<noteq> RunReady then Some (self, Inl (RunAbort single_use_error))
      else
        (case execute bh self of
           None \<Rightarrow> None
         | Some (self, Inr _) \<Rightarrow>
             Some (release_runtime_resources (self\<lparr>rn_state := RunFinished\<rparr>),
                   Inr (length (rn_observed_signals self)))
         | Some (self, Inl RunExpect) \<Rightarrow> Some (self, Inl RunExpect)
         | Some (self, Inl (RunAbort reason)) \<Rightarrow>
             (case abort_all_prepared bh reason (self\<lparr>rn_state := RunAborting\<rparr>) of
                (self, Inl e) \<Rightarrow> Some (self, Inl e)
              | (self, Inr _) \<Rightarrow>
                  Some (release_runtime_resources (self\<lparr>rn_state := RunAborted\<rparr>), Inl (RunAbort reason)))))"

end
