(* ===== verification/Runner_Correct.thy ===== *)
theory Runner_Correct
  imports Runner
begin

text \<open>
  Correctness of the synchronous runner on the graphs the builder accepts: construction
  succeeds exactly on matching instance maps, every run ends for every behaviour of the user
  code, no internal \<open>expect\<close> can fail, the lifecycle calls follow the documented protocol,
  and a frame reaches a node only through an input port of its type.
\<close>

section \<open>Built graphs\<close>

definition position :: "'a list \<Rightarrow> 'a \<Rightarrow> nat" where
  "position xs x = length (takeWhile (\<lambda>y. y \<noteq> x) xs)"

lemma position_append: "position (xs @ ys) x = (if x \<in> set xs then position xs x else length xs + position ys x)"
  by (induction xs) (auto simp: position_def)

lemma position_less: "x \<in> set xs \<Longrightarrow> position xs x < length xs"
  by (induction xs) (auto simp: position_def)

text \<open>In a stable order every arc goes forward.\<close>

lemma stable_prefix_forward:
  "stable_prefix N E xs \<Longrightarrow> (u, v) \<in> set E \<Longrightarrow> v \<in> set xs \<Longrightarrow> position xs u < position xs v"
proof (induction xs rule: rev_induct)
  case (snoc x xs)
  then have p: "stable_prefix N E xs" "x \<in> available N E (set xs)" by (simp_all add: stable_prefix_snoc)
  have x: "x \<notin> set xs" "v = x \<Longrightarrow> u \<in> set xs" using p(2) snoc.prems(2) by (auto simp: available_def)
  show ?case
  proof (cases "v \<in> set xs")
    case True
    with stable_prefix_facts [OF p(1)] snoc.prems(2) have "u \<in> set xs" by fastforce
    with True snoc.IH [OF p(1) snoc.prems(2)] show ?thesis by (simp add: position_append)
  next
    case False
    with snoc.prems(3) have "v = x" by simp
    with x position_less [of u xs] show ?thesis by (simp add: position_append)
  qed
qed simp

definition input_port_type :: "graph_definition \<Rightarrow> node_id \<Rightarrow> port_name \<Rightarrow> frame_type \<Rightarrow> bool" where
  "input_port_type g n p t \<longleftrightarrow>
     (\<exists>d port. graph_node g n = Some d \<and> port \<in> set (nd_ports (nf_descriptor d)) \<and>
        pd_name port = p \<and> pd_direction port = Input \<and> pd_frame_type port = t)"

definition wf_graph :: "graph_definition \<Rightarrow> bool" where
  "wf_graph g \<longleftrightarrow>
     distinct (gd_topological_order g) \<and>
     set (gd_topological_order g) = set (map (\<lambda>n. nd_node_id (nf_descriptor n)) (gd_nodes g)) \<and>
     (\<forall>e \<in> set (gd_edges g). graph_edge g (ed_edge_id e) = Some e \<and>
        position (gd_topological_order g) (ed_from_node_id e) < position (gd_topological_order g) (ed_to_node_id e) \<and>
        input_port_type g (ed_to_node_id e) (ed_to_input_port e) (ed_frame_type e))"

text \<open>A search by id in the values of an ordered map is a lookup.\<close>

lemma find_bt_values:
  "(\<And>k v. (k, v) \<in> set m \<Longrightarrow> key v = k) \<Longrightarrow> List.find (\<lambda>v. key v = k) (bt_values m) = bt_get m k"
proof (induction m)
  case (Cons e m)
  obtain k' v where e: "e = (k', v)" by (cases e)
  have v: "key v = k'" using Cons.prems e by simp
  have "List.find (\<lambda>v. key v = k) (bt_values m) = bt_get m k" using Cons by simp
  with e v show ?case by (simp add: bt_values_def bt_get_def)
qed (simp add: bt_values_def)

lemma build_wf_graph:
  assumes "wf_builder b" and "build b = Inr (Inr g)"
  shows "wf_graph g"
  using assms(1)
proof (cases rule: build_cases)
  case (ok order)
  with assms(2) have g: "gd_nodes g = bt_values (gb_nodes b)" "gd_edges g = bt_values (gb_edges b)"
    "gd_topological_order g = order" by auto
  have inv: "bt_inv (gb_nodes b)" "bt_inv (gb_edges b)" using assms(1) by (simp_all add: wf_builder_def)
  have node_id: "nd_node_id (nf_descriptor n) = i" if "(i, n) \<in> set (gb_nodes b)" for i n
    using assms(1) that by (auto simp: wf_builder_def bt_get_iff)
  have edge_id: "ed_edge_id e = i" if "(i, e) \<in> set (gb_edges b)" for i e
    using assms(1) that by (auto simp: wf_builder_def bt_get_iff)
  have node: "graph_node g i = bt_get (gb_nodes b) i" for i
    unfolding graph_node_def g by (rule find_bt_values) (rule node_id)
  have edge: "graph_edge g i = bt_get (gb_edges b) i" for i
    unfolding graph_edge_def g by (rule find_bt_values) (rule edge_id)
  have "set (bt_keys (gb_nodes b)) = (\<lambda>n. nd_node_id (nf_descriptor n)) ` set (gd_nodes g)"
    using node_id by (force simp: g bt_keys_def bt_values_def image_iff)
  moreover have "graph_edge g (ed_edge_id e) = Some e" if "e \<in> set (gd_edges g)" for e
    using that edge_id inv by (auto simp: g edge bt_values_def bt_get_iff)
  moreover have "position order (ed_from_node_id e) < position order (ed_to_node_id e)"
    "input_port_type g (ed_to_node_id e) (ed_to_input_port e) (ed_frame_type e)"
    if e: "e \<in> set (gd_edges g)" for e
  proof -
    from e have e': "e \<in> set (bt_values (gb_edges b))" by (simp add: g)
    have "ed_to_node_id e \<in> set order" using wf_builder_endpoints [OF assms(1)] e' ok(3) by simp
    then show "position order (ed_from_node_id e) < position order (ed_to_node_id e)"
      using e' by (intro stable_prefix_forward [OF ok(2)]) (auto simp: arc_of_def image_iff)
    from validate_edge_Inr [OF wf_builder_edges [OF assms(1) e']] obtain tn tp where
      t: "bt_get (gb_nodes b) (ed_to_node_id e) = Some tn"
      "find_port tn (ed_to_input_port e) Input e RoleTarget = Inr tp" "pd_frame_type tp = ed_frame_type e"
      by blast
    with find_port_Inr [OF t(2)]
    show "input_port_type g (ed_to_node_id e) (ed_to_input_port e) (ed_frame_type e)"
      by (auto simp: input_port_type_def node)
  qed
  ultimately show ?thesis
    using stable_prefix_facts [OF ok(2)] ok(3) by (simp add: wf_graph_def g(3))
qed (use assms(2) in auto)

lemma graph_node_iff: "(\<exists>d. graph_node g i = Some d) \<longleftrightarrow> i \<in> (\<lambda>n. nd_node_id (nf_descriptor n)) ` set (gd_nodes g)"
  using find_None_iff [of "\<lambda>n. nd_node_id (nf_descriptor n) = i" "gd_nodes g"]
  by (cases "graph_node g i") (auto simp: graph_node_def image_iff)

lemma wf_graph_node: "wf_graph g \<Longrightarrow> i \<in> set (gd_topological_order g) \<Longrightarrow> \<exists>d. graph_node g i = Some d"
  by (simp add: wf_graph_def graph_node_iff)

section \<open>The runner's invariant\<close>

definition wf_runner :: "('v, 'w) graph_runner \<Rightarrow> bool" where
  "wf_runner s \<longleftrightarrow>
     wf_graph (rn_graph s) \<and>
     set (rn_nodes s) = set (gd_topological_order (rn_graph s)) \<and>
     set (bt_keys (rn_metrics s)) = ed_edge_id ` set (gd_edges (rn_graph s)) \<and>
     (\<forall>e \<in> set (gd_edges (rn_graph s)). ed_edge_id e \<in> set (rn_enabled_edges s) \<longrightarrow>
        edge_uses_named_policy e \<longrightarrow> ed_edge_id e \<in> set (rn_policies s)) \<and>
     (\<forall>u p ids i. bt_get (rn_routes s) (u, p) = Some ids \<longrightarrow> i \<in> set ids \<longrightarrow>
        (\<exists>e \<in> set (gd_edges (rn_graph s)). ed_edge_id e = i \<and> ed_from_node_id e = u))"

definition from_edge :: "graph_definition \<Rightarrow> node_id \<Rightarrow> dispatch_item \<Rightarrow> bool" where
  "from_edge g u i \<longleftrightarrow>
     (\<exists>e \<in> set (gd_edges g). ed_from_node_id e = u \<and> ed_to_node_id e = di_node_id i \<and>
        ed_to_input_port e = di_input_port i \<and> ed_frame_type e = frame_type_of (di_frame i))"

text \<open>What never changes during a run, and what only the lifecycle loop changes.\<close>

definition same_frame :: "('v, 'w) graph_runner \<Rightarrow> ('v, 'w) graph_runner \<Rightarrow> bool" where
  "same_frame s t \<longleftrightarrow>
     rn_graph t = rn_graph s \<and> rn_enabled_edges t = rn_enabled_edges s \<and>
     rn_state t = rn_state s \<and> rn_aborted t = rn_aborted s"

definition routed :: "node_id \<Rightarrow> ('v, 'w) graph_runner \<Rightarrow> ('v, 'w) graph_runner \<Rightarrow> bool" where
  "routed u s t \<longleftrightarrow>
     wf_runner t \<and> same_frame s t \<and> rn_prepared t = rn_prepared s \<and> rn_trace t = rn_trace s \<and>
     (\<exists>new. rn_worklist t = rn_worklist s @ new \<and> list_all (from_edge (rn_graph s) u) new)"

lemmas routed_defs = routed_def wf_runner_def same_frame_def

definition routes :: "node_id \<Rightarrow> ('v, 'w) graph_runner \<Rightarrow> ('v, 'w, 'a) run_act \<Rightarrow> bool" where
  "routes u s m \<longleftrightarrow> valid (routed u s) m (\<lambda>_. routed u s) (\<lambda>e t. e \<noteq> RunExpect \<and> routed u s t)"

lemma routes_bind: "routes u s m \<Longrightarrow> (\<And>x. routes u s (f x)) \<Longrightarrow> routes u s (se_bind m f)"
  unfolding routes_def by (rule valid_bind)

lemma routes_return: "routes u s (se_return x)"
  unfolding routes_def by (rule valid_return)

lemma routes_fail: "routes u s (se_fail (RunAbort r))"
  unfolding routes_def by (rule valid_fail) simp

lemma routes_for: "(\<And>x. x \<in> set xs \<Longrightarrow> routes u s (f x)) \<Longrightarrow> routes u s (se_for f xs)"
  unfolding routes_def by (rule valid_for)

lemma routesI:
  "(\<And>t. routed u s t \<Longrightarrow> \<exists>t' x. m t = (t', Inr x) \<and> routed u s t') \<Longrightarrow> routes u s m"
  by (fastforce simp: routes_def valid_def)

lemma routes_pointwise:
  assumes "\<And>t. routed u s t \<Longrightarrow> \<exists>m'. routes u s m' \<and> m t = m' t"
  shows "routes u s m"
  unfolding routes_def valid_def
proof (intro allI impI)
  fix t
  assume t: "routed u s t"
  from assms [OF this] obtain m' where "routes u s m'" "m t = m' t" by blast
  with t show "case m t of (t', Inr x) \<Rightarrow> routed u s t' | (t', Inl e) \<Rightarrow> e \<noteq> RunExpect \<and> routed u s t'"
    by (simp add: routes_def valid_def)
qed

text \<open>Fields the invariant does not mention.\<close>

lemma routed_update [simp]:
  "routed u s (t\<lparr>rn_shared := sh\<rparr>) = routed u s t"
  "routed u s (t\<lparr>rn_observed_signals := os\<rparr>) = routed u s t"
  "bt_keys ms = bt_keys (rn_metrics t) \<Longrightarrow> routed u s (t\<lparr>rn_metrics := ms\<rparr>) = routed u s t"
  by (simp_all add: routed_defs)

lemma routes_result:
  assumes "routes u s m" and "routed u s t" and "m t = (t', r)"
  shows "r \<noteq> Inl RunExpect \<and> routed u s t'"
proof -
  have "case m t of (t', Inr x) \<Rightarrow> routed u s t' | (t', Inl e) \<Rightarrow> e \<noteq> RunExpect \<and> routed u s t'"
    using assms(1,2) by (simp add: routes_def valid_def)
  with assms(3) show ?thesis by (cases r) simp_all
qed

lemma routes_with_metrics:
  assumes "e \<in> set (gd_edges (rn_graph s))"
  shows "routes u s (with_metrics (ed_edge_id e) f)"
proof (rule routesI)
  fix t
  assume t: "routed u s t"
  with assms have "ed_edge_id e \<in> set (bt_keys (rn_metrics t))" by (auto simp: routed_defs)
  then obtain m where "bt_get (rn_metrics t) (ed_edge_id e) = Some m"
    using bt_get_None [of "rn_metrics t" "ed_edge_id e"] by auto
  with t show "\<exists>t' x. with_metrics (ed_edge_id e) f t = (t', Inr x) \<and> routed u s t'"
    by (simp add: with_metrics_def)
qed

lemma routes_policy_failure:
  assumes "e \<in> set (gd_edges (rn_graph s))"
  shows "routes u s (edge_error e code message)" "routes u s (policy_returned_error e err phase)"
    "routes u s (policy_panicked e payload phase)"
  unfolding edge_error_def policy_returned_error_def policy_panicked_def
  by (intro routes_bind routes_with_metrics routes_fail assms)+

lemma routes_policy_call:
  assumes e: "e \<in> set (gd_edges (rn_graph s))" "ed_edge_id e \<in> set (rn_enabled_edges s)"
    "edge_uses_named_policy e"
  shows "routes u s (policy_call e phase hook)"
proof (rule routes_pointwise)
  fix t
  assume t: "routed u s t"
  from t e(1) have "ed_edge_id e \<in> set (bt_keys (rn_metrics t))" by (auto simp: routed_defs)
  then obtain m where m: "bt_get (rn_metrics t) (ed_edge_id e) = Some m"
    using bt_get_None [of "rn_metrics t" "ed_edge_id e"] by auto
  have p: "ed_edge_id e \<in> set (rn_policies t)" using t e by (auto simp: routed_defs)
  obtain sh r where h: "hook (edge_context_new (rn_graph t) e m) (rn_shared t) = (sh, r)"
    by (rule prod.exhaust)
  let ?m = "\<lambda>t. (case r of Returned x \<Rightarrow> se_return x | Failed err \<Rightarrow> policy_returned_error e err phase
      | Panicked payload \<Rightarrow> policy_panicked e payload phase) (t\<lparr>rn_shared := sh\<rparr>)"
  have "routes u s ?m"
  proof -
    have "routes u s (\<lambda>t. (t\<lparr>rn_shared := sh\<rparr>, Inr ()))" by (rule routesI) simp
    then have "routes u s (se_bind (\<lambda>t. (t\<lparr>rn_shared := sh\<rparr>, Inr ())) (\<lambda>_. case r of
        Returned x \<Rightarrow> se_return x | Failed err \<Rightarrow> policy_returned_error e err phase
      | Panicked payload \<Rightarrow> policy_panicked e payload phase))"
      by (rule routes_bind) (cases r; simp add: routes_return routes_policy_failure e(1))
    then show ?thesis by (simp add: se_bind_def [abs_def])
  qed
  moreover have "policy_call e phase hook t = ?m t" by (simp add: policy_call_def m p h)
  ultimately show "\<exists>m'. routes u s m' \<and> policy_call e phase hook t = m' t" by blast
qed

lemma routes_drop_frame:
  assumes "e \<in> set (gd_edges (rn_graph s))" "ed_edge_id e \<in> set (rn_enabled_edges s)" "edge_uses_named_policy e"
  shows "routes u s (drop_frame bh e reason)"
  unfolding drop_frame_def by (intro routes_bind routes_with_metrics routes_policy_call assms)

lemma routes_push_item: "from_edge (rn_graph s) u i \<Longrightarrow> routes u s (push_item i)"
  by (rule routesI) (auto simp: push_item_def routed_defs)

lemma routes_deliver:
  assumes "e \<in> set (gd_edges (rn_graph s))" and "ed_from_node_id e = u"
  shows "routes u s (deliver e f)"
proof (cases "frame_type_of f = ed_frame_type e")
  case True
  with assms have "from_edge (rn_graph s) u
      \<lparr>di_node_id = ed_to_node_id e, di_input_port = ed_to_input_port e, di_frame = f\<rparr>"
    by (auto simp: from_edge_def)
  with True assms show ?thesis
    by (simp add: deliver_def routes_bind routes_with_metrics routes_push_item)
qed (simp add: deliver_def routes_policy_failure assms)

lemma routes_lift_node_error: "routes u s (lift_node_error i r)"
  by (cases r) (simp_all add: lift_node_error_def routes_return routes_fail)

lemma as_signal_type: "frame_type_of f = TySignal \<Longrightarrow> \<exists>x. as_signal f = Some x"
  by (cases f) (simp_all add: as_signal_def)

lemma routes_apply_action:
  assumes e: "e \<in> set (gd_edges (rn_graph s))" "ed_from_node_id e = u" "ed_edge_id e \<in> set (rn_enabled_edges s)"
    and named: "edge_uses_named_policy e \<or> (\<exists>f'. action = Forward f')"
  shows "routes u s (apply_action bh e f action)"
proof (cases action)
  case (Forward f')
  then show ?thesis by (simp add: routes_policy_failure routes_deliver e)
next
  case (Replace r)
  then show ?thesis
    by (auto simp: routes_policy_failure e intro!: routes_bind routes_lift_node_error routes_deliver e)
next
  case (ActionDrop r)
  with named show ?thesis by (simp add: routes_drop_frame e)
next
  case (ActionAbort r)
  then show ?thesis by (simp add: routes_bind routes_with_metrics routes_fail e)
next
  case (EmitSignal f')
  show ?thesis
  proof (cases "frame_type_of f' = TySignal")
    case True
    with as_signal_type obtain sg where sg: "as_signal f' = Some sg" by blast
    have "routes u s (observe_signal (ed_edge_id e) f')" by (rule routesI) (simp add: observe_signal_def)
    with True sg EmitSignal named show ?thesis
      by (simp add: routes_bind routes_with_metrics routes_policy_call e)
  qed (simp add: EmitSignal routes_policy_failure e)
qed

lemma se_bind_return [simp]: "se_bind (se_return x) f = f x"
  by (simp add: fun_eq_iff se_bind_def se_return_def)

lemma routes_edge_reject:
  assumes "e \<in> set (gd_edges (rn_graph s))" "ed_edge_id e \<in> set (rn_enabled_edges s)"
    "ed_validation_policy e \<noteq> TypeGateOnly"
  shows "routes u s (edge_reject bh e reason)"
  using assms
  by (cases "ed_validation_policy e")
     (auto simp: edge_reject_def edge_uses_named_policy_def routes_drop_frame routes_bind
       routes_with_metrics routes_fail split: validation_failure_action.split)

lemma routes_edge_validation:
  assumes "e \<in> set (gd_edges (rn_graph s))" "ed_edge_id e \<in> set (rn_enabled_edges s)"
  shows "routes u s (edge_validation bh e f)"
  using assms
  by (cases "ed_validation_policy e")
     (simp_all add: edge_validation_def routes_return routes_policy_call edge_uses_named_policy_def)

lemma routes_edge_action:
  assumes e: "e \<in> set (gd_edges (rn_graph s))" "ed_from_node_id e = u" "ed_edge_id e \<in> set (rn_enabled_edges s)"
  shows "routes u s (se_bind (edge_transform bh e f) (apply_action bh e f))"
proof (cases "ed_transform_policy e")
  case IdentityTransform
  have "routes u s (apply_action bh e f (Forward f))" by (rule routes_apply_action [OF e]) blast
  with IdentityTransform show ?thesis by (simp add: edge_transform_def del: apply_action.simps)
next
  case (NamedTransform n)
  then have "edge_uses_named_policy e" by (simp add: edge_uses_named_policy_def)
  with NamedTransform show ?thesis
    by (simp add: edge_transform_def routes_bind routes_policy_call routes_apply_action e)
qed

lemma routes_apply_edge:
  assumes wf: "wf_graph (rn_graph s)" and e: "e \<in> set (gd_edges (rn_graph s))" "ed_from_node_id e = u"
    "ed_edge_id e \<in> set (rn_enabled_edges s)"
  shows "routes u s (apply_edge bh (ed_edge_id e) f)"
proof (rule routes_pointwise)
  fix t
  assume t: "routed u s t"
  have ge: "graph_edge (rn_graph t) (ed_edge_id e) = Some e"
    using t wf e(1) by (simp add: routed_def same_frame_def wf_graph_def)
  let ?rest = "\<lambda>d. case d of DecisionReject reason \<Rightarrow> edge_reject bh e reason
    | DecisionAccept \<Rightarrow> se_bind (edge_transform bh e f) (apply_action bh e f)"
  have "routes u s (se_bind (edge_validation bh e f) ?rest)"
  proof (cases "ed_validation_policy e")
    case TypeGateOnly
    then show ?thesis by (simp add: edge_validation_def routes_edge_action e)
  next
    case (NamedValidation n a)
    then have "routes u s (?rest d)" for d
      by (cases d) (simp_all add: routes_edge_action routes_edge_reject e)
    then show ?thesis by (simp add: routes_bind routes_edge_validation e)
  qed
  then show "\<exists>m'. routes u s m' \<and> apply_edge bh (ed_edge_id e) f t = m' t"
    using routes_policy_failure(1) [OF e(1), of u]
    by (cases "frame_type_of f = ed_frame_type e") (auto simp: apply_edge_def ge)
qed

lemma wf_runner_route:
  assumes "wf_runner t" and "i \<in> set (case bt_get (rn_routes t) (u, p) of None \<Rightarrow> [] | Some ids \<Rightarrow> ids)"
  obtains e where "e \<in> set (gd_edges (rn_graph t))" "ed_edge_id e = i" "ed_from_node_id e = u"
proof (cases "bt_get (rn_routes t) (u, p)")
  case (Some ids)
  with assms have "\<exists>e \<in> set (gd_edges (rn_graph t)). ed_edge_id e = i \<and> ed_from_node_id e = u"
    unfolding wf_runner_def by fastforce
  with that show thesis by blast
qed (use assms(2) in simp)

lemma routes_route_frame:
  assumes "wf_graph (rn_graph s)"
  shows "routes u s (route_frame bh u p f)"
proof (rule routes_pointwise)
  fix t
  assume t: "routed u s t"
  let ?ids = "case bt_get (rn_routes t) (u, p) of None \<Rightarrow> [] | Some ids \<Rightarrow> ids"
  let ?body = "\<lambda>i self. if i \<in> set (rn_enabled_edges self) then apply_edge bh i f self else (self, Inr ())"
  have "routes u s (?body i)" if i: "i \<in> set ?ids" for i
  proof (rule routes_pointwise)
    fix t'
    assume t': "routed u s t'"
    have "wf_runner t" and g: "rn_graph t = rn_graph s" using t by (simp_all add: routed_def same_frame_def)
    from wf_runner_route [OF this(1) i] obtain e where
      e: "e \<in> set (gd_edges (rn_graph s))" "ed_edge_id e = i" "ed_from_node_id e = u"
      unfolding g by blast
    show "\<exists>m'. routes u s m' \<and> ?body i t' = m' t'"
    proof (cases "i \<in> set (rn_enabled_edges s)")
      case True
      with routes_apply_edge [OF assms e(1) e(3), of bh f] e(2) t' show ?thesis
        by (auto simp: routed_def same_frame_def)
    next
      case False
      with t' show ?thesis
        by (intro exI [of _ "se_return ()"]) (simp add: routes_return se_return_def routed_def same_frame_def)
    qed
  qed
  then have "routes u s (se_for ?body ?ids)" by (rule routes_for)
  moreover have "route_frame bh u p f t = se_for ?body ?ids t" by (simp only: route_frame_def)
  ultimately show "\<exists>m'. routes u s m' \<and> route_frame bh u p f t = m' t" by blast
qed

lemma routes_route_emissions:
  assumes wf: "wf_graph (rn_graph s)" and u: "u \<in> set (gd_topological_order (rn_graph s))"
  shows "routes u s (route_emissions bh u ems)"
proof (rule routes_pointwise)
  fix t
  assume t: "routed u s t"
  obtain d where d: "graph_node (rn_graph t) u = Some d"
    using wf_graph_node [OF wf u] t by (auto simp: routed_def same_frame_def)
  have "routes u s (route_emission bh u (nf_descriptor d) em)" for em
    by (auto simp: route_emission_def routes_fail routes_route_frame wf split: option.split)
  then have "routes u s (se_for (route_emission bh u (nf_descriptor d)) ems)" by (intro routes_for)
  with d show "\<exists>m'. routes u s m' \<and> route_emissions bh u ems t = m' t" by (auto simp: route_emissions_def)
qed

section \<open>The loops\<close>

fun process_ok :: "graph_definition \<Rightarrow> run_event \<Rightarrow> bool" where
  "process_ok g (EvProcess n (Some (p, f))) \<longleftrightarrow> input_port_type g n p (frame_type_of f)"
| "process_ok g (EvProcess n None) \<longleftrightarrow>
     (\<exists>d. graph_node g n = Some d \<and> nd_kind (nf_descriptor d) = Source)"
| "process_ok g _ \<longleftrightarrow> False"

definition processed :: "('v, 'w) graph_runner \<Rightarrow> ('v, 'w) graph_runner \<Rightarrow> bool" where
  "processed s t \<longleftrightarrow>
     wf_runner t \<and> same_frame s t \<and> rn_prepared t = rn_prepared s \<and>
     (\<exists>evs. rn_trace t = rn_trace s @ evs \<and> list_all (process_ok (rn_graph s)) evs)"

lemma processed_refl: "wf_runner s \<Longrightarrow> processed s s"
  by (simp add: processed_def same_frame_def)

lemma processed_trans: "processed s t \<Longrightarrow> processed t w \<Longrightarrow> processed s w"
  by (auto simp: processed_def same_frame_def)

lemma wf_runner_update [simp]:
  "wf_runner (s\<lparr>rn_shared := sh\<rparr>) = wf_runner s"
  "wf_runner (s\<lparr>rn_trace := tr\<rparr>) = wf_runner s"
  "wf_runner (s\<lparr>rn_worklist := wl\<rparr>) = wf_runner s"
  "wf_runner (s\<lparr>rn_state := st\<rparr>) = wf_runner s"
  "wf_runner (s\<lparr>rn_prepared := ps\<rparr>) = wf_runner s"
  "wf_runner (s\<lparr>rn_aborted := ab\<rparr>) = wf_runner s"
  "wf_runner (s\<lparr>rn_abort_diagnostics := ad\<rparr>) = wf_runner s"
  by (simp_all add: wf_runner_def)

lemma input_port_node: "wf_graph g \<Longrightarrow> input_port_type g n p t \<Longrightarrow> n \<in> set (gd_topological_order g)"
  using graph_node_iff [of g n] by (auto simp: input_port_type_def wf_graph_def)

lemma from_edge_target:
  assumes "wf_graph g" and "from_edge g u i"
  shows "input_port_type g (di_node_id i) (di_input_port i) (frame_type_of (di_frame i))"
    "position (gd_topological_order g) u < position (gd_topological_order g) (di_node_id i)"
  using assms by (auto simp: from_edge_def wf_graph_def)

text \<open>A lifecycle call on a known node appends its event and never fails an \<open>expect\<close>.\<close>

lemma node_call_effect:
  assumes "wf_runner s" and "n \<in> set (gd_topological_order (rn_graph s))"
  obtains sh r where
    "node_call n port stage ev hook s = (s\<lparr>rn_shared := sh, rn_trace := rn_trace s @ [ev]\<rparr>, r)"
    "r \<noteq> Inl RunExpect"
proof -
  have "wf_graph (rn_graph s)" "n \<in> set (rn_nodes s)" using assms by (simp_all add: wf_runner_def)
  from wf_graph_node [OF this(1) assms(2)] this(2) obtain d where
    d: "graph_node (rn_graph s) n = Some d" "n \<in> set (rn_nodes s)" by blast
  obtain sh cx r where "hook (with_runtime_services n (nf_config d) port) (rn_shared s) = (sh, cx, r)"
    by (rule prod_cases3)
  with d show thesis by (cases r) (auto simp: node_call_def intro: that)
qed

lemma process_item_effect:
  assumes wf: "wf_runner s" and n: "n \<in> set (gd_topological_order (rn_graph s))"
    and ev: "ev = EvProcess n (case (port, input) of (Some p, Some f) \<Rightarrow> Some (p, f) | _ \<Rightarrow> None)"
  obtains t r where "process_item bh n input port s = (t, r)" "r \<noteq> Inl RunExpect"
    "routed n (s\<lparr>rn_trace := rn_trace s @ [ev]\<rparr>) t"
proof -
  obtain sh r where c: "node_call n port StageProcess ev (bh_on_process bh n input) s =
      (s\<lparr>rn_shared := sh, rn_trace := rn_trace s @ [ev]\<rparr>, r)" "r \<noteq> Inl RunExpect"
    by (rule node_call_effect [OF wf n])
  let ?s = "s\<lparr>rn_trace := rn_trace s @ [ev]\<rparr>" and ?t = "s\<lparr>rn_shared := sh, rn_trace := rn_trace s @ [ev]\<rparr>"
  have start: "routed n ?s ?t" using wf by (simp add: routed_def same_frame_def)
  show thesis
  proof (cases r)
    case (Inl e)
    with c start show thesis by (intro that [of ?t "Inl e"]) (auto simp: process_item_def call_process_def ev se_bind_def)
  next
    case (Inr cx)
    let ?ems = "snd (take_emissions cx)"
    have m: "routes n ?s (route_emissions bh n ?ems)"
      using wf n by (intro routes_route_emissions) (simp_all add: wf_runner_def)
    obtain t r' where t: "route_emissions bh n ?ems ?t = (t, r')" by (rule prod.exhaust)
    have "r' \<noteq> Inl RunExpect \<and> routed n ?s t" by (rule routes_result [OF m start t])
    moreover have "process_item bh n input port s = (t, r')"
      using c Inr t by (simp add: process_item_def call_process_def ev se_bind_def se_return_def)
    ultimately show thesis using that [of t r'] by blast
  qed
qed

lemma routed_processed:
  assumes "routed n (s\<lparr>rn_trace := rn_trace s @ [ev]\<rparr>) t" and "process_ok (rn_graph s) ev"
  shows "processed s t"
  using assms by (auto simp: routed_def processed_def same_frame_def)

text \<open>
  The work list loop returns: every item it adds lies further down the topological order
  than the item it removes, so the list decreases as a multiset of distances to the end.
\<close>

definition distances :: "('v, 'w) graph_runner \<Rightarrow> nat multiset" where
  "distances s =
     (let order = gd_topological_order (rn_graph s) in
      mset (map (\<lambda>i. length order - position order (di_node_id i)) (rn_worklist s)))"

lemma distances_decrease:
  assumes wf: "wf_graph (rn_graph s)" and wl: "rn_worklist s = i # rest"
    and i: "di_node_id i \<in> set (gd_topological_order (rn_graph s))"
    and t: "rn_graph t = rn_graph s" "rn_worklist t = rest @ new"
    and new: "list_all (from_edge (rn_graph s) (di_node_id i)) new"
  shows "(distances t, distances s) \<in> mult less_than"
proof -
  let ?o = "gd_topological_order (rn_graph s)"
  let ?d = "\<lambda>i. length ?o - position ?o (di_node_id i)"
  have "?d j < ?d i" if "j \<in> set new" for j
    using that new from_edge_target(2) [OF wf, of "di_node_id i" j] position_less [OF i]
    by (auto simp: list_all_iff)
  then have "(mset (map ?d rest) + mset (map ?d new), mset (map ?d rest) + {#?d i#}) \<in> mult less_than"
    by (intro one_step_implies_mult) auto
  then show ?thesis by (simp add: distances_def Let_def wl t)
qed

text \<open>A computation that returns, fails no \<open>expect\<close> and only processes.\<close>

definition ends :: "('v, 'w) graph_runner \<Rightarrow> (('v, 'w) graph_runner \<times> (run_error + 'a)) option \<Rightarrow> bool" where
  "ends s m \<longleftrightarrow> (\<exists>t r. m = Some (t, r) \<and> r \<noteq> Inl RunExpect \<and> processed s t)"

lemma ends_and_then:
  assumes "ends s m" and "\<And>t x. m = Some (t, Inr x) \<Longrightarrow> processed s t \<Longrightarrow> ends t (f t)"
  shows "ends s (and_then m f)"
proof -
  from assms(1) obtain t r where t: "m = Some (t, r)" "r \<noteq> Inl RunExpect" "processed s t"
    by (auto simp: ends_def)
  show ?thesis
  proof (cases r)
    case (Inl e)
    with t show ?thesis by (simp add: ends_def and_then_def)
  next
    case (Inr x)
    with assms(2) [of t x] t obtain w q where "f t = Some (w, q)" "q \<noteq> Inl RunExpect" "processed t w"
      by (auto simp: ends_def)
    with Inr t(1) processed_trans [OF t(3)] show ?thesis by (simp add: ends_def and_then_def)
  qed
qed

definition typed_items :: "('v, 'w) graph_runner \<Rightarrow> bool" where
  "typed_items s \<longleftrightarrow>
     list_all (\<lambda>i. input_port_type (rn_graph s) (di_node_id i) (di_input_port i) (frame_type_of (di_frame i)))
       (rn_worklist s)"

text \<open>One callback with the routing of what it emitted, from a state whose work list is \<open>rest\<close>.\<close>

lemma process_item_ends:
  assumes wf: "wf_runner s" and n: "n \<in> set (gd_topological_order (rn_graph s))"
    and ok: "process_ok (rn_graph s)
      (EvProcess n (case (port, input) of (Some p, Some f) \<Rightarrow> Some (p, f) | _ \<Rightarrow> None))"
  obtains t r new where "process_item bh n input port (s\<lparr>rn_worklist := rest\<rparr>) = (t, r)"
    "r \<noteq> Inl RunExpect" "processed s t" "wf_runner t" "rn_graph t = rn_graph s"
    "rn_worklist t = rest @ new" "list_all (from_edge (rn_graph s) n) new"
proof -
  let ?s = "s\<lparr>rn_worklist := rest\<rparr>"
  have s: "wf_runner ?s" "n \<in> set (gd_topological_order (rn_graph ?s))" using wf n by simp_all
  obtain t r where t: "process_item bh n input port ?s = (t, r)" "r \<noteq> Inl RunExpect"
    "routed n (?s\<lparr>rn_trace := rn_trace ?s @
      [EvProcess n (case (port, input) of (Some p, Some f) \<Rightarrow> Some (p, f) | _ \<Rightarrow> None)]\<rparr>) t"
    by (rule process_item_effect [OF s refl])
  have "processed ?s t" by (rule routed_processed [OF t(3)]) (use ok in simp)
  then have "processed s t" by (simp add: processed_def same_frame_def)
  moreover from t(3) obtain new where "rn_worklist t = rest @ new" "rn_graph t = rn_graph s" "wf_runner t"
    "list_all (from_edge (rn_graph s) n) new" by (auto simp: routed_def same_frame_def)
  ultimately show thesis by (intro that [OF t(1,2)])
qed

lemma drain_ends:
  assumes "wf_runner s" and "typed_items s"
  shows "ends s (drain bh s)"
  using assms
proof (induction s rule: wf_induct_rule [OF wf_inv_image [OF wf_mult [OF wf_less_than], of distances]])
  case (1 s)
  note wf = "1.prems"(1)
  have g: "wf_graph (rn_graph s)" using wf by (simp add: wf_runner_def)
  show ?case
  proof (cases "rn_worklist s")
    case Nil
    then show ?thesis using processed_refl [OF wf] by (simp add: drain.simps ends_def)
  next
    case (Cons i rest)
    have ok: "input_port_type (rn_graph s) (di_node_id i) (di_input_port i) (frame_type_of (di_frame i))"
      using "1.prems"(2) Cons by (simp add: typed_items_def)
    note n = input_port_node [OF g this]
    from ok have ok': "process_ok (rn_graph s) (EvProcess (di_node_id i)
        (case (Some (di_input_port i), Some (di_frame i)) of (Some p, Some f) \<Rightarrow> Some (p, f) | _ \<Rightarrow> None))"
      by simp
    let ?step = "process_item bh (di_node_id i) (Some (di_frame i)) (Some (di_input_port i)) (s\<lparr>rn_worklist := rest\<rparr>)"
    obtain t r new where t: "?step = (t, r)" "r \<noteq> Inl RunExpect" "processed s t" "wf_runner t"
      "rn_graph t = rn_graph s" "rn_worklist t = rest @ new" "list_all (from_edge (rn_graph s) (di_node_id i)) new"
      by (rule process_item_ends [OF wf n ok'])
    have "ends s (and_then (Some ?step) (drain bh))"
    proof (rule ends_and_then)
      have "(t, s) \<in> inv_image (mult less_than) distances"
        using distances_decrease [OF g Cons n t(5-7)] by simp
      moreover have "typed_items t"
        using "1.prems"(2) Cons t(5-7) from_edge_target(1) [OF g] by (auto simp: list_all_iff typed_items_def)
      ultimately have "ends t (drain bh t)" using "1.IH" t(4) by blast
      then show "ends t' (drain bh t')" if "Some ?step = Some (t', Inr x)" for t' x using that t(1) by simp
    qed (use t in \<open>simp add: ends_def\<close>)
    with Cons show ?thesis
      by (subst drain.simps) (simp add: and_then_def split: prod.splits sum.splits)
  qed
qed

lemma run_sources_ends:
  assumes "wf_runner s" and "set ids \<subseteq> set (gd_topological_order (rn_graph s))"
  shows "ends s (run_sources bh ids s)"
  using assms
proof (induction ids arbitrary: s)
  case Nil
  then show ?case by (simp add: processed_refl ends_def)
next
  case (Cons n ids)
  have g: "wf_graph (rn_graph s)" and n: "n \<in> set (gd_topological_order (rn_graph s))"
    using Cons.prems by (simp_all add: wf_runner_def)
  obtain d where d: "graph_node (rn_graph s) n = Some d" using wf_graph_node [OF g n] by blast
  show ?case
  proof (cases "nd_kind (nf_descriptor d) = Source")
    case True
    with d have ok: "process_ok (rn_graph s) (EvProcess n
        (case (None, None) of (Some p, Some f) \<Rightarrow> Some (p, f) | _ \<Rightarrow> None))" by simp
    obtain t r new where t: "process_item bh n None None (s\<lparr>rn_worklist := []\<rparr>) = (t, r)"
      "r \<noteq> Inl RunExpect" "processed s t" "wf_runner t" "rn_graph t = rn_graph s"
      "rn_worklist t = [] @ new" "list_all (from_edge (rn_graph s) n) new"
      by (rule process_item_ends [OF Cons.prems(1) n ok])
    have "typed_items t"
      using t(5-7) from_edge_target(1) [OF g] by (auto simp: list_all_iff typed_items_def)
    then have dr: "ends t (drain bh t)" by (rule drain_ends [OF t(4)])
    have rest: "ends w (run_sources bh ids w)" if "processed t w" for w
      using that Cons.IH [of w] Cons.prems(2) t(5) by (auto simp: processed_def same_frame_def)
    have "ends s (and_then (Some (t, r)) (\<lambda>s. and_then (drain bh s) (run_sources bh ids)))"
    proof (rule ends_and_then)
      show "ends t' (and_then (drain bh t') (run_sources bh ids))" if "Some (t, r) = Some (t', Inr x)" for t' x
        using that ends_and_then [OF dr, of "run_sources bh ids"] rest by auto
    qed (use t in \<open>simp add: ends_def\<close>)
    with d True t(1) show ?thesis by simp
  qed (use d Cons in simp)
qed

section \<open>The lifecycle protocol\<close>

text \<open>A loop whose state after \<open>k\<close> completed iterations satisfies \<open>P k\<close>.\<close>

lemma valid_for_upto:
  assumes "\<And>k. k < length xs \<Longrightarrow> valid (P k) (f (xs ! k)) (\<lambda>_. P (Suc k)) (Q k)"
  shows "valid (P 0) (se_for f xs) (\<lambda>_. P (length xs)) (\<lambda>e s. \<exists>k < length xs. Q k e s)"
  using assms
proof (induction xs arbitrary: P Q)
  case Nil
  then show ?case by (auto intro: valid_return)
next
  case (Cons x xs)
  let ?R = "\<lambda>e s. \<exists>k < length (x # xs). Q k e s"
  have "valid (P 0) (f x) (\<lambda>_. P (Suc 0)) (Q 0)" using Cons.prems [of 0] by simp
  then have "valid (P 0) (f x) (\<lambda>_. P (Suc 0)) ?R" by (rule valid_weaken) auto
  moreover have "valid (P (Suc k)) (f (xs ! k)) (\<lambda>_. P (Suc (Suc k))) (Q (Suc k))" if "k < length xs" for k
    using Cons.prems [of "Suc k"] that by simp
  from Cons.IH [of "\<lambda>k. P (Suc k)" "\<lambda>k. Q (Suc k)", OF this]
  have "valid (P (Suc 0)) (se_for f xs) (\<lambda>_. P (length (x # xs))) ?R"
    by (rule valid_weaken) auto
  ultimately show ?case by (auto intro: valid_bind)
qed

definition called :: "('v, 'w) graph_runner \<Rightarrow> run_event list \<Rightarrow> node_id set \<Rightarrow> ('v, 'w) graph_runner \<Rightarrow> bool" where
  "called s evs ids t \<longleftrightarrow>
     wf_runner t \<and> same_frame s t \<and> rn_trace t = rn_trace s @ evs \<and>
     set (rn_prepared t) = set (rn_prepared s) \<union> ids"

lemma called_node_call:
  assumes n: "n \<in> set (gd_topological_order (rn_graph s))" and t: "called s evs ids t"
  obtains t' r where "node_call n port stage ev hook t = (t', r)" "r \<noteq> Inl RunExpect"
    "called s (evs @ [ev]) ids t'"
proof -
  have "wf_runner t" "n \<in> set (gd_topological_order (rn_graph t))"
    using n t by (simp_all add: called_def same_frame_def)
  then obtain sh r where c: "node_call n port stage ev hook t =
      (t\<lparr>rn_shared := sh, rn_trace := rn_trace t @ [ev]\<rparr>, r)" "r \<noteq> Inl RunExpect"
    by (rule node_call_effect)
  have "called s (evs @ [ev]) ids (t\<lparr>rn_shared := sh, rn_trace := rn_trace t @ [ev]\<rparr>)"
    using t by (simp add: called_def same_frame_def)
  with c show thesis by (rule that)
qed

lemma prepare_node_valid:
  assumes n: "n \<in> set (gd_topological_order (rn_graph s))"
  shows "valid (called s evs ids) (prepare_node bh n)
    (\<lambda>_. called s (evs @ [EvPrepare n]) (insert n ids))
    (\<lambda>e t. e \<noteq> RunExpect \<and> called s (evs @ [EvPrepare n]) ids t)"
  unfolding valid_def
proof (intro allI impI)
  fix t
  assume t: "called s evs ids t"
  obtain t' r where "node_call n None StagePrepare (EvPrepare n) (bh_on_prepare bh n) t = (t', r)"
    "r \<noteq> Inl RunExpect" "called s (evs @ [EvPrepare n]) ids t'"
    by (rule called_node_call [OF n t])
  moreover have "called s (evs @ [EvPrepare n]) (insert n ids) (t'\<lparr>rn_prepared := bs_insert n (rn_prepared t')\<rparr>)"
    using calculation(3) by (simp add: called_def same_frame_def)
  ultimately show "case prepare_node bh n t of (u, Inr x) \<Rightarrow> called s (evs @ [EvPrepare n]) (insert n ids) u
      | (u, Inl e) \<Rightarrow> e \<noteq> RunExpect \<and> called s (evs @ [EvPrepare n]) ids u"
    by (cases r) (simp_all add: prepare_node_def call_prepare_def se_bind_def se_return_def)
qed

lemma call_finish_valid:
  assumes n: "n \<in> set (gd_topological_order (rn_graph s))"
  shows "valid (called s evs ids) (call_finish bh n)
    (\<lambda>_. called s (evs @ [EvFinish n]) ids) (\<lambda>e t. e \<noteq> RunExpect \<and> called s (evs @ [EvFinish n]) ids t)"
  unfolding valid_def
proof (intro allI impI)
  fix t
  assume t: "called s evs ids t"
  obtain t' r where "node_call n None StageFinish (EvFinish n) (bh_on_finish bh n) t = (t', r)"
    "r \<noteq> Inl RunExpect" "called s (evs @ [EvFinish n]) ids t'"
    by (rule called_node_call [OF n t])
  then show "case call_finish bh n t of (u, Inr x) \<Rightarrow> called s (evs @ [EvFinish n]) ids u
      | (u, Inl e) \<Rightarrow> e \<noteq> RunExpect \<and> called s (evs @ [EvFinish n]) ids u"
    by (cases r) (simp_all add: call_finish_def se_bind_def se_return_def)
qed

lemma prepare_loop_valid:
  assumes "set ns \<subseteq> set (gd_topological_order (rn_graph s))"
  shows "valid (called s [] {}) (se_for (prepare_node bh) ns)
    (\<lambda>_. called s (map EvPrepare ns) (set ns))
    (\<lambda>e t. \<exists>k < length ns. e \<noteq> RunExpect \<and> called s (map EvPrepare (take (Suc k) ns)) (set (take k ns)) t)"
proof -
  have "valid (called s (map EvPrepare (take k ns)) (set (take k ns))) (prepare_node bh (ns ! k))
      (\<lambda>_. called s (map EvPrepare (take (Suc k) ns)) (set (take (Suc k) ns)))
      (\<lambda>e t. e \<noteq> RunExpect \<and> called s (map EvPrepare (take (Suc k) ns)) (set (take k ns)) t)"
    if "k < length ns" for k
    using that assms prepare_node_valid [of "ns ! k" s "map EvPrepare (take k ns)" "set (take k ns)" bh]
    by (simp add: take_Suc_conv_app_nth subset_code(1))
  from valid_for_upto [of ns "\<lambda>k. called s (map EvPrepare (take k ns)) (set (take k ns))", OF this]
  show ?thesis by simp
qed

lemma finish_loop_valid:
  assumes "set ns \<subseteq> set (gd_topological_order (rn_graph s))"
  shows "valid (called s [] ids) (se_for (call_finish bh) ns) (\<lambda>_. called s (map EvFinish ns) ids)
    (\<lambda>e t. \<exists>k < length ns. e \<noteq> RunExpect \<and> called s (map EvFinish (take (Suc k) ns)) ids t)"
proof -
  have "valid (called s (map EvFinish (take k ns)) ids) (call_finish bh (ns ! k))
      (\<lambda>_. called s (map EvFinish (take (Suc k) ns)) ids)
      (\<lambda>e t. e \<noteq> RunExpect \<and> called s (map EvFinish (take (Suc k) ns)) ids t)"
    if "k < length ns" for k
    using that assms call_finish_valid [of "ns ! k" s "map EvFinish (take k ns)" ids bh]
    by (simp add: take_Suc_conv_app_nth subset_code(1))
  from valid_for_upto [of ns "\<lambda>k. called s (map EvFinish (take k ns)) ids", OF this]
  show ?thesis by simp
qed

definition aborting :: "('v, 'w) graph_runner \<Rightarrow> node_id list \<Rightarrow> ('v, 'w) graph_runner \<Rightarrow> bool" where
  "aborting s ns t \<longleftrightarrow>
     wf_runner t \<and> rn_graph t = rn_graph s \<and> rn_prepared t = rn_prepared s \<and>
     rn_trace t = rn_trace s @ map EvAbort (filter (\<lambda>n. n \<in> set (rn_prepared s)) ns) \<and>
     set (rn_aborted t) = set (rn_aborted s) \<union> set (filter (\<lambda>n. n \<in> set (rn_prepared s)) ns)"

lemma abort_node_valid:
  assumes n: "n \<in> set (gd_topological_order (rn_graph s))" "n \<notin> set ns" "n \<notin> set (rn_aborted s)"
  shows "valid (aborting s ns) (abort_node bh reason n) (\<lambda>_. aborting s (ns @ [n])) (\<lambda>_ _. False)"
  unfolding valid_def
proof (intro allI impI)
  fix t
  assume t: "aborting s ns t"
  have "wf_graph (rn_graph s)" "n \<in> set (rn_nodes t)" using t n(1) by (auto simp: aborting_def wf_runner_def)
  then obtain d where d: "graph_node (rn_graph s) n = Some d" "n \<in> set (rn_nodes t)"
    using wf_graph_node n(1) by blast
  show "case abort_node bh reason n t of (u, Inr x) \<Rightarrow> aborting s (ns @ [n]) u | (u, Inl e) \<Rightarrow> False"
  proof (cases "n \<in> set (rn_prepared s)")
    case False
    with t show ?thesis by (simp add: abort_node_def aborting_def)
  next
    case True
    obtain sh p where "bh_on_abort bh n reason (with_runtime_services n (nf_config d) None) (rn_shared t) = (sh, p)"
      by (rule prod.exhaust)
    with True t n d show ?thesis by (auto simp: abort_node_def aborting_def Let_def)
  qed
qed

lemma abort_loop_valid:
  assumes "set ns \<subseteq> set (gd_topological_order (rn_graph s))" "distinct ns" "rn_aborted s = []"
  shows "valid (aborting s []) (se_for (abort_node bh reason) ns) (\<lambda>_. aborting s ns) (\<lambda>_ _. False)"
proof -
  have "valid (aborting s (take k ns)) (abort_node bh reason (ns ! k)) (\<lambda>_. aborting s (take (Suc k) ns)) (\<lambda>_ _. False)"
    if k: "k < length ns" for k
  proof -
    have "ns ! k \<notin> set (take k ns)"
      using assms(2) k by (auto simp: in_set_conv_nth nth_eq_iff_index_eq)
    with k assms show ?thesis
      by (simp add: take_Suc_conv_app_nth abort_node_valid subset_code(1))
  qed
  from valid_for_upto [of ns "\<lambda>k. aborting s (take k ns)", OF this] show ?thesis by simp
qed

text \<open>
  The lifecycle protocol as a set of traces: what a completed run may have called, what is
  called when a node fails to prepare, and what when processing or finishing fails.
\<close>

inductive lifecycle_trace :: "graph_definition \<Rightarrow> bool \<Rightarrow> run_event list \<Rightarrow> bool" for g where
  completed:
    "list_all (process_ok g) evs \<Longrightarrow>
     lifecycle_trace g True
       (map EvPrepare (gd_topological_order g) @ evs @ map EvFinish (rev (gd_topological_order g)))"
| prepare_failed:
    "k < length (gd_topological_order g) \<Longrightarrow>
     lifecycle_trace g False
       (map EvPrepare (take (Suc k) (gd_topological_order g)) @
        map EvAbort (rev (take k (gd_topological_order g))))"
| run_failed:
    "list_all (process_ok g) evs \<Longrightarrow> j \<le> length (gd_topological_order g) \<Longrightarrow>
     lifecycle_trace g False
       (map EvPrepare (gd_topological_order g) @ evs @
        map EvFinish (take j (rev (gd_topological_order g))) @ map EvAbort (rev (gd_topological_order g)))"

definition executed :: "('v, 'w) graph_runner \<Rightarrow> ('v, 'w) graph_runner \<Rightarrow> run_error + 'a \<Rightarrow> bool" where
  "executed s t r \<longleftrightarrow>
     (let order = gd_topological_order (rn_graph s) in
      wf_runner t \<and> rn_graph t = rn_graph s \<and> rn_aborted t = rn_aborted s \<and> r \<noteq> Inl RunExpect \<and>
      (case r of
         Inr _ \<Rightarrow> \<exists>evs. list_all (process_ok (rn_graph s)) evs \<and>
           rn_trace t = map EvPrepare order @ evs @ map EvFinish (rev order)
       | Inl _ \<Rightarrow>
           (\<exists>k < length order. rn_trace t = map EvPrepare (take (Suc k) order) \<and>
              set (rn_prepared t) = set (take k order)) \<or>
           (\<exists>evs j. list_all (process_ok (rn_graph s)) evs \<and> j \<le> length order \<and>
              rn_trace t = map EvPrepare order @ evs @ map EvFinish (take j (rev order)) \<and>
              set (rn_prepared t) = set order)))"

lemma valid_result:
  assumes "valid P m Q R" and "P s"
  shows "m s = (t, Inr x) \<Longrightarrow> Q x t" "m s = (t, Inl e) \<Longrightarrow> R e t"
  using assms(1) [unfolded valid_def, rule_format, OF assms(2)] by simp_all

lemma finish_executed:
  assumes t: "called s (map EvPrepare (gd_topological_order (rn_graph s)) @ evs) (set (gd_topological_order (rn_graph s))) t"
    and s: "rn_trace s = []" "rn_prepared s = []" and evs: "list_all (process_ok (rn_graph s)) evs"
    and fin: "se_for (call_finish bh) (rev (gd_topological_order (rn_graph s))) (t\<lparr>rn_state := st\<rparr>) = (u, r)"
  shows "executed s u r"
proof -
  let ?o = "gd_topological_order (rn_graph s)" and ?t = "t\<lparr>rn_state := st\<rparr>"
  have g: "rn_graph ?t = rn_graph s" "rn_aborted ?t = rn_aborted s" using t by (simp_all add: called_def same_frame_def)
  have start: "called ?t [] (set ?o) ?t" using t s by (auto simp: called_def same_frame_def)
  have loop: "valid (called ?t [] (set ?o)) (se_for (call_finish bh) (rev ?o))
      (\<lambda>_. called ?t (map EvFinish (rev ?o)) (set ?o))
      (\<lambda>e w. \<exists>k < length (rev ?o). e \<noteq> RunExpect \<and> called ?t (map EvFinish (take (Suc k) (rev ?o))) (set ?o) w)"
    by (rule finish_loop_valid) (simp add: g)
  show ?thesis
  proof (cases r)
    case (Inr x)
    have "called ?t (map EvFinish (rev ?o)) (set ?o) u"
      by (rule valid_result(1) [OF loop start]) (use fin Inr in simp)
    with t s evs g Inr show ?thesis by (auto simp: executed_def Let_def called_def same_frame_def)
  next
    case (Inl e)
    have "\<exists>k < length (rev ?o). e \<noteq> RunExpect \<and> called ?t (map EvFinish (take (Suc k) (rev ?o))) (set ?o) u"
      by (rule valid_result(2) [OF loop start]) (use fin Inl in simp)
    then obtain k where k: "k < length ?o" "e \<noteq> RunExpect"
      "called ?t (map EvFinish (take (Suc k) (rev ?o))) (set ?o) u" by auto
    then have "rn_trace u = map EvPrepare ?o @ evs @ map EvFinish (take (Suc k) (rev ?o))"
      "set (rn_prepared u) = set ?o" "wf_runner u" "rn_graph u = rn_graph s" "rn_aborted u = rn_aborted s"
      using t s g by (auto simp: called_def same_frame_def)
    with k(1,2) evs Inl show ?thesis
      unfolding executed_def Let_def by (auto intro!: exI [of _ evs] exI [of _ "Suc k"])
  qed
qed

lemma sources_executed:
  assumes t: "called s (map EvPrepare (gd_topological_order (rn_graph s))) (set (gd_topological_order (rn_graph s))) t"
    and s: "rn_trace s = []" "rn_prepared s = []" "rn_aborted s = []"
  shows "\<exists>u r. and_then (run_sources bh (gd_topological_order (rn_graph s)) (t\<lparr>rn_state := RunRunning\<rparr>))
      (\<lambda>self. Some (se_for (call_finish bh) (rev (gd_topological_order (rn_graph s))) (self\<lparr>rn_state := RunFinishing\<rparr>)))
    = Some (u, r) \<and> executed s u r"
proof -
  let ?o = "gd_topological_order (rn_graph s)" and ?t = "t\<lparr>rn_state := RunRunning\<rparr>"
  have "ends ?t (run_sources bh ?o ?t)"
    by (rule run_sources_ends) (use t in \<open>simp_all add: called_def same_frame_def\<close>)
  then obtain w q where w: "run_sources bh ?o ?t = Some (w, q)" "q \<noteq> Inl RunExpect" "processed ?t w"
    by (auto simp: ends_def)
  then obtain evs where evs: "rn_trace w = rn_trace t @ evs" "list_all (process_ok (rn_graph s)) evs"
    using t by (auto simp: processed_def called_def same_frame_def)
  have tw: "wf_runner w" "rn_graph w = rn_graph s" "rn_aborted w = rn_aborted s" "rn_enabled_edges w = rn_enabled_edges s"
    "rn_trace w = map EvPrepare ?o @ evs" "set (rn_prepared w) = set ?o"
    using t w(3) evs(1) s by (auto simp: processed_def called_def same_frame_def)
  show ?thesis
  proof (cases q)
    case (Inl e)
    with w(1,2) tw evs(2) show ?thesis
      unfolding executed_def Let_def and_then_def by (auto intro!: exI [of _ evs] exI [of _ 0])
  next
    case (Inr x)
    obtain u r where u: "se_for (call_finish bh) (rev ?o) (w\<lparr>rn_state := RunFinishing\<rparr>) = (u, r)"
      by (rule prod.exhaust)
    let ?w = "w\<lparr>rn_state := rn_state s\<rparr>"
    have "called s (map EvPrepare ?o @ evs) (set ?o) ?w" using tw s by (simp add: called_def same_frame_def)
    from finish_executed [OF this s(1,2) evs(2), of bh RunFinishing u r] u have "executed s u r" by simp
    with Inr w(1) u show ?thesis by (simp add: and_then_def)
  qed
qed

lemma execute_spec:
  assumes wf: "wf_runner s" and s: "rn_trace s = []" "rn_prepared s = []" "rn_aborted s = []"
  shows "\<exists>t r. execute bh s = Some (t, r) \<and> executed s t r"
proof -
  let ?o = "gd_topological_order (rn_graph s)" and ?s = "s\<lparr>rn_state := RunPreparing\<rparr>"
  have loop: "valid (called ?s [] {}) (se_for (prepare_node bh) ?o) (\<lambda>_. called ?s (map EvPrepare ?o) (set ?o))
      (\<lambda>e t. \<exists>k < length ?o. e \<noteq> RunExpect \<and> called ?s (map EvPrepare (take (Suc k) ?o)) (set (take k ?o)) t)"
    by (rule prepare_loop_valid) simp
  have start: "called ?s [] {} ?s" using wf by (simp add: called_def same_frame_def)
  obtain t r where t: "se_for (prepare_node bh) ?o ?s = (t, r)" by (rule prod.exhaust)
  show ?thesis
  proof (cases r)
    case (Inl e)
    from valid_result(2) [OF loop start, of t e] t Inl obtain k where
      "k < length ?o" "e \<noteq> RunExpect" "called ?s (map EvPrepare (take (Suc k) ?o)) (set (take k ?o)) t" by auto
    then have "executed s t (Inl e)"
      using s unfolding executed_def Let_def by (auto simp: called_def same_frame_def)
    with t Inl show ?thesis by (simp add: execute_def and_then_def Let_def)
  next
    case (Inr x)
    have "called ?s (map EvPrepare ?o) (set ?o) t"
      by (rule valid_result(1) [OF loop start]) (use t Inr in simp)
    from sources_executed [of ?s t bh] this s obtain u q where
      "and_then (run_sources bh ?o (t\<lparr>rn_state := RunRunning\<rparr>))
        (\<lambda>self. Some (se_for (call_finish bh) (rev ?o) (self\<lparr>rn_state := RunFinishing\<rparr>))) = Some (u, q)"
      "executed ?s u q" by auto
    moreover from this(2) have "executed s u q" by (cases q) (simp_all add: executed_def Let_def)
    ultimately show ?thesis using t Inr by (simp add: execute_def and_then_def [of "Some _"] Let_def)
  qed
qed

lemma filter_take_distinct: "distinct xs \<Longrightarrow> filter (\<lambda>x. x \<in> set (take k xs)) xs = take k xs"
proof -
  assume "distinct xs"
  then have "distinct (take k xs @ drop k xs)" by simp
  then have "filter (\<lambda>x. x \<in> set (take k xs)) (take k xs @ drop k xs) = take k xs"
    by (auto simp: filter_empty_conv simp del: append_take_drop_id)
  then show ?thesis by simp
qed

text \<open>The abort loop calls exactly the prepared nodes, backwards, and then the trace is complete.\<close>

lemma abort_lifecycle:
  assumes t: "executed s t (Inl (RunAbort reason))" and s: "rn_aborted s = []"
  obtains u where "abort_all_prepared bh reason (t\<lparr>rn_state := RunAborting\<rparr>) = (u, Inr ())"
    "lifecycle_trace (rn_graph s) False (rn_trace u)" "rn_graph u = rn_graph s"
proof -
  let ?o = "gd_topological_order (rn_graph s)" and ?t = "t\<lparr>rn_state := RunAborting\<rparr>"
  have t': "wf_runner ?t" "rn_graph ?t = rn_graph s" "rn_aborted ?t = []"
    using t s by (simp_all add: executed_def Let_def)
  then have o: "distinct ?o" by (simp add: wf_runner_def wf_graph_def)
  have loop: "valid (aborting ?t []) (se_for (abort_node bh reason) (rev ?o)) (\<lambda>_. aborting ?t (rev ?o)) (\<lambda>_ _. False)"
    by (rule abort_loop_valid) (use t' o in simp_all)
  have start: "aborting ?t [] ?t" using t' by (simp add: aborting_def)
  obtain u r where u: "se_for (abort_node bh reason) (rev ?o) ?t = (u, r)" by (rule prod.exhaust)
  then obtain x where r: "r = Inr x" using valid_result(2) [OF loop start, of u] by (cases r) auto
  have "aborting ?t (rev ?o) u" by (rule valid_result(1) [OF loop start]) (use u r in simp)
  then have tr: "rn_graph u = rn_graph s"
    "rn_trace u = rn_trace t @ map EvAbort (rev (filter (\<lambda>n. n \<in> set (rn_prepared t)) ?o))"
    using t'(2) by (simp_all add: aborting_def rev_filter)
  have "lifecycle_trace (rn_graph s) False (rn_trace u)"
  proof -
    from t consider k where "k < length ?o" "rn_trace t = map EvPrepare (take (Suc k) ?o)"
        "set (rn_prepared t) = set (take k ?o)"
      | evs j where "list_all (process_ok (rn_graph s)) evs" "j \<le> length ?o"
        "rn_trace t = map EvPrepare ?o @ evs @ map EvFinish (take j (rev ?o))" "set (rn_prepared t) = set ?o"
      by (auto simp: executed_def Let_def)
    then show ?thesis
    proof cases
      case 1
      then show ?thesis using lifecycle_trace.prepare_failed [of k "rn_graph s"] tr(2)
        by (simp add: filter_take_distinct [OF o])
    next
      case 2
      then show ?thesis using lifecycle_trace.run_failed [of "rn_graph s" evs j] tr(2) by simp
    qed
  qed
  with tr(1) u r t'(2) show thesis by (intro that [of u]) (simp_all add: abort_all_prepared_def)
qed

definition fresh_runner :: "('v, 'w) graph_runner \<Rightarrow> bool" where
  "fresh_runner s \<longleftrightarrow>
     wf_runner s \<and> rn_state s = RunReady \<and> rn_trace s = [] \<and> rn_prepared s = [] \<and> rn_aborted s = []"

lemma run_spec:
  assumes "fresh_runner s"
  obtains t r where "run bh s = Some (t, r)" "r \<noteq> Inl RunExpect"
    "rn_state t = (case r of Inr _ \<Rightarrow> RunFinished | Inl _ \<Rightarrow> RunAborted)"
    "lifecycle_trace (rn_graph s) (\<not> isl r) (rn_trace t)"
    "rn_nodes t = [] \<and> rn_policies t = [] \<and> rs_stopped (fst (rn_shared t))"
proof -
  from assms have s: "wf_runner s" "rn_state s = RunReady" "rn_trace s = []" "rn_prepared s = []" "rn_aborted s = []"
    by (simp_all add: fresh_runner_def)
  from execute_spec [OF s(1,3-5), of bh] obtain t r where t: "execute bh s = Some (t, r)" "executed s t r" by blast
  show thesis
  proof (cases r)
    case (Inr x)
    from t(2) Inr obtain evs where "list_all (process_ok (rn_graph s)) evs"
      "rn_trace t = map EvPrepare (gd_topological_order (rn_graph s)) @ evs @
         map EvFinish (rev (gd_topological_order (rn_graph s)))"
      by (auto simp: executed_def Let_def)
    then have "lifecycle_trace (rn_graph s) True (rn_trace t)" by (simp add: lifecycle_trace.completed)
    with t(1) s(2) Inr show thesis
      by (intro that [of "release_runtime_resources (t\<lparr>rn_state := RunFinished\<rparr>)" "Inr (length (rn_observed_signals t))"])
         (simp_all add: run_def release_runtime_resources_def resource_stop_def)
  next
    case (Inl e)
    with t(2) obtain reason where e: "e = RunAbort reason" by (cases e) (auto simp: executed_def Let_def)
    obtain u where "abort_all_prepared bh reason (t\<lparr>rn_state := RunAborting\<rparr>) = (u, Inr ())"
      "lifecycle_trace (rn_graph s) False (rn_trace u)" "rn_graph u = rn_graph s"
      by (rule abort_lifecycle [OF t(2) [unfolded Inl e] s(5)])
    with t(1) s(2) Inl e show thesis
      by (intro that [of "release_runtime_resources (u\<lparr>rn_state := RunAborted\<rparr>)" "Inl (RunAbort reason)"])
         (simp_all add: run_def release_runtime_resources_def resource_stop_def)
  qed
qed

section \<open>Construction\<close>

text \<open>Both map checks accept exactly equal key sets.\<close>

lemma key_check:
  "(case List.find (\<lambda>i. i \<notin> A) xs of Some i \<Rightarrow> Inl (f i)
    | None \<Rightarrow> (case List.find (\<lambda>i. i \<notin> set xs) ys of Some i \<Rightarrow> Inl (g i) | None \<Rightarrow> Inr ())) = Inr ()
   \<longleftrightarrow> set xs \<subseteq> A \<and> set ys \<subseteq> set xs"
  by (auto split: option.split simp: find_None_iff find_Some_iff) (metis nth_mem subsetD)+

lemma set_fold_bs_insert [simp]: "set (fold bs_insert xs s) = set xs \<union> set s"
  by (induction xs arbitrary: s) auto

lemma validate_node_instances_iff:
  "validate_node_instances g nodes = Inr () \<longleftrightarrow>
     set nodes = (\<lambda>n. nd_node_id (nf_descriptor n)) ` set (gd_nodes g)"
  by (simp add: validate_node_instances_def Let_def key_check del: set_fold_bs_insert) auto

lemma validate_edge_policies_iff:
  "validate_edge_policies expected policies = Inr () \<longleftrightarrow> set policies = set expected"
  by (simp add: validate_edge_policies_def Let_def key_check del: set_fold_bs_insert) auto

definition condition_node_exists :: "graph_definition \<Rightarrow> edge_descriptor \<Rightarrow> bool" where
  "condition_node_exists g e \<longleftrightarrow>
     (case ed_enabled e of ConfigEquals n _ _ \<Rightarrow> graph_node g n \<noteq> None | _ \<Rightarrow> True)"

definition edge_enabled :: "graph_definition \<Rightarrow> edge_descriptor \<Rightarrow> bool" where
  "edge_enabled g e \<longleftrightarrow>
     (case ed_enabled e of
        Always \<Rightarrow> True
      | Never \<Rightarrow> False
      | ConfigEquals n key expected \<Rightarrow>
          (\<exists>d v. graph_node g n = Some d \<and> bt_get (nf_config d) key = Some v \<and> value_eq v expected))"

lemma edge_is_enabled_Inr:
  "edge_is_enabled g e = Inr b \<longleftrightarrow> condition_node_exists g e \<and> b = edge_enabled g e"
  by (cases "ed_enabled e")
     (auto simp: edge_is_enabled_def condition_node_exists_def edge_enabled_def res_iff split: option.splits)

definition enable_step :: "graph_definition \<Rightarrow> edge_id list \<Rightarrow> edge_descriptor \<Rightarrow> graph_runner_build_error + edge_id list" where
  "enable_step g enabled edge =
     res_bind (edge_is_enabled g edge)
       (\<lambda>is_enabled. Inr (if is_enabled then bs_insert (ed_edge_id edge) enabled else enabled))"

lemma enable_step_Inr:
  "enable_step g en e = Inr en' \<longleftrightarrow>
     condition_node_exists g e \<and> en' = (if edge_enabled g e then bs_insert (ed_edge_id e) en else en)"
  by (auto simp: enable_step_def res_iff edge_is_enabled_Inr)

lemma enable_fold:
  "try_fold (enable_step g) en es = Inr en' \<Longrightarrow>
     list_all (condition_node_exists g) es \<and> set en' = set en \<union> ed_edge_id ` {e \<in> set es. edge_enabled g e}"
proof (induction es arbitrary: en)
  case (Cons e es)
  from Cons.prems obtain en1 where "enable_step g en e = Inr en1" "try_fold (enable_step g) en1 es = Inr en'"
    by (auto simp: res_iff)
  with Cons.IH [of en1] show ?case by (auto simp: enable_step_Inr split: if_splits)
qed simp

lemma enable_fold_total:
  "list_all (condition_node_exists g) es \<Longrightarrow> \<exists>en'. try_fold (enable_step g) en es = Inr en'"
proof (induction es arbitrary: en)
  case (Cons e es)
  then obtain en1 where "enable_step g en e = Inr en1" by (simp add: enable_step_Inr)
  with Cons show ?case by simp
qed simp

lemma enabled_edges_step: "enabled_edges g = try_fold (enable_step g) [] (gd_edges g)"
  by (simp add: enabled_edges_def enable_step_def [abs_def])

definition required_policies :: "graph_definition \<Rightarrow> edge_id set" where
  "required_policies g =
     ed_edge_id ` {e \<in> set (gd_edges g). edge_enabled g e \<and> edge_uses_named_policy e}"

lemma routes_fold:
  assumes "\<forall>u p ids i. bt_get m (u, p) = Some ids \<longrightarrow> i \<in> set ids \<longrightarrow> (\<exists>e \<in> E. ed_edge_id e = i \<and> ed_from_node_id e = u)"
    and "set es \<subseteq> E"
  shows "\<forall>u p ids i. bt_get (fold add_route es m) (u, p) = Some ids \<longrightarrow> i \<in> set ids \<longrightarrow>
           (\<exists>e \<in> E. ed_edge_id e = i \<and> ed_from_node_id e = u)"
  using assms
proof (induction es arbitrary: m)
  case (Cons e es)
  have "\<forall>u p ids i. bt_get (add_route e m) (u, p) = Some ids \<longrightarrow> i \<in> set ids \<longrightarrow>
      (\<exists>e \<in> E. ed_edge_id e = i \<and> ed_from_node_id e = u)"
    using Cons.prems
    by (auto simp: add_route_def Let_def bt_get_insert split: if_splits option.splits) (metis (no_types))+
  from Cons.IH [OF this] Cons.prems(2) show ?case by simp
qed simp

lemma metrics_keys:
  "set (bt_keys (fold (\<lambda>edge. bt_insert (ed_edge_id edge) (f edge)) es m)) = ed_edge_id ` set es \<union> set (bt_keys m)"
  by (induction es arbitrary: m) (auto simp: bt_keys_def set_bt_insert [simplified])

lemma wf_graph_edge_unique:
  "wf_graph g \<Longrightarrow> e \<in> set (gd_edges g) \<Longrightarrow> e' \<in> set (gd_edges g) \<Longrightarrow> ed_edge_id e = ed_edge_id e' \<Longrightarrow> e = e'"
  unfolding wf_graph_def by (metis option.inject)

lemma expected_policies_required:
  assumes wf: "wf_graph g" and en: "set en = ed_edge_id ` {e \<in> set (gd_edges g). edge_enabled g e}"
  shows "set (expected_policies g en) = required_policies g"
proof -
  have "ed_edge_id e \<in> set en \<longleftrightarrow> edge_enabled g e" if "e \<in> set (gd_edges g)" for e
    using wf_graph_edge_unique [OF wf that] that by (auto simp: en)
  then show ?thesis by (auto simp: required_policies_def expected_policies_def)
qed

lemma graph_runner_new_iff:
  assumes wf: "wf_graph g"
  shows "(\<exists>r :: ('v, 'w) graph_runner. graph_runner_new g nodes policies world = Inr r) \<longleftrightarrow>
    set nodes = (\<lambda>n. nd_node_id (nf_descriptor n)) ` set (gd_nodes g) \<and>
    list_all (condition_node_exists g) (gd_edges g) \<and> set policies = required_policies g"
    (is "?lhs \<longleftrightarrow> ?rhs")
proof
  assume ?lhs
  then obtain en where v: "validate_node_instances g nodes = Inr ()" "enabled_edges g = Inr en"
    "validate_edge_policies (expected_policies g en) policies = Inr ()"
    by (auto simp: graph_runner_new_def Let_def res_iff)
  from enable_fold [of g "[]"] v(2) have "list_all (condition_node_exists g) (gd_edges g)"
    and en: "set en = ed_edge_id ` {e \<in> set (gd_edges g). edge_enabled g e}"
    by (simp_all add: enabled_edges_step)
  with v show ?rhs
    by (simp add: validate_node_instances_iff validate_edge_policies_iff expected_policies_required [OF wf en])
next
  assume rhs: ?rhs
  then obtain en where en: "enabled_edges g = Inr en"
    using enable_fold_total [of g "gd_edges g" "[]"] by (auto simp: enabled_edges_step)
  with enable_fold [of g "[]"] have "set en = ed_edge_id ` {e \<in> set (gd_edges g). edge_enabled g e}"
    by (simp add: enabled_edges_step)
  note expected_policies_required [OF wf this]
  with rhs have "validate_node_instances g nodes = Inr ()"
    "validate_edge_policies (expected_policies g en) policies = Inr ()"
    by (simp_all add: validate_node_instances_iff validate_edge_policies_iff)
  with en show ?lhs by (simp add: graph_runner_new_def Let_def)
qed

lemma graph_runner_new_fresh:
  assumes wf: "wf_graph g" and new: "graph_runner_new g nodes policies world = Inr r"
  shows "fresh_runner r" "rn_graph r = g"
proof -
  from new obtain en where en: "enabled_edges g = Inr en"
    and r: "rn_graph r = g" "rn_nodes r = nodes" "rn_policies r = policies" "rn_enabled_edges r = en"
      "rn_routes r = fold add_route (gd_edges g) []"
      "rn_metrics r = fold (\<lambda>edge. bt_insert (ed_edge_id edge) (edge_metrics_zero (ed_edge_id edge) 0)) (gd_edges g) []"
      "rn_state r = RunReady" "rn_trace r = []" "rn_prepared r = []" "rn_aborted r = []"
    by (auto simp: graph_runner_new_def Let_def res_iff)
  have keys: "set nodes = (\<lambda>n. nd_node_id (nf_descriptor n)) ` set (gd_nodes g)" "set policies = required_policies g"
    using graph_runner_new_iff [OF wf, of nodes policies world] new by blast+
  from enable_fold [of g "[]"] en have "set en = ed_edge_id ` {e \<in> set (gd_edges g). edge_enabled g e}"
    by (simp add: enabled_edges_step)
  note policies = expected_policies_required [OF wf this]
  have "ed_edge_id e \<in> set policies"
    if "e \<in> set (gd_edges g)" "ed_edge_id e \<in> set en" "edge_uses_named_policy e" for e
    using that by (auto simp: keys(2) expected_policies_def simp flip: policies)
  moreover have "set nodes = set (gd_topological_order g)" using wf keys(1) by (simp add: wf_graph_def)
  moreover have "\<forall>u p ids i. bt_get (fold add_route (gd_edges g) []) (u, p) = Some ids \<longrightarrow> i \<in> set ids \<longrightarrow>
      (\<exists>e \<in> set (gd_edges g). ed_edge_id e = i \<and> ed_from_node_id e = u)"
    by (rule routes_fold) simp_all
  moreover have "set (bt_keys (rn_metrics r)) = ed_edge_id ` set (gd_edges g)"
    by (simp add: r metrics_keys) (simp add: bt_keys_def)
  ultimately have "wf_runner r" unfolding wf_runner_def using wf r by simp
  with r show "fresh_runner r" "rn_graph r = g" by (simp_all add: fresh_runner_def)
qed

section \<open>Properties\<close>

lemma built_graph_wf:
  "build (fold builder_step ops (builder_with_graph_id gid)) = Inr (Inr g) \<Longrightarrow> wf_graph g"
  by (rule build_wf_graph [OF builder.run_inv [OF wf_builder_with_graph_id]])

text \<open>
  C1. On every graph the builder accepts, and for every behaviour of the nodes and edge policies
  (including any number of emissions per call), a run returns: the work list always
  empties and no internal \<open>expect\<close> fails. The runner ends in \<open>Finished\<close> or \<open>Aborted\<close>
  according to the result, with its instances and resources released.
\<close>

theorem run_returns:
  assumes "build (fold builder_step ops (builder_with_graph_id gid)) = Inr (Inr g)"
    and "graph_runner_new g nodes policies world = Inr r"
  shows "\<exists>t res. run bh r = Some (t, res) \<and> res \<noteq> Inl RunExpect \<and>
           rn_state t = (case res of Inr _ \<Rightarrow> RunFinished | Inl _ \<Rightarrow> RunAborted) \<and>
           rn_nodes t = [] \<and> rn_policies t = [] \<and> rs_stopped (fst (rn_shared t))"
proof -
  have "fresh_runner r" by (rule graph_runner_new_fresh [OF built_graph_wf [OF assms(1)] assms(2)])
  then obtain t res where "run bh r = Some (t, res)" "res \<noteq> Inl RunExpect"
    "rn_state t = (case res of Inr _ \<Rightarrow> RunFinished | Inl _ \<Rightarrow> RunAborted)"
    "lifecycle_trace (rn_graph r) (\<not> isl res) (rn_trace t)"
    "rn_nodes t = [] \<and> rn_policies t = [] \<and> rs_stopped (fst (rn_shared t))"
    by (rule run_spec)
  then show ?thesis by blast
qed

text \<open>
  C2. The calls of a run follow the lifecycle protocol: preparation in topological order; on
  success only processing between the last preparation and the finishing calls in reverse
  order; when a preparation fails, exactly the nodes prepared before it are aborted, in
  reverse order; when processing or finishing fails, every node is aborted once, in
  reverse order, also the nodes already finished. Sources are processed without input, and
  every frame given to a node enters through an input port declared with its type.
\<close>

theorem run_follows_lifecycle:
  assumes "build (fold builder_step ops (builder_with_graph_id gid)) = Inr (Inr g)"
    and "graph_runner_new g nodes policies world = Inr r" and "run bh r = Some (t, res)"
  shows "lifecycle_trace g (\<not> isl res) (rn_trace t)"
proof -
  note r = graph_runner_new_fresh [OF built_graph_wf [OF assms(1)] assms(2)]
  obtain t' res' where "run bh r = Some (t', res')" "res' \<noteq> Inl RunExpect"
    "rn_state t' = (case res' of Inr _ \<Rightarrow> RunFinished | Inl _ \<Rightarrow> RunAborted)"
    "lifecycle_trace (rn_graph r) (\<not> isl res') (rn_trace t')"
    "rn_nodes t' = [] \<and> rn_policies t' = [] \<and> rs_stopped (fst (rn_shared t'))"
    by (rule run_spec [OF r(1)])
  with assms(3) r(2) show ?thesis by simp
qed

text \<open>
  C20. A runner is constructed for a built graph exactly when there is one instance per graph
  node and no other, every configuration condition names a node of the graph, and the
  policies are exactly those of the enabled edges that name one.
\<close>

theorem runner_construction:
  assumes "build (fold builder_step ops (builder_with_graph_id gid)) = Inr (Inr g)"
  shows "(\<exists>r :: ('v, 'w) graph_runner. graph_runner_new g nodes policies world = Inr r) \<longleftrightarrow>
    set nodes = (\<lambda>n. nd_node_id (nf_descriptor n)) ` set (gd_nodes g) \<and>
    list_all (condition_node_exists g) (gd_edges g) \<and> set policies = required_policies g"
  by (rule graph_runner_new_iff [OF built_graph_wf [OF assms]])

text \<open>
  A runner is single-use: after a run has returned, a second one calls no user code, leaves
  the runner as it is and reports the single-use error.
\<close>

lemma run_single_use:
  assumes "build (fold builder_step ops (builder_with_graph_id gid)) = Inr (Inr g)"
    and "graph_runner_new g nodes policies world = Inr r" and "run bh r = Some (t, res)"
  shows "run bh' t = Some (t, Inl (RunAbort single_use_error))"
proof -
  note r = graph_runner_new_fresh [OF built_graph_wf [OF assms(1)] assms(2)]
  obtain t' res' where "run bh r = Some (t', res')" "res' \<noteq> Inl RunExpect"
    "rn_state t' = (case res' of Inr _ \<Rightarrow> RunFinished | Inl _ \<Rightarrow> RunAborted)"
    "lifecycle_trace (rn_graph r) (\<not> isl res') (rn_trace t')"
    "rn_nodes t' = [] \<and> rn_policies t' = [] \<and> rs_stopped (fst (rn_shared t'))"
    by (rule run_spec [OF r(1)])
  with assms(3) have "rn_state t \<noteq> RunReady" by (cases res) simp_all
  then show ?thesis by (simp add: run_def)
qed

section \<open>Witnesses\<close>

text \<open>A source that emits one text frame into a sink.\<close>

definition example_behaviour :: "(unit, unit) behaviour" where
  "example_behaviour =
     \<lparr>bh_on_prepare = (\<lambda>_ cx sh. (sh, cx, Returned ())),
      bh_on_process = (\<lambda>n input cx sh.
        (sh, case input of None \<Rightarrow> fst (emit cx ''p'' example_text) | Some _ \<Rightarrow> cx, Returned ())),
      bh_on_finish = (\<lambda>_ cx sh. (sh, cx, Returned ())),
      bh_on_abort = (\<lambda>_ _ _ sh. (sh, None)),
      bh_validate = (\<lambda>_ _ _ sh. (sh, Returned DecisionAccept)),
      bh_transform = (\<lambda>_ f _ sh. (sh, Returned (Forward f))),
      bh_on_signal = (\<lambda>_ _ _ sh. (sh, Returned ())),
      bh_on_drop = (\<lambda>_ _ _ sh. (sh, Returned ()))\<rparr>"

definition example_graph :: graph_definition where
  "example_graph = \<lparr>gd_graph_id = ''g'',
     gd_nodes = [\<lparr>nf_descriptor = example_node ''a'' Source Output, nf_config = [], nf_factory = None\<rparr>,
                 \<lparr>nf_descriptor = example_node ''b'' Sink Input, nf_config = [], nf_factory = None\<rparr>],
     gd_edges = [example_edge ''e'' ''a'' ''b''], gd_topological_order = [''a'', ''b'']\<rparr>"

lemmas example_graph_build = example_build [folded example_graph_def]

definition example_runner :: "(unit, unit) graph_runner" where
  "example_runner =
     \<lparr>rn_graph = example_graph, rn_nodes = [''a'', ''b''], rn_policies = [],
      rn_routes = [((''a'', ''p''), [''e''])], rn_enabled_edges = [''e''],
      rn_metrics = [(''e'', edge_metrics_zero ''e'' 0)], rn_state = RunReady, rn_prepared = [],
      rn_aborted = [], rn_observed_signals = [], rn_abort_diagnostics = [], rn_bus_stopped = False,
      rn_shared = (resource_store_new, ()), rn_worklist = [], rn_trace = []\<rparr>"

lemma example_runner_new:
  "graph_runner_new example_graph [''a'', ''b''] [] () = Inr example_runner"
  by (simp add: graph_runner_new_def validate_node_instances_def validate_edge_policies_def
      expected_policies_def enabled_edges_def edge_is_enabled_def edge_uses_named_policy_def
      example_graph_def example_runner_def example_node_def example_edge_def add_route_def bt_get_def Let_def)

theorem run_returns_witness:
  "\<exists>t res. run example_behaviour example_runner = Some (t, res) \<and> res \<noteq> Inl RunExpect \<and>
     rn_nodes t = []"
  using run_returns [OF example_graph_build example_runner_new, of example_behaviour] by blast

theorem runner_construction_witness:
  "required_policies example_graph = {} \<and> list_all (condition_node_exists example_graph) (gd_edges example_graph)"
  using runner_construction [OF example_graph_build, of "[''a'', ''b'']" "[]" "()"] example_runner_new by auto

lemma example_run:
  obtains t res where "run example_behaviour example_runner = Some (t, res)"
proof -
  have "fresh_runner example_runner"
    by (rule graph_runner_new_fresh [OF built_graph_wf [OF example_graph_build] example_runner_new])
  then show thesis by (rule run_spec) (rule that)
qed

theorem run_follows_lifecycle_witness:
  "\<exists>t res. run example_behaviour example_runner = Some (t, res) \<and>
     lifecycle_trace example_graph (\<not> isl res) (rn_trace t)"
proof -
  obtain t res where r: "run example_behaviour example_runner = Some (t, res)" by (rule example_run)
  with run_follows_lifecycle [OF example_graph_build example_runner_new r] show ?thesis by blast
qed

lemma run_single_use_witness:
  "\<exists>t res. run example_behaviour example_runner = Some (t, res) \<and>
     run example_behaviour t = Some (t, Inl (RunAbort single_use_error))"
proof -
  obtain t res where r: "run example_behaviour example_runner = Some (t, res)" by (rule example_run)
  with run_single_use [OF example_graph_build example_runner_new r] show ?thesis by blast
qed

end
