(* ===== verification/Notifications.thy ===== *)
theory Notifications
  imports Services "HOL-Library.Multiset"
begin

text \<open>
  The notification bus (\<open>muxiva-core/src/notification_bus.rs\<close>): one bounded mailbox and one
  worker thread per subscriber. A worker record of the bus refers to its thread by the
  thread's position in \<open>nb_threads\<close>; the thread entry holds the channel, what the thread is
  doing and the metrics cell both sides share. Every critical section, and every step of a
  worker thread, is one function, so a sequence of them is an interleaving. Handlers are user
  code: how a call ends is an argument of the step that ends it.
\<close>

section \<open>Types\<close>

type_synonym event_frame = "event_data concrete_frame"
type_synonym subscription = u64

record subscriber_snapshot =
  ss_delivered :: u64
  ss_dropped_full :: u64
  ss_handler_errors :: u64
  ss_handler_panics :: u64

definition subscriber_snapshot_default :: subscriber_snapshot where
  "subscriber_snapshot_default =
     \<lparr>ss_delivered = 0, ss_dropped_full = 0, ss_handler_errors = 0, ss_handler_panics = 0\<rparr>"

datatype notification_bus_error = BusStopped | BusSpawn string

record publish_report =
  pr_matched :: usize
  pr_enqueued :: usize
  pr_dropped_full :: usize

definition publish_report_default :: publish_report where
  "publish_report_default = \<lparr>pr_matched = 0, pr_enqueued = 0, pr_dropped_full = 0\<rparr>"

record notification_bus_stop_report =
  sr_stopped_first :: bool
  sr_worker_total :: usize
  sr_unfinished :: "subscription list"

datatype handler_outcome = HandlerOk | HandlerErr | HandlerPanic

text \<open>
  A subscriber's channel and thread. \<open>th_topic\<close>, \<open>th_accepted\<close>, \<open>th_handled\<close> and
  \<open>th_refused\<close> are history variables: the subscribed topic, the events that entered the
  channel, the handler calls that have ended, and the number of events refused as full.
\<close>

record subscriber_thread =
  th_mailbox :: "event_frame list"
  th_connected :: bool
  th_current :: "event_frame option"
  th_finished :: bool
  th_metrics :: subscriber_snapshot
  th_topic :: namespaced_name
  th_accepted :: "event_frame list"
  th_handled :: "(event_frame \<times> handler_outcome) list"
  th_refused :: nat

definition thread_new :: "namespaced_name \<Rightarrow> subscriber_thread" where
  "thread_new topic =
     \<lparr>th_mailbox = [], th_connected = True, th_current = None, th_finished = False,
      th_metrics = subscriber_snapshot_default, th_topic = topic, th_accepted = [],
      th_handled = [], th_refused = 0\<rparr>"

record subscriber_worker =
  sw_id :: subscription
  sw_topic :: namespaced_name
  sw_sender :: bool
  sw_thread :: nat

text \<open>\<open>nb_pending\<close> holds the workers of \<open>subscribe\<close> calls that have not yet locked the state.\<close>

record notification_bus =
  nb_capacity :: usize
  nb_next_id :: u64
  nb_stopped :: bool
  nb_active :: "(subscription, subscriber_worker) btree"
  nb_retired :: "subscriber_worker list"
  nb_observations :: "(subscription, nat) btree"
  nb_threads :: "subscriber_thread list"
  nb_pending :: "subscriber_worker list"

definition notification_bus_new :: "usize \<Rightarrow> notification_bus" where
  "notification_bus_new capacity =
     \<lparr>nb_capacity = capacity, nb_next_id = 1, nb_stopped = False, nb_active = [], nb_retired = [],
      nb_observations = [], nb_threads = [], nb_pending = []\<rparr>"

definition notification_bus_default :: notification_bus where
  "notification_bus_default = notification_bus_new 64"

section \<open>Channels and threads\<close>

text \<open>Dropping the only sender.\<close>

definition thread_disconnect :: "subscriber_thread \<Rightarrow> subscriber_thread" where
  "thread_disconnect th = th\<lparr>th_connected := False\<rparr>"

text \<open>\<open>sync_channel\<close> of the given capacity; a finished thread has dropped the receiver.\<close>

datatype try_send_result = SendOk | SendFull | SendDisconnected

definition try_send :: "usize \<Rightarrow> event_frame \<Rightarrow> subscriber_thread \<Rightarrow> subscriber_thread \<times> try_send_result" where
  "try_send capacity event th =
     (if th_finished th then (th, SendDisconnected)
      else if capacity \<le> length (th_mailbox th) then (th, SendFull)
      else (th\<lparr>th_mailbox := th_mailbox th @ [event], th_accepted := th_accepted th @ [event]\<rparr>, SendOk))"

definition count_dropped :: "subscriber_thread \<Rightarrow> subscriber_thread" where
  "count_dropped th =
     th\<lparr>th_metrics := (th_metrics th)\<lparr>ss_dropped_full := sat_add64 (ss_dropped_full (th_metrics th)) 1\<rparr>,
        th_refused := th_refused th + 1\<rparr>"

text \<open>
  The thread of a subscriber: the head of \<open>for event in receiver\<close> takes an event, or ends the
  loop when the channel is empty and disconnected; the body calls the handler and counts.
\<close>

definition thread_receive :: "subscriber_thread \<Rightarrow> subscriber_thread" where
  "thread_receive th =
     (if th_finished th \<or> th_current th \<noteq> None then th
      else case th_mailbox th of
             event # rest \<Rightarrow> th\<lparr>th_mailbox := rest, th_current := Some event\<rparr>
           | [] \<Rightarrow> if th_connected th then th else th\<lparr>th_finished := True\<rparr>)"

fun count_outcome :: "handler_outcome \<Rightarrow> subscriber_snapshot \<Rightarrow> subscriber_snapshot" where
  "count_outcome HandlerOk m = m\<lparr>ss_delivered := sat_add64 (ss_delivered m) 1\<rparr>"
| "count_outcome HandlerErr m = m\<lparr>ss_handler_errors := sat_add64 (ss_handler_errors m) 1\<rparr>"
| "count_outcome HandlerPanic m = m\<lparr>ss_handler_panics := sat_add64 (ss_handler_panics m) 1\<rparr>"

definition thread_handle :: "handler_outcome \<Rightarrow> subscriber_thread \<Rightarrow> subscriber_thread" where
  "thread_handle outcome th =
     (case th_current th of
        None \<Rightarrow> th
      | Some event \<Rightarrow>
          th\<lparr>th_current := None, th_metrics := count_outcome outcome (th_metrics th),
             th_handled := th_handled th @ [(event, outcome)]\<rparr>)"

section \<open>Operations\<close>

definition update_thread ::
  "(subscriber_thread \<Rightarrow> subscriber_thread) \<Rightarrow> nat \<Rightarrow> subscriber_thread list \<Rightarrow> subscriber_thread list" where
  "update_thread f i threads = (if i < length threads then threads[i := f (threads ! i)] else threads)"

text \<open>\<open>sender.take()\<close>, and a worker that is dropped as a whole.\<close>

definition take_sender ::
  "subscriber_worker \<Rightarrow> subscriber_thread list \<Rightarrow> subscriber_worker \<times> subscriber_thread list" where
  "take_sender worker threads =
     (if sw_sender worker
      then (worker\<lparr>sw_sender := False\<rparr>, update_thread thread_disconnect (sw_thread worker) threads)
      else (worker, threads))"

text \<open>The first half of \<open>subscribe\<close>, before the lock: an identity and a thread, if one can be spawned.\<close>

definition subscribe_spawn ::
  "namespaced_name \<Rightarrow> bool \<Rightarrow> notification_bus \<Rightarrow>
     notification_bus \<times> (notification_bus_error + subscriber_worker)" where
  "subscribe_spawn topic spawned self =
     (let id = nb_next_id self;
          self = self\<lparr>nb_next_id := (id + 1) mod (u64_max + 1)\<rparr> in
      if \<not> spawned
      then (self, Inl (BusSpawn (''muxiva-notification-subscriber-'' @ nat_to_string id)))
      else (self\<lparr>nb_threads := nb_threads self @ [thread_new topic]\<rparr>,
            Inr \<lparr>sw_id = id, sw_topic = topic, sw_sender = True, sw_thread = length (nb_threads self)\<rparr>))"

text \<open>The second half, under the lock. A worker replaced in the map is dropped with its sender.\<close>

definition subscribe_commit ::
  "subscriber_worker \<Rightarrow> notification_bus \<Rightarrow> notification_bus \<times> (notification_bus_error + subscription)" where
  "subscribe_commit worker self =
     (if nb_stopped self
      then (self\<lparr>nb_threads := snd (take_sender worker (nb_threads self))\<rparr>, Inl BusStopped)
      else
        let replaced = (case bt_get (nb_active self) (sw_id worker) of
                          None \<Rightarrow> nb_threads self
                        | Some old \<Rightarrow> snd (take_sender old (nb_threads self))) in
        (self\<lparr>nb_observations := bt_insert (sw_id worker) (sw_thread worker) (nb_observations self),
              nb_active := bt_insert (sw_id worker) worker (nb_active self),
              nb_threads := replaced\<rparr>,
         Inr (sw_id worker)))"

definition subscribe ::
  "namespaced_name \<Rightarrow> bool \<Rightarrow> notification_bus \<Rightarrow> notification_bus \<times> (notification_bus_error + subscription)" where
  "subscribe topic spawned self =
     (case subscribe_spawn topic spawned self of
        (self, Inl e) \<Rightarrow> (self, Inl e)
      | (self, Inr worker) \<Rightarrow> subscribe_commit worker self)"

definition publish_one ::
  "usize \<Rightarrow> event_frame \<Rightarrow> subscriber_worker \<Rightarrow> subscriber_thread list \<times> publish_report \<Rightarrow>
     subscriber_thread list \<times> publish_report" where
  "publish_one capacity event worker st =
     (let (threads, report) = st; report = report\<lparr>pr_matched := pr_matched report + 1\<rparr> in
      if \<not> sw_sender worker then (threads, report)
      else
        case try_send capacity event (threads ! sw_thread worker) of
          (th, SendOk) \<Rightarrow>
            (threads[sw_thread worker := th], report\<lparr>pr_enqueued := pr_enqueued report + 1\<rparr>)
        | (th, SendFull) \<Rightarrow>
            (threads[sw_thread worker := count_dropped th],
             report\<lparr>pr_dropped_full := pr_dropped_full report + 1\<rparr>)
        | (th, SendDisconnected) \<Rightarrow> (threads, report))"

definition matching_workers :: "event_frame \<Rightarrow> notification_bus \<Rightarrow> subscriber_worker list" where
  "matching_workers event self =
     filter (\<lambda>worker. sw_topic worker = ed_topic (cf_data event)) (bt_values (nb_active self))"

definition publish ::
  "event_frame \<Rightarrow> notification_bus \<Rightarrow> notification_bus \<times> (notification_bus_error + publish_report)" where
  "publish event self =
     (if nb_stopped self then (self, Inl BusStopped)
      else
        case fold (publish_one (nb_capacity self) event) (matching_workers event self)
               (nb_threads self, publish_report_default) of
          (threads, report) \<Rightarrow> (self\<lparr>nb_threads := threads\<rparr>, Inr report))"

definition unsubscribe :: "subscription \<Rightarrow> notification_bus \<Rightarrow> notification_bus \<times> bool" where
  "unsubscribe sub self =
     (case bt_get (nb_active self) sub of
        None \<Rightarrow> (self, False)
      | Some worker \<Rightarrow>
          (case take_sender worker (nb_threads self) of
             (worker, threads) \<Rightarrow>
               (self\<lparr>nb_active := bt_remove sub (nb_active self),
                     nb_retired := nb_retired self @ [worker], nb_threads := threads\<rparr>, True)))"

definition subscriber_snapshot_of :: "subscription \<Rightarrow> notification_bus \<Rightarrow> subscriber_snapshot option" where
  "subscriber_snapshot_of sub self =
     (case bt_get (nb_observations self) sub of
        None \<Rightarrow> None
      | Some i \<Rightarrow> Some (th_metrics (nb_threads self ! i)))"

fun retire_all ::
  "subscriber_worker list \<Rightarrow> subscriber_worker list \<times> subscriber_thread list \<Rightarrow>
     subscriber_worker list \<times> subscriber_thread list" where
  "retire_all [] st = st"
| "retire_all (worker # workers) (retired, threads) =
     (case take_sender worker threads of
        (worker, threads) \<Rightarrow> retire_all workers (retired @ [worker], threads))"

definition request_stop :: "notification_bus \<Rightarrow> notification_bus \<times> bool" where
  "request_stop self =
     (case retire_all (bt_values (nb_active self)) (nb_retired self, nb_threads self) of
        (retired, threads) \<Rightarrow>
          (self\<lparr>nb_stopped := True, nb_active := [], nb_retired := retired, nb_threads := threads\<rparr>,
           \<not> nb_stopped self))"

text \<open>
  \<open>stop\<close> first requests the stop, then takes the retired workers under a second lock, and
  finally waits for each thread's completion message until the deadline; \<open>received\<close> says for
  which threads \<open>recv_timeout\<close> returned one.
\<close>

definition stop_take :: "notification_bus \<Rightarrow> notification_bus \<times> subscriber_worker list" where
  "stop_take self =
     (case retire_all (nb_retired self) ([], nb_threads self) of
        (workers, threads) \<Rightarrow> (self\<lparr>nb_retired := [], nb_threads := threads\<rparr>, workers))"

definition stop_report ::
  "bool \<Rightarrow> subscriber_worker list \<Rightarrow> (nat \<Rightarrow> bool) \<Rightarrow> notification_bus_stop_report" where
  "stop_report stopped_first workers received =
     \<lparr>sr_stopped_first = stopped_first, sr_worker_total = length workers,
      sr_unfinished = map sw_id (filter (\<lambda>worker. \<not> received (sw_thread worker)) workers)\<rparr>"

definition bus_stop ::
  "(nat \<Rightarrow> bool) \<Rightarrow> notification_bus \<Rightarrow> notification_bus \<times> notification_bus_stop_report" where
  "bus_stop received self =
     (case request_stop self of
        (self, stopped_first) \<Rightarrow>
          (case stop_take self of
             (self, workers) \<Rightarrow> (self, stop_report stopped_first workers received)))"

section \<open>Interleavings\<close>

datatype bus_op =
    BSpawn namespaced_name bool
  | BCommit nat
  | BPublish event_frame
  | BUnsubscribe subscription
  | BRequestStop
  | BStopTake
  | BReceive nat
  | BHandle nat handler_outcome

text \<open>\<open>BCommit n\<close> lets the \<open>n\<close>-th pending \<open>subscribe\<close> call take the lock.\<close>

fun bus_step :: "bus_op \<Rightarrow> notification_bus \<Rightarrow> notification_bus" where
  "bus_step (BSpawn topic spawned) self =
     (case subscribe_spawn topic spawned self of
        (self, Inl e) \<Rightarrow> self
      | (self, Inr worker) \<Rightarrow> self\<lparr>nb_pending := nb_pending self @ [worker]\<rparr>)"
| "bus_step (BCommit n) self =
     (if length (nb_pending self) \<le> n then self
      else fst (subscribe_commit (nb_pending self ! n)
             (self\<lparr>nb_pending := take n (nb_pending self) @ drop (Suc n) (nb_pending self)\<rparr>)))"
| "bus_step (BPublish event) self = fst (publish event self)"
| "bus_step (BUnsubscribe sub) self = fst (unsubscribe sub self)"
| "bus_step BRequestStop self = fst (request_stop self)"
| "bus_step BStopTake self = fst (stop_take self)"
| "bus_step (BReceive i) self = self\<lparr>nb_threads := update_thread thread_receive i (nb_threads self)\<rparr>"
| "bus_step (BHandle i outcome) self =
     self\<lparr>nb_threads := update_thread (thread_handle outcome) i (nb_threads self)\<rparr>"

section \<open>One subscriber\<close>

definition outcome_count :: "handler_outcome \<Rightarrow> (event_frame \<times> handler_outcome) list \<Rightarrow> nat" where
  "outcome_count outcome calls = length (filter (\<lambda>c. snd c = outcome) calls)"

text \<open>What holds of a subscriber's channel and thread at every moment.\<close>

definition thread_ok :: "usize \<Rightarrow> subscriber_thread \<Rightarrow> bool" where
  "thread_ok capacity th \<longleftrightarrow>
     length (th_mailbox th) \<le> capacity \<and>
     th_accepted th = map fst (th_handled th) @
       (case th_current th of None \<Rightarrow> [] | Some e \<Rightarrow> [e]) @ th_mailbox th \<and>
     list_all (\<lambda>e. ed_topic (cf_data e) = th_topic th) (th_accepted th) \<and>
     th_metrics th =
       \<lparr>ss_delivered = min (outcome_count HandlerOk (th_handled th)) u64_max,
        ss_dropped_full = min (th_refused th) u64_max,
        ss_handler_errors = min (outcome_count HandlerErr (th_handled th)) u64_max,
        ss_handler_panics = min (outcome_count HandlerPanic (th_handled th)) u64_max\<rparr> \<and>
     (th_finished th \<longrightarrow> \<not> th_connected th \<and> th_mailbox th = [] \<and> th_current th = None)"

lemma sat_count_Suc: "sat_add64 (min n u64_max) (Suc 0) = min (Suc n) u64_max"
  by (simp add: sat_add64_def)

lemma outcome_count_snoc [simp]:
  "outcome_count o' (calls @ [(e, r)]) = (if r = o' then Suc (outcome_count o' calls) else outcome_count o' calls)"
  "outcome_count o' [] = 0"
  by (simp_all add: outcome_count_def)

lemma thread_ok_new [simp]: "thread_ok c (thread_new topic)"
  by (simp add: thread_ok_def thread_new_def subscriber_snapshot_default_def)

lemma thread_ok_disconnect [simp]: "thread_ok c th \<Longrightarrow> thread_ok c (thread_disconnect th)"
  by (auto simp: thread_ok_def thread_disconnect_def)

lemma thread_ok_receive [simp]: "thread_ok c th \<Longrightarrow> thread_ok c (thread_receive th)"
  by (auto simp: thread_ok_def thread_receive_def split: list.splits option.splits)

lemma thread_ok_handle [simp]: "thread_ok c th \<Longrightarrow> thread_ok c (thread_handle r th)"
  by (cases r) (auto simp: thread_ok_def thread_handle_def sat_count_Suc split: option.splits)

lemma thread_ok_dropped [simp]: "thread_ok c th \<Longrightarrow> thread_ok c (count_dropped th)"
  by (auto simp: thread_ok_def count_dropped_def sat_count_Suc)

text \<open>What a publication does to one matching subscriber.\<close>

definition offer :: "usize \<Rightarrow> event_frame \<Rightarrow> subscriber_thread \<Rightarrow> subscriber_thread" where
  "offer capacity event th =
     (if th_finished th then th
      else if capacity \<le> length (th_mailbox th) then count_dropped th
      else th\<lparr>th_mailbox := th_mailbox th @ [event], th_accepted := th_accepted th @ [event]\<rparr>)"

lemma thread_ok_offer:
  "thread_ok c th \<Longrightarrow> ed_topic (cf_data e) = th_topic th \<Longrightarrow> thread_ok c (offer c e th)"
  using thread_ok_dropped by (auto simp: offer_def) (auto simp: thread_ok_def)

lemma thread_fields [simp]:
  "th_connected (offer c e th) = th_connected th" "th_topic (offer c e th) = th_topic th"
  "th_finished (offer c e th) = th_finished th"
  "th_connected (thread_receive th) = th_connected th" "th_topic (thread_receive th) = th_topic th"
  "th_connected (thread_handle r th) = th_connected th" "th_topic (thread_handle r th) = th_topic th"
  "th_connected (thread_disconnect th) = False" "th_topic (thread_disconnect th) = th_topic th"
  "th_accepted (thread_receive th) = th_accepted th" "th_accepted (thread_handle r th) = th_accepted th"
  "th_accepted (thread_disconnect th) = th_accepted th"
  by (simp_all add: offer_def count_dropped_def thread_receive_def thread_handle_def
      thread_disconnect_def split: list.splits option.splits)

section \<open>The bus\<close>

text \<open>
  The threads the bus can still reach through a sender: those of active and pending workers.
  No two of these workers share a thread, and every connected thread belongs to one of them.
\<close>

definition live_workers :: "notification_bus \<Rightarrow> subscriber_worker list" where
  "live_workers s = bt_values (nb_active s) @ nb_pending s"

definition wf_bus :: "notification_bus \<Rightarrow> bool" where
  "wf_bus s \<longleftrightarrow>
     bt_inv (nb_active s) \<and>
     (nb_stopped s \<longrightarrow> nb_active s = []) \<and>
     distinct (map sw_thread (live_workers s)) \<and>
     list_all (\<lambda>w. sw_sender w \<and> sw_thread w < length (nb_threads s) \<and>
        th_connected (nb_threads s ! sw_thread w) \<and> th_topic (nb_threads s ! sw_thread w) = sw_topic w)
       (live_workers s) \<and>
     (\<forall>i < length (nb_threads s). th_connected (nb_threads s ! i) \<longrightarrow> i \<in> set (map sw_thread (live_workers s))) \<and>
     list_all (thread_ok (nb_capacity s)) (nb_threads s) \<and>
     list_all (\<lambda>w. \<not> sw_sender w) (nb_retired s)"

lemma length_update_thread [simp]: "length (update_thread f i ts) = length ts"
  by (simp add: update_thread_def)

lemma nth_update_thread [simp]:
  "j < length ts \<Longrightarrow> update_thread f i ts ! j = (if i = j then f (ts ! j) else ts ! j)"
  by (simp add: update_thread_def)

lemma list_all_update_thread:
  "list_all P ts \<Longrightarrow> (\<And>th. P th \<Longrightarrow> P (f th)) \<Longrightarrow> list_all P (update_thread f i ts)"
  by (auto simp: list_all_length)

text \<open>A publication reaches the threads of the matching workers, each exactly once.\<close>

lemma publish_fold:
  assumes "distinct (map sw_thread ws)"
    and "\<forall>w \<in> set ws. sw_sender w \<and> sw_thread w < length ts \<and> \<not> th_finished (ts ! sw_thread w)"
  shows "fold (publish_one c e) ws (ts, r) =
    (map (\<lambda>i. if i \<in> sw_thread ` set ws then offer c e (ts ! i) else ts ! i) [0..<length ts],
     \<lparr>pr_matched = pr_matched r + length ws,
      pr_enqueued = pr_enqueued r + length (filter (\<lambda>w. length (th_mailbox (ts ! sw_thread w)) < c) ws),
      pr_dropped_full = pr_dropped_full r + length (filter (\<lambda>w. c \<le> length (th_mailbox (ts ! sw_thread w))) ws)\<rparr>)"
  using assms
proof (induction ws arbitrary: ts r)
  case Nil
  then show ?case by (simp add: map_nth)
next
  case (Cons w ws)
  let ?i = "sw_thread w"
  let ?ts = "ts[?i := offer c e (ts ! ?i)]"
  let ?full = "c \<le> length (th_mailbox (ts ! ?i))"
  let ?r = "\<lparr>pr_matched = pr_matched r + 1, pr_enqueued = pr_enqueued r + (if ?full then 0 else 1),
     pr_dropped_full = pr_dropped_full r + (if ?full then 1 else 0)\<rparr>"
  have step: "publish_one c e w (ts, r) = (?ts, ?r)"
    using Cons.prems(2) by (simp add: publish_one_def try_send_def offer_def)
  have other: "?ts ! sw_thread v = ts ! sw_thread v" if "v \<in> set ws" for v
    using Cons.prems(1) that by (metis image_eqI list.set_map distinct.simps(2) list.simps(9) nth_list_update_neq)
  have "filter (\<lambda>v. length (th_mailbox (?ts ! sw_thread v)) < c) ws =
      filter (\<lambda>v. length (th_mailbox (ts ! sw_thread v)) < c) ws"
    "filter (\<lambda>v. c \<le> length (th_mailbox (?ts ! sw_thread v))) ws =
      filter (\<lambda>v. c \<le> length (th_mailbox (ts ! sw_thread v))) ws"
    using other by (auto intro: filter_cong)
  moreover have "map (\<lambda>i. if i \<in> sw_thread ` set ws then offer c e (?ts ! i) else ?ts ! i) [0..<length ?ts] =
      map (\<lambda>i. if i \<in> sw_thread ` set (w # ws) then offer c e (ts ! i) else ts ! i) [0..<length ts]"
    using Cons.prems by (auto simp: nth_list_update)
  ultimately show ?case
    using Cons.IH [of ?ts ?r] Cons.prems other by (simp add: step)
qed

text \<open>Steps of the threads and publications keep who owns which thread.\<close>

lemma wf_bus_threads:
  assumes "wf_bus s" and "length ts = length (nb_threads s)"
    and "\<And>i. i < length ts \<Longrightarrow> th_connected (ts ! i) = th_connected (nb_threads s ! i) \<and>
       th_topic (ts ! i) = th_topic (nb_threads s ! i) \<and> thread_ok (nb_capacity s) (ts ! i)"
  shows "wf_bus (s\<lparr>nb_threads := ts\<rparr>)"
  using assms by (auto simp: wf_bus_def live_workers_def list_all_iff in_set_conv_nth)

lemma wf_bus_thread_ok: "wf_bus s \<Longrightarrow> i < length (nb_threads s) \<Longrightarrow> thread_ok (nb_capacity s) (nb_threads s ! i)"
  by (simp add: wf_bus_def list_all_length)

lemma matching_worker_facts:
  assumes "wf_bus s" and "w \<in> set (matching_workers e s)"
  shows "sw_sender w" "sw_thread w < length (nb_threads s)" "\<not> th_finished (nb_threads s ! sw_thread w)"
    "th_topic (nb_threads s ! sw_thread w) = ed_topic (cf_data e)"
proof -
  from assms(2) have w: "w \<in> set (live_workers s)" "sw_topic w = ed_topic (cf_data e)"
    by (auto simp: matching_workers_def live_workers_def)
  with assms(1) show len: "sw_thread w < length (nb_threads s)" and "sw_sender w"
    and "th_topic (nb_threads s ! sw_thread w) = ed_topic (cf_data e)"
    by (auto simp: wf_bus_def list_all_iff)
  from w assms(1) have "th_connected (nb_threads s ! sw_thread w)"
    by (auto simp: wf_bus_def list_all_iff)
  with wf_bus_thread_ok [OF assms(1) len] show "\<not> th_finished (nb_threads s ! sw_thread w)"
    by (auto simp: thread_ok_def)
qed

lemma matching_workers_distinct: "wf_bus s \<Longrightarrow> distinct (map sw_thread (matching_workers e s))"
  by (simp add: wf_bus_def live_workers_def matching_workers_def distinct_map_filter)

lemma publish_eq:
  assumes "wf_bus s" and "\<not> nb_stopped s"
  shows "publish e s =
    (s\<lparr>nb_threads := map (\<lambda>i. if i \<in> sw_thread ` set (matching_workers e s)
         then offer (nb_capacity s) e (nb_threads s ! i) else nb_threads s ! i) [0..<length (nb_threads s)]\<rparr>,
     Inr \<lparr>pr_matched = length (matching_workers e s),
          pr_enqueued = length (filter (\<lambda>w. length (th_mailbox (nb_threads s ! sw_thread w)) < nb_capacity s)
            (matching_workers e s)),
          pr_dropped_full = length (filter (\<lambda>w. nb_capacity s \<le> length (th_mailbox (nb_threads s ! sw_thread w)))
            (matching_workers e s))\<rparr>)"
proof -
  have "\<forall>w \<in> set (matching_workers e s). sw_sender w \<and> sw_thread w < length (nb_threads s) \<and>
      \<not> th_finished (nb_threads s ! sw_thread w)"
    using matching_worker_facts [OF assms(1)] by blast
  from publish_fold [OF matching_workers_distinct [OF assms(1)] this] assms(2)
  show ?thesis by (simp add: publish_def publish_report_default_def)
qed

lemma wf_bus_publish: "wf_bus s \<Longrightarrow> wf_bus (fst (publish e s))"
proof (cases "nb_stopped s")
  case False
  assume wf: "wf_bus s"
  let ?I = "sw_thread ` set (matching_workers e s)"
  let ?ts = "map (\<lambda>i. if i \<in> ?I then offer (nb_capacity s) e (nb_threads s ! i) else nb_threads s ! i)
    [0..<length (nb_threads s)]"
  have "wf_bus (s\<lparr>nb_threads := ?ts\<rparr>)"
  proof (rule wf_bus_threads [OF wf])
    fix i
    assume "i < length ?ts"
    then have i: "i < length (nb_threads s)" by simp
    have "thread_ok (nb_capacity s) (offer (nb_capacity s) e (nb_threads s ! i))" if "i \<in> ?I"
      using that wf_bus_thread_ok [OF wf i] matching_worker_facts(4) [OF wf] by (auto intro!: thread_ok_offer)
    with i wf_bus_thread_ok [OF wf i]
    show "th_connected (?ts ! i) = th_connected (nb_threads s ! i) \<and>
      th_topic (?ts ! i) = th_topic (nb_threads s ! i) \<and> thread_ok (nb_capacity s) (?ts ! i)"
      by simp
  qed simp
  then show ?thesis by (simp add: publish_eq [OF wf False])
qed (simp add: publish_def)

lemma wf_bus_update_thread:
  assumes "wf_bus s" and "\<And>th. th_connected (f th) = th_connected th" and "\<And>th. th_topic (f th) = th_topic th"
    and "\<And>th. thread_ok (nb_capacity s) th \<Longrightarrow> thread_ok (nb_capacity s) (f th)"
  shows "wf_bus (s\<lparr>nb_threads := update_thread f i (nb_threads s)\<rparr>)"
  using assms wf_bus_thread_ok [OF assms(1)] by (intro wf_bus_threads) auto

text \<open>Retiring workers disconnects exactly their threads.\<close>

definition disconnect_all :: "nat set \<Rightarrow> subscriber_thread list \<Rightarrow> subscriber_thread list" where
  "disconnect_all I ts = map (\<lambda>i. if i \<in> I then thread_disconnect (ts ! i) else ts ! i) [0..<length ts]"

lemma length_disconnect_all [simp]: "length (disconnect_all I ts) = length ts"
  by (simp add: disconnect_all_def)

lemma nth_disconnect_all [simp]:
  "i < length ts \<Longrightarrow> disconnect_all I ts ! i = (if i \<in> I then thread_disconnect (ts ! i) else ts ! i)"
  by (simp add: disconnect_all_def)

lemma take_sender_live:
  "sw_sender w \<Longrightarrow> sw_thread w < length ts \<Longrightarrow>
     take_sender w ts = (w\<lparr>sw_sender := False\<rparr>, disconnect_all {sw_thread w} ts)"
  by (auto simp: take_sender_def intro: nth_equalityI)

lemma retire_all_eq:
  assumes "\<forall>w \<in> set ws. sw_sender w \<and> sw_thread w < length ts"
  shows "retire_all ws (retired, ts) =
    (retired @ map (\<lambda>w. w\<lparr>sw_sender := False\<rparr>) ws, disconnect_all (sw_thread ` set ws) ts)"
  using assms
proof (induction ws arbitrary: retired ts)
  case Nil
  then show ?case by (auto intro: nth_equalityI)
next
  case (Cons w ws)
  have "thread_disconnect (thread_disconnect th) = thread_disconnect th" for th
    by (simp add: thread_disconnect_def)
  then have "disconnect_all (sw_thread ` set ws) (disconnect_all {sw_thread w} ts) =
      disconnect_all (sw_thread ` set (w # ws)) ts"
    by (intro nth_equalityI) auto
  with Cons show ?case by (simp add: take_sender_live)
qed

lemma retire_all_retired:
  "\<forall>w \<in> set ws. \<not> sw_sender w \<Longrightarrow> retire_all ws (retired, ts) = (retired @ ws, ts)"
  by (induction ws arbitrary: retired) (auto simp: take_sender_def)

text \<open>Every operation that gives up senders splits the live workers and disconnects the rest.\<close>

lemma wf_bus_disconnect:
  assumes wf: "wf_bus s" and "bt_inv (nb_active t)" and "nb_stopped t \<longrightarrow> nb_active t = []"
    and split: "mset (live_workers s) = mset (live_workers t) + mset ws"
    and ts: "nb_threads t = disconnect_all (sw_thread ` set ws) (nb_threads s)"
    and "nb_capacity t = nb_capacity s" and "list_all (\<lambda>w. \<not> sw_sender w) (nb_retired t)"
  shows "wf_bus t"
proof -
  have "distinct (map sw_thread (live_workers t @ ws))"
  proof -
    have "mset (map sw_thread (live_workers t @ ws)) = mset (map sw_thread (live_workers s))"
      using split by simp
    moreover have "distinct (map sw_thread (live_workers s))" using wf by (simp add: wf_bus_def)
    ultimately show ?thesis by (metis mset_eq_imp_distinct_iff)
  qed
  then have dis: "distinct (map sw_thread (live_workers t))"
    "\<And>w. w \<in> set (live_workers t) \<Longrightarrow> sw_thread w \<notin> sw_thread ` set ws"
    by auto
  have live: "set (live_workers s) = set (live_workers t) \<union> set ws"
    using split by (metis set_mset_mset set_mset_union)
  have "\<forall>i < length (nb_threads t). th_connected (nb_threads t ! i) \<longrightarrow> i \<in> set (map sw_thread (live_workers t))"
    using wf live by (auto simp: wf_bus_def ts)
  moreover have "list_all (thread_ok (nb_capacity t)) (nb_threads t)"
    using wf assms(6) by (auto simp: wf_bus_def ts list_all_length)
  moreover have "list_all (\<lambda>w. sw_sender w \<and> sw_thread w < length (nb_threads t) \<and>
        th_connected (nb_threads t ! sw_thread w) \<and> th_topic (nb_threads t ! sw_thread w) = sw_topic w)
       (live_workers t)"
    using wf live dis(2) by (auto simp: wf_bus_def ts list_all_iff)
  ultimately show ?thesis using assms dis(1) by (simp add: wf_bus_def)
qed

lemma bt_values_insert:
  "bt_inv m \<Longrightarrow> mset (bt_values (bt_insert k v m)) + (case bt_get m k of None \<Rightarrow> {#} | Some w \<Rightarrow> {#w#}) =
     add_mset v (mset (bt_values m))"
proof (induction k v m rule: bt_insert.induct)
  case (2 k v l w m)
  then have "bt_inv m" by (simp add: bt_inv_def)
  moreover have "bt_get m k = None" if "k < l"
    using 2(2) that by (auto simp: bt_inv_def bt_get_None bt_keys_def)
  ultimately show ?case using 2 by (auto simp: bt_values_def bt_get_def split: option.splits)
qed (simp add: bt_values_def)

lemma bt_values_remove:
  "bt_inv m \<Longrightarrow> bt_get m k = Some w \<Longrightarrow> mset (bt_values m) = add_mset w (mset (bt_values (bt_remove k m)))"
proof (induction m)
  case (Cons e m)
  have "bt_inv m" using Cons.prems(1) by (simp add: bt_inv_def)
  moreover have "bt_remove k m = m" if "k = fst e"
    using Cons.prems(1) that by (auto simp: bt_inv_def bt_remove_def filter_id_conv)
  ultimately show ?case using Cons by (cases e) (auto simp: bt_values_def bt_get_def bt_remove_def simp del: mset_filter)
qed simp

lemma wf_bus_live:
  "wf_bus s \<Longrightarrow> w \<in> set (live_workers s) \<Longrightarrow> sw_sender w \<and> sw_thread w < length (nb_threads s)"
  by (simp add: wf_bus_def list_all_iff)

lemma active_live: "bt_get (nb_active s) k = Some w \<Longrightarrow> w \<in> set (live_workers s)"
  by (force simp: live_workers_def bt_values_def bt_get_def dest: map_of_SomeD)

lemma disconnect_none [simp]: "disconnect_all {} ts = ts"
  by (auto intro: nth_equalityI)

lemma bt_remove_Nil [simp]: "bt_remove k [] = []"
  by (simp add: bt_remove_def)

lemma wf_bus_unsubscribe:
  assumes wf: "wf_bus s"
  shows "wf_bus (fst (unsubscribe k s))"
proof (cases "bt_get (nb_active s) k")
  case (Some w)
  note w = wf_bus_live [OF wf active_live [OF Some]]
  have "bt_inv (nb_active s)" using wf by (simp add: wf_bus_def)
  with Some wf show ?thesis
    by (intro wf_bus_disconnect [OF wf, where ws = "[w]"])
       (auto simp: unsubscribe_def take_sender_live w live_workers_def bt_values_remove bt_inv_remove
          wf_bus_def)
qed (use wf in \<open>simp add: unsubscribe_def\<close>)

lemma wf_bus_request_stop:
  assumes wf: "wf_bus s"
  shows "wf_bus (fst (request_stop s))"
proof -
  have "\<forall>w \<in> set (bt_values (nb_active s)). sw_sender w \<and> sw_thread w < length (nb_threads s)"
    using wf_bus_live [OF wf] by (simp add: live_workers_def)
  from retire_all_eq [OF this] wf show ?thesis
    by (intro wf_bus_disconnect [OF wf, where ws = "bt_values (nb_active s)"])
       (auto simp: request_stop_def live_workers_def bt_values_def wf_bus_def list_all_iff)
qed

lemma stop_take_eq:
  "wf_bus s \<Longrightarrow> stop_take s = (s\<lparr>nb_retired := []\<rparr>, nb_retired s)"
  using retire_all_retired [of "nb_retired s" "[]" "nb_threads s"]
  by (simp add: stop_take_def wf_bus_def list_all_iff)

lemma wf_bus_stop_take: "wf_bus s \<Longrightarrow> wf_bus (fst (stop_take s))"
  by (simp add: stop_take_eq) (simp add: wf_bus_def live_workers_def)

lemma wf_bus_spawn: "wf_bus s \<Longrightarrow> wf_bus (bus_step (BSpawn topic spawned) s)"
  by (fastforce simp: wf_bus_def subscribe_spawn_def live_workers_def list_all_iff nth_append thread_new_def
      thread_ok_new [unfolded thread_new_def] less_Suc_eq Let_def)

lemma wf_bus_commit:
  assumes wf: "wf_bus s"
  shows "wf_bus (bus_step (BCommit n) s)"
proof (cases "n < length (nb_pending s)")
  case True
  let ?w = "nb_pending s ! n"
  let ?rest = "take n (nb_pending s) @ drop (Suc n) (nb_pending s)"
  have pending: "mset (nb_pending s) = add_mset ?w (mset ?rest)"
    using id_take_nth_drop [OF True] by (metis mset_append mset.simps(2) union_mset_add_mset_right)
  have "?w \<in> set (live_workers s)" using True by (simp add: live_workers_def)
  note w = wf_bus_live [OF wf this]
  have inv: "bt_inv (nb_active s)" using wf by (simp add: wf_bus_def)
  show ?thesis
  proof (cases "nb_stopped s")
    case stopped: True
    with True wf pending show ?thesis
      by (intro wf_bus_disconnect [OF wf, where ws = "[?w]"])
         (auto simp: subscribe_commit_def take_sender_live w live_workers_def wf_bus_def)
  next
    case running: False
    define ws where "ws = (case bt_get (nb_active s) (sw_id ?w) of None \<Rightarrow> [] | Some old \<Rightarrow> [old])"
    have ws: "sw_sender v \<and> sw_thread v < length (nb_threads s)" if "v \<in> set ws" for v
      using that wf_bus_live [OF wf] active_live by (auto simp: ws_def split: option.splits)
    let ?t = "bus_step (BCommit n) s"
    have "mset (live_workers s) = mset (live_workers ?t) + mset ws"
      using True running pending bt_values_insert [OF inv, of "sw_id ?w" ?w]
      by (auto simp: live_workers_def subscribe_commit_def ws_def Let_def split: option.splits)
    moreover have "nb_threads ?t = disconnect_all (sw_thread ` set ws) (nb_threads s)"
      using True running ws
      by (auto simp: subscribe_commit_def ws_def Let_def take_sender_live split: option.splits)
    ultimately show ?thesis
      using True running wf inv
      by (intro wf_bus_disconnect [OF wf]) (auto simp: subscribe_commit_def Let_def bt_inv_insert wf_bus_def)
  qed
qed (use wf in simp)

interpretation bus: guarded_system bus_step wf_bus
proof unfold_locales
  fix s a
  assume wf: "wf_bus s"
  then show "wf_bus (bus_step a s)"
  proof (cases a)
    case (BSpawn topic spawned)
    with wf_bus_spawn [OF wf] show ?thesis by simp
  next
    case (BCommit n)
    with wf_bus_commit [OF wf] show ?thesis by simp
  qed (use wf in \<open>simp_all add: wf_bus_publish wf_bus_unsubscribe wf_bus_request_stop wf_bus_stop_take
         wf_bus_update_thread\<close>)
qed

lemma wf_bus_new: "wf_bus (notification_bus_new capacity)"
  by (simp add: wf_bus_def notification_bus_new_def live_workers_def bt_values_def)

lemma bus_step_capacity [simp]: "nb_capacity (bus_step a s) = nb_capacity s"
  by (cases a) (auto simp: subscribe_spawn_def subscribe_commit_def publish_def unsubscribe_def request_stop_def
      stop_take_def Let_def split: option.splits prod.splits)

lemma bus_run_capacity [simp]: "nb_capacity (fold bus_step ops s) = nb_capacity s"
  by (induction ops arbitrary: s) simp_all

text \<open>Once stopped, nothing enters a mailbox.\<close>

lemma wf_bus_stopped_accepted:
  assumes "wf_bus s" and "nb_stopped s" and "i < length (nb_threads s)"
  shows "nb_stopped (bus_step a s)" "length (nb_threads s) \<le> length (nb_threads (bus_step a s))"
    "th_accepted (nb_threads (bus_step a s) ! i) = th_accepted (nb_threads s ! i)"
    "nb_active (bus_step a s) = []"
proof -
  have none: "nb_active s = []" using assms by (simp add: wf_bus_def)
  show "nb_stopped (bus_step a s)" "length (nb_threads s) \<le> length (nb_threads (bus_step a s))"
    "th_accepted (nb_threads (bus_step a s) ! i) = th_accepted (nb_threads s ! i)"
    "nb_active (bus_step a s) = []"
    using assms(2,3) none stop_take_eq [OF assms(1)]
    by (cases a; auto simp: subscribe_spawn_def subscribe_commit_def publish_def unsubscribe_def
      request_stop_def take_sender_def bt_values_def nth_append Let_def)+
qed

lemma bus_stopped_run:
  assumes "wf_bus s" and "nb_stopped s" and "i < length (nb_threads s)"
  shows "nb_stopped (fold bus_step ops s) \<and> i < length (nb_threads (fold bus_step ops s)) \<and>
    th_accepted (nb_threads (fold bus_step ops s) ! i) = th_accepted (nb_threads s ! i)"
  using assms
proof (induction ops arbitrary: s)
  case (Cons a ops)
  note st = wf_bus_stopped_accepted [OF Cons.prems, of a]
  from st(2) Cons.prems(3) have "i < length (nb_threads (bus_step a s))" by simp
  from Cons.IH [OF bus.step_inv [OF Cons.prems(1)] st(1) this] st(3) show ?case by simp
qed simp

text \<open>A disconnected subscriber whose thread keeps running ends after its queued events.\<close>

fun thread_rounds :: "handler_outcome list \<Rightarrow> subscriber_thread \<Rightarrow> subscriber_thread" where
  "thread_rounds [] th = th"
| "thread_rounds (r # rs) th = thread_rounds rs (thread_receive (thread_handle r th))"

lemma thread_rounds_facts [simp]: "th_accepted (thread_rounds rs th) = th_accepted th"
  by (induction rs arbitrary: th) simp_all

lemma thread_rounds_ok: "thread_ok c th \<Longrightarrow> thread_ok c (thread_rounds rs th)"
  by (induction rs arbitrary: th) simp_all

lemma thread_rounds_finish:
  assumes "\<not> th_connected th" and "length (th_mailbox th) < length rs"
  shows "th_finished (thread_rounds rs th)"
  using assms
proof (induction rs arbitrary: th)
  case (Cons r rs)
  let ?th = "thread_receive (thread_handle r th)"
  have stays: "th_finished th \<Longrightarrow> th_finished (thread_rounds rs th)" for th
  proof (induction rs arbitrary: th)
    case (Cons r rs)
    then show ?case by (simp add: thread_receive_def thread_handle_def split: option.splits)
  qed simp
  show ?case
  proof (cases "th_mailbox th = []")
    case True
    then have "th_finished ?th"
      using Cons.prems by (auto simp: thread_receive_def thread_handle_def split: option.splits)
    with stays show ?thesis by simp
  next
    case False
    then have "th_finished ?th \<or> length (th_mailbox ?th) < length rs"
      using Cons.prems
      by (auto simp: thread_receive_def thread_handle_def split: option.splits list.splits)
    with stays Cons.IH [of ?th] Cons.prems(1) show ?thesis by auto
  qed
qed simp

definition thread_schedule :: "nat \<Rightarrow> handler_outcome list \<Rightarrow> bus_op list" where
  "thread_schedule i rs = concat (map (\<lambda>r. [BHandle i r, BReceive i]) rs)"

lemma thread_schedule_run:
  "i < length (nb_threads s) \<Longrightarrow>
     nb_threads (fold bus_step (thread_schedule i rs) s) ! i = thread_rounds rs (nb_threads s ! i)"
proof (induction rs arbitrary: s)
  case (Cons r rs)
  let ?s = "bus_step (BReceive i) (bus_step (BHandle i r) s)"
  have "fold bus_step (thread_schedule i (r # rs)) s = fold bus_step (thread_schedule i rs) ?s"
    by (simp add: thread_schedule_def)
  with Cons.IH [of ?s] Cons.prems show ?case by simp
qed (simp add: thread_schedule_def)

section \<open>Properties\<close>

text \<open>
  C22. For every interleaving of subscriptions, publications, removals, stops and worker
  steps, each subscriber's mailbox stays within the bus capacity; the events accepted for it
  are those its handler has finished, the one it is running and the queued ones, in order, so
  none is lost, duplicated or reordered; all carry its topic; and its metrics are the exact
  numbers of successful, failed and panicked handler calls and of events refused as full, up
  to the range of the counters.
\<close>

theorem notification_delivery:
  "list_all (\<lambda>th.
      length (th_mailbox th) \<le> capacity \<and>
      th_accepted th = map fst (th_handled th) @
        (case th_current th of None \<Rightarrow> [] | Some e \<Rightarrow> [e]) @ th_mailbox th \<and>
      list_all (\<lambda>e. ed_topic (cf_data e) = th_topic th) (th_accepted th) \<and>
      th_metrics th =
        \<lparr>ss_delivered = min (outcome_count HandlerOk (th_handled th)) u64_max,
         ss_dropped_full = min (th_refused th) u64_max,
         ss_handler_errors = min (outcome_count HandlerErr (th_handled th)) u64_max,
         ss_handler_panics = min (outcome_count HandlerPanic (th_handled th)) u64_max\<rparr>)
     (nb_threads (fold bus_step ops (notification_bus_new capacity)))"
proof -
  have "wf_bus (fold bus_step ops (notification_bus_new capacity))"
    by (rule bus.run_inv [OF wf_bus_new])
  then have "list_all (thread_ok capacity) (nb_threads (fold bus_step ops (notification_bus_new capacity)))"
    by (simp add: wf_bus_def notification_bus_new_def)
  then show ?thesis by (simp add: list_all_iff thread_ok_def)
qed

text \<open>
  C24. After any interleaving, a publication on a running bus reports as matched exactly the
  active subscribers of the event's topic, and every one of them as either enqueued or
  dropped. A matching subscriber with room gets the event once, at the end of its mailbox; a
  matching full one is only counted; and no other subscriber is touched.
\<close>

theorem publish_exact:
  assumes s: "s = fold bus_step ops (notification_bus_new capacity)"
    and "\<not> nb_stopped s"
  shows "\<exists>t report. publish e s = (t, Inr report) \<and>
     pr_matched report = length (matching_workers e s) \<and>
     pr_matched report = pr_enqueued report + pr_dropped_full report \<and>
     length (nb_threads t) = length (nb_threads s) \<and>
     (\<forall>i < length (nb_threads s).
        nb_threads t ! i =
          (if i \<notin> sw_thread ` set (matching_workers e s) then nb_threads s ! i
           else if length (th_mailbox (nb_threads s ! i)) < capacity
           then (nb_threads s ! i)\<lparr>th_mailbox := th_mailbox (nb_threads s ! i) @ [e],
                                    th_accepted := th_accepted (nb_threads s ! i) @ [e]\<rparr>
           else count_dropped (nb_threads s ! i)))"
proof -
  have wf: "wf_bus s" unfolding s by (rule bus.run_inv [OF wf_bus_new])
  have cap: "nb_capacity s = capacity" by (simp add: s notification_bus_new_def)
  have "length ws = length (filter (\<lambda>w. length (th_mailbox (nb_threads s ! sw_thread w)) < capacity) ws) +
      length (filter (\<lambda>w. capacity \<le> length (th_mailbox (nb_threads s ! sw_thread w))) ws)" for ws
    by (induction ws) auto
  moreover have "\<not> th_finished (nb_threads s ! i)" if "i \<in> sw_thread ` set (matching_workers e s)" for i
    using that matching_worker_facts(3) [OF wf] by auto
  ultimately show ?thesis
    using publish_eq [OF wf assms(2), of e] cap by (auto simp: offer_def)
qed

text \<open>
  C23. Stopping is final and loses nothing: once stopped, publications and pending
  subscriptions fail, no later step of anyone adds an event to a mailbox, and a subscriber
  whose sender is gone, when its thread runs as many rounds as it has queued events and one
  more, ends with every accepted event handled in order.
\<close>

theorem notification_stop_drains:
  assumes s: "s = fold bus_step ops (notification_bus_new capacity)"
    and stopped: "nb_stopped s" and i: "i < length (nb_threads s)"
    and pending: "i \<notin> set (map sw_thread (nb_pending s))"
    and rs: "length (th_mailbox (nb_threads s ! i)) < length rs"
  shows "publish e s = (s, Inl BusStopped) \<and> snd (subscribe_commit w s) = Inl BusStopped \<and>
     th_accepted (nb_threads (fold bus_step later s) ! i) = th_accepted (nb_threads s ! i) \<and>
     (let th = nb_threads (fold bus_step (thread_schedule i rs) s) ! i in
      th_finished th \<and> map fst (th_handled th) = th_accepted (nb_threads s ! i))"
proof -
  have wf: "wf_bus s" unfolding s by (rule bus.run_inv [OF wf_bus_new])
  have "\<not> th_connected (nb_threads s ! i)"
    using wf stopped i pending by (auto simp: wf_bus_def live_workers_def bt_values_def)
  note finish = thread_rounds_finish [OF this rs] thread_rounds_ok [OF wf_bus_thread_ok [OF wf i], of rs]
  have "publish e s = (s, Inl BusStopped)" "snd (subscribe_commit w s) = Inl BusStopped"
    using stopped by (simp_all add: publish_def subscribe_commit_def)
  moreover have "th_accepted (nb_threads (fold bus_step later s) ! i) = th_accepted (nb_threads s ! i)"
    using bus_stopped_run [OF wf stopped i] by blast
  ultimately show ?thesis
    unfolding thread_schedule_run [OF i] using finish by (simp add: thread_ok_def)
qed

section \<open>Witnesses\<close>

definition example_event :: "namespaced_name \<Rightarrow> event_frame" where
  "example_event topic =
     \<lparr>cf_header = (header example_text)\<lparr>fh_frame_type := TyEvent\<rparr>,
      cf_data = \<lparr>ed_topic = topic, ed_schema_version = 1, ed_source = ''n'', ed_payload = VNull\<rparr>\<rparr>"

text \<open>Subscribers of two topics with mailboxes of one event, and two publications.\<close>

definition example_bus_ops :: "bus_op list" where
  "example_bus_ops =
     [BSpawn ''a.b'' True, BCommit 0, BSpawn ''a.c'' True, BCommit 0,
      BPublish (example_event ''a.b''), BReceive 0, BPublish (example_event ''a.b'')]"

lemmas bus_eval = example_bus_ops_def example_event_def notification_bus_new_def subscribe_spawn_def
  subscribe_commit_def publish_def publish_one_def matching_workers_def try_send_def thread_new_def
  update_thread_def thread_receive_def request_stop_def take_sender_def bt_values_def bt_get_def
  publish_report_default_def u64_max_def

lemma example_bus_running:
  "\<not> nb_stopped (fold bus_step example_bus_ops (notification_bus_new 1))"
  "length (matching_workers (example_event ''a.c'') (fold bus_step example_bus_ops (notification_bus_new 1))) = 1"
  by (simp_all add: bus_eval)

theorem publish_exact_witness:
  "\<exists>t report. publish (example_event ''a.c'')
      (fold bus_step example_bus_ops (notification_bus_new 1)) = (t, Inr report) \<and>
     pr_matched report = 1 \<and> pr_enqueued report + pr_dropped_full report = 1"
  using publish_exact [OF refl example_bus_running(1), of "example_event ''a.c''"] example_bus_running(2)
  by auto

definition example_stopped_bus :: notification_bus where
  "example_stopped_bus = fold bus_step (example_bus_ops @ [BRequestStop]) (notification_bus_new 1)"

lemma example_bus_stopped:
  "nb_stopped example_stopped_bus" "length (nb_threads example_stopped_bus) = 2"
  "nb_pending example_stopped_bus = []" "length (th_mailbox (nb_threads example_stopped_bus ! 0)) = 1"
  by (simp_all add: bus_eval example_stopped_bus_def thread_disconnect_def)

theorem notification_stop_drains_witness:
  "th_finished (nb_threads (fold bus_step (thread_schedule 0 [HandlerOk, HandlerPanic]) example_stopped_bus) ! 0)"
  using notification_stop_drains [OF example_stopped_bus_def example_bus_stopped(1),
      of 0 "[HandlerOk, HandlerPanic]" "example_event ''a.b''" "nb_retired example_stopped_bus ! 0" "[]"]
  by (simp add: example_bus_stopped Let_def)

end
