(* ===== verification/Foreign.thy ===== *)
theory Foreign
  imports Nodes Notifications
begin

text \<open>
  The bounded command and completion gate of foreign node domains
  (\<open>muxiva-core/src/foreign.rs\<close>). Every method locks the driver's mutex once and is one
  function here, so a sequence of operations is an interleaving of the graph worker, the
  foreign domain and the shutdown owner. Instants and durations are nanoseconds; the wait
  for drained work is one decision per wake-up.
\<close>

section \<open>Configuration\<close>

datatype foreign_ordering = Strict | Unordered

record foreign_driver_config =
  fc_command_capacity :: usize
  fc_command_byte_capacity :: usize
  fc_completion_capacity :: usize
  fc_completion_byte_capacity :: usize
  fc_max_in_flight :: usize
  fc_per_call_deadline :: nat
  fc_shutdown_deadline :: nat
  fc_ordering :: foreign_ordering

datatype foreign_driver_error =
    CapacityTooLarge
  | ByteCapacityTooLarge
  | ZeroDeadline
  | DeadlineTooLarge
  | DuplicateSequence
  | StrictSequenceGap

definition foreign_config_default :: foreign_driver_config where
  "foreign_config_default =
     \<lparr>fc_command_capacity = 16, fc_command_byte_capacity = 1048576, fc_completion_capacity = 16,
      fc_completion_byte_capacity = 1048576, fc_max_in_flight = 1, fc_per_call_deadline = 10000000000,
      fc_shutdown_deadline = 5000000000, fc_ordering = Strict\<rparr>"

definition foreign_config_validate :: "foreign_driver_config \<Rightarrow> foreign_driver_error + unit" where
  "foreign_config_validate self =
     (if \<exists>capacity \<in> {fc_command_capacity self, fc_completion_capacity self, fc_max_in_flight self}.
           65536 < capacity \<or> 4096 < fc_max_in_flight self
      then Inl CapacityTooLarge
      else if 67108864 < fc_command_byte_capacity self \<or> 67108864 < fc_completion_byte_capacity self
      then Inl ByteCapacityTooLarge
      else if fc_per_call_deadline self = 0 \<or> fc_shutdown_deadline self = 0 then Inl ZeroDeadline
      else if 3600000000000 < fc_per_call_deadline self \<or> 3600000000000 < fc_shutdown_deadline self
      then Inl DeadlineTooLarge
      else Inr ())"

section \<open>Commands and completions\<close>

datatype foreign_command_kind =
    FcPrepare
  | FcProcessSource
  | FcProcess frame
  | FcProcessOnPort frame port_name
  | FcSignal signal_frame
  | FcEvent event_frame
  | FcFinish
  | FcCancel
  | FcAbort abort_reason
  | FcStop

record foreign_command =
  fo_sequence :: u64
  fo_kind :: foreign_command_kind

record foreign_completion_emission =
  fe_output_port :: port_name
  fe_frame :: frame

datatype foreign_completion_kind =
    FcSuccess "frame list" "foreign_completion_emission list" "signal_frame list" "event_frame list"
  | FcFailure abort_reason

record foreign_completion =
  fp_sequence :: u64
  fp_kind :: foreign_completion_kind

datatype foreign_submit_outcome = SubmitAccepted | SubmitFull | SubmitClosed | SubmitCancelled

datatype foreign_completion_outcome =
    CompletionAccepted | CompletionFull | CompletionClosed | CompletionLateDiscarded

definition foreign_command_new :: "u64 \<Rightarrow> foreign_command_kind \<Rightarrow> foreign_command" where
  "foreign_command_new sequence kind = \<lparr>fo_sequence = sequence, fo_kind = kind\<rparr>"

definition completion_success ::
  "u64 \<Rightarrow> frame list \<Rightarrow> signal_frame list \<Rightarrow> event_frame list \<Rightarrow> foreign_completion" where
  "completion_success sequence frames signals events =
     \<lparr>fp_sequence = sequence, fp_kind = FcSuccess frames [] signals events\<rparr>"

definition completion_success_with_emissions ::
  "u64 \<Rightarrow> foreign_completion_emission list \<Rightarrow> signal_frame list \<Rightarrow> event_frame list \<Rightarrow> foreign_completion" where
  "completion_success_with_emissions sequence emissions signals events =
     \<lparr>fp_sequence = sequence, fp_kind = FcSuccess [] emissions signals events\<rparr>"

definition completion_failure :: "u64 \<Rightarrow> abort_reason \<Rightarrow> foreign_completion" where
  "completion_failure sequence reason = \<lparr>fp_sequence = sequence, fp_kind = FcFailure reason\<rparr>"

text \<open>Owned sizes, with saturating sums.\<close>

fun value_bytes :: "val \<Rightarrow> usize" where
  "value_bytes VNull = 8"
| "value_bytes (VBool _) = 8"
| "value_bytes (VInteger _) = 8"
| "value_bytes (VFloat _) = 8"
| "value_bytes (VString s) = length s"
| "value_bytes (VBytes b) = length b"
| "value_bytes (VList vs) = foldl sat_add64 8 (map value_bytes vs)"
| "value_bytes (VMap kvs) = foldl sat_add64 8 (map (\<lambda>(k, v). sat_add64 (length k) (value_bytes v)) kvs)"

fun payload_bytes :: "frame \<Rightarrow> usize" where
  "payload_bytes (FAudio f) = length (ad_buffer (cf_data f))"
| "payload_bytes (FVideo f) = length (vd_buffer (cf_data f))"
| "payload_bytes (FText f) = length (cf_data f)"
| "payload_bytes (FByte f) = length (bd_buffer (cf_data f))"
| "payload_bytes (FSignal f) = value_bytes (sd_payload (cf_data f))"
| "payload_bytes (FEvent f) = value_bytes (ed_payload (cf_data f))"

definition frame_bytes :: "frame \<Rightarrow> usize" where
  "frame_bytes frame =
     sat_add64 (payload_bytes frame)
       (foldl sat_add64 64
          (map (\<lambda>(key, v). sat_add64 (length key) (value_bytes v)) (fh_metadata (header frame)) @
           map (\<lambda>ext. sat_add64 (length (ext_key ext)) (value_bytes (ext_value ext)))
             (fh_extensions (header frame))))"

definition signal_bytes :: "signal_frame \<Rightarrow> usize" where
  "signal_bytes frame =
     sat_add64 (sat_add64 (sat_add64 64 (length (sd_name (cf_data frame)))) (length (sd_source (cf_data frame))))
       (value_bytes (sd_payload (cf_data frame)))"

definition event_bytes :: "event_frame \<Rightarrow> usize" where
  "event_bytes frame =
     sat_add64 (sat_add64 (sat_add64 64 (length (ed_topic (cf_data frame)))) (length (ed_source (cf_data frame))))
       (value_bytes (ed_payload (cf_data frame)))"

definition reason_bytes :: "abort_reason \<Rightarrow> usize" where
  "reason_bytes reason =
     min (max (sat_add64 (length (ar_code (ab_root reason))) (length (ar_message (ab_root reason)))) 1) 256"

fun command_kind_bytes :: "foreign_command_kind \<Rightarrow> usize" where
  "command_kind_bytes (FcProcess frame) = frame_bytes frame"
| "command_kind_bytes (FcProcessOnPort frame _) = frame_bytes frame"
| "command_kind_bytes (FcSignal frame) = signal_bytes frame"
| "command_kind_bytes (FcEvent frame) = event_bytes frame"
| "command_kind_bytes (FcAbort reason) = reason_bytes reason"
| "command_kind_bytes _ = 1"

definition command_bytes :: "foreign_command \<Rightarrow> usize" where
  "command_bytes command = command_kind_bytes (fo_kind command)"

definition completion_bytes :: "foreign_completion \<Rightarrow> usize" where
  "completion_bytes completion =
     (case fp_kind completion of
        FcSuccess frames emissions signals events \<Rightarrow>
          foldl sat_add64 1 (map frame_bytes frames @ map (\<lambda>e. frame_bytes (fe_frame e)) emissions @
            map signal_bytes signals @ map event_bytes events)
      | FcFailure reason \<Rightarrow> reason_bytes reason)"

definition fits :: "usize \<Rightarrow> usize \<Rightarrow> usize \<Rightarrow> bool" where
  "fits current addition capacity =
     (case checked_add64 current addition of None \<Rightarrow> False | Some n \<Rightarrow> n \<le> capacity)"

section \<open>The driver's state\<close>

record queued_command =
  qc_command :: foreign_command
  qc_bytes :: usize

record queued_completion =
  qp_completion :: foreign_completion
  qp_bytes :: usize

record live_command =
  lv_deadline :: nat
  lv_dispatched :: bool
  lv_cancelled :: bool
  lv_completion_received :: bool

record foreign_driver =
  fd_config :: foreign_driver_config
  fd_stop :: stop_state
  fd_commands :: "queued_command list"
  fd_command_bytes :: usize
  fd_controls :: "foreign_command list"
  fd_ready :: "queued_completion list"
  fd_ready_bytes :: usize
  fd_ordered :: "(u64, queued_completion) btree"
  fd_ordered_bytes :: usize
  fd_live :: "(u64, live_command) btree"
  fd_strict_order :: "u64 list"
  fd_last_strict_sequence :: "u64 option"
  fd_accepting :: bool
  fd_stopping :: bool
  fd_abort_reason :: "abort_reason option"
  fd_abort_taken :: bool
  fd_late_completion_total :: u64
  fd_cancellation_total :: u64

definition foreign_driver_new :: "foreign_driver_config \<Rightarrow> foreign_driver_error + foreign_driver" where
  "foreign_driver_new config =
     res_bind (foreign_config_validate config) (\<lambda>_.
       Inr \<lparr>fd_config = config, fd_stop = stop_token_new, fd_commands = [], fd_command_bytes = 0,
            fd_controls = [], fd_ready = [], fd_ready_bytes = 0, fd_ordered = [], fd_ordered_bytes = 0,
            fd_live = [], fd_strict_order = [], fd_last_strict_sequence = None, fd_accepting = True,
            fd_stopping = False, fd_abort_reason = None, fd_abort_taken = False,
            fd_late_completion_total = 0, fd_cancellation_total = 0\<rparr>)"

text \<open>Removal of the first occurrence from the order of submission.\<close>

definition remove_sequence :: "u64 list \<Rightarrow> u64 \<Rightarrow> u64 list" where
  "remove_sequence order sequence = remove1 sequence order"

definition forget_live :: "u64 \<Rightarrow> foreign_driver \<Rightarrow> foreign_driver" where
  "forget_live sequence st =
     st\<lparr>fd_live := bt_remove sequence (fd_live st),
        fd_strict_order := remove_sequence (fd_strict_order st) sequence\<rparr>"

definition foreign_abort :: "string \<Rightarrow> string \<Rightarrow> abort_reason" where
  "foreign_abort code message =
     \<lparr>ab_category = AbortForeignException, ab_node_id = None, ab_stage = StageRuntime,
      ab_root = \<lparr>ar_code = code, ar_message = message, ar_details = []\<rparr>\<rparr>"

text \<open>The loop over the live calls: cancel each once, with a control command and a count.\<close>

fun cancel_live ::
  "(u64, live_command) btree \<Rightarrow> foreign_command list \<Rightarrow> u64
     \<Rightarrow> (u64, live_command) btree \<times> foreign_command list \<times> u64" where
  "cancel_live [] controls total' = ([], controls, total')"
| "cancel_live ((sequence, live) # rest) controls total' =
     (if lv_cancelled live
      then (let (rest', controls', n) = cancel_live rest controls total' in
            ((sequence, live) # rest', controls', n))
      else (let (rest', controls', n) =
                  cancel_live rest (controls @ [foreign_command_new sequence FcCancel]) (sat_add64 total' 1) in
            ((sequence, live\<lparr>lv_cancelled := True\<rparr>) # rest', controls', n)))"

definition fail_locked :: "foreign_driver \<Rightarrow> abort_reason \<Rightarrow> foreign_driver" where
  "fail_locked st reason =
     (let reason' = (case fd_abort_reason st of None \<Rightarrow> reason | Some r \<Rightarrow> r);
          undispatched = map fst (filter (\<lambda>(_, live). \<not> lv_dispatched live) (fd_live st));
          commands = filter (\<lambda>queued. fo_sequence (qc_command queued) \<notin> set undispatched) (fd_commands st);
          live = fold bt_remove undispatched (fd_live st);
          order = foldl remove_sequence (fd_strict_order st) undispatched;
          (live', controls, n) = cancel_live live (fd_controls st) (fd_cancellation_total st) in
      st\<lparr>fd_accepting := False, fd_stopping := True, fd_stop := fst (cancel (fd_stop st)),
         fd_abort_reason := Some reason', fd_commands := commands,
         fd_command_bytes := sum_list (map qc_bytes commands),
         fd_live := live', fd_strict_order := order, fd_cancellation_total := n,
         fd_controls := controls @ [foreign_command_new (u64_max - 1) (FcAbort reason'),
                                    foreign_command_new u64_max FcStop],
         fd_ready := [], fd_ready_bytes := 0, fd_ordered := [], fd_ordered_bytes := 0\<rparr>)"

function promote_strict :: "foreign_driver \<Rightarrow> foreign_driver" where
  "promote_strict st =
     (case fd_strict_order st of
        [] \<Rightarrow> st
      | sequence # _ \<Rightarrow>
          (case bt_get (fd_ordered st) sequence of
             None \<Rightarrow> st
           | Some queued \<Rightarrow>
               promote_strict (st\<lparr>fd_ordered := bt_remove sequence (fd_ordered st),
                                  fd_ordered_bytes := fd_ordered_bytes st - qp_bytes queued,
                                  fd_ready_bytes := sat_add64 (fd_ready_bytes st) (qp_bytes queued),
                                  fd_ready := fd_ready st @ [queued]\<rparr>)))"
  by pat_completeness auto
termination
  by (relation "measure (\<lambda>st. length (fd_ordered st))") (auto dest: bt_remove_shorter)

declare promote_strict.simps [simp del]

section \<open>Operations\<close>

definition submit_sequence_ok :: "foreign_driver \<Rightarrow> u64 \<Rightarrow> bool" where
  "submit_sequence_ok st sequence =
     (case fd_last_strict_sequence st of
        None \<Rightarrow> True
      | Some previous \<Rightarrow>
          sequence = (case checked_add64 previous 1 of None \<Rightarrow> previous | Some n \<Rightarrow> n))"

definition try_submit ::
  "foreign_driver \<Rightarrow> foreign_command \<Rightarrow> nat \<Rightarrow> foreign_driver \<times> (foreign_driver_error + foreign_submit_outcome)" where
  "try_submit st command now =
     (let bytes = command_bytes command; sequence = fo_sequence command; config = fd_config st in
      if fd_stopping st then (st, Inr SubmitClosed)
      else if is_cancelled (fd_stop st) then (st, Inr SubmitCancelled)
      else if \<not> fd_accepting st then (st, Inr SubmitClosed)
      else if bt_get (fd_live st) sequence \<noteq> None then (st, Inl DuplicateSequence)
      else if fc_ordering config = Strict \<and> \<not> submit_sequence_ok st sequence
      then (st, Inl StrictSequenceGap)
      else
        let st = (if fc_ordering config = Strict
                  then st\<lparr>fd_last_strict_sequence := Some sequence\<rparr> else st) in
        if length (fd_live st) = fc_max_in_flight config \<or>
           length (fd_commands st) = fc_command_capacity config \<or>
           \<not> fits (fd_command_bytes st) bytes (fc_command_byte_capacity config)
        then (st, Inr SubmitFull)
        else
          (st\<lparr>fd_commands := fd_commands st @ [\<lparr>qc_command = command, qc_bytes = bytes\<rparr>],
              fd_command_bytes := sat_add64 (fd_command_bytes st) bytes,
              fd_live := bt_insert sequence
                \<lparr>lv_deadline = now + fc_per_call_deadline config, lv_dispatched = False,
                 lv_cancelled = False, lv_completion_received = False\<rparr> (fd_live st),
              fd_strict_order := (if fc_ordering config = Strict then fd_strict_order st @ [sequence]
                                  else fd_strict_order st)\<rparr>,
           Inr SubmitAccepted))"

definition try_receive :: "foreign_driver \<Rightarrow> foreign_driver \<times> foreign_command option" where
  "try_receive st =
     (case fd_controls st of
        control # controls \<Rightarrow> (st\<lparr>fd_controls := controls\<rparr>, Some control)
      | [] \<Rightarrow>
          (case fd_commands st of
             [] \<Rightarrow> (st, None)
           | queued # commands \<Rightarrow>
               let sequence = fo_sequence (qc_command queued) in
               (st\<lparr>fd_commands := commands, fd_command_bytes := fd_command_bytes st - qc_bytes queued,
                   fd_live := (case bt_get (fd_live st) sequence of
                                 None \<Rightarrow> fd_live st
                               | Some live \<Rightarrow> bt_set sequence (live\<lparr>lv_dispatched := True\<rparr>) (fd_live st))\<rparr>,
                Some (qc_command queued))))"

definition count_late :: "foreign_driver \<Rightarrow> foreign_driver" where
  "count_late st = st\<lparr>fd_late_completion_total := sat_add64 (fd_late_completion_total st) 1\<rparr>"

text \<open>The two stores of accepted completions, and the mark on the live call.\<close>

definition store_ready :: "foreign_driver \<Rightarrow> foreign_completion \<Rightarrow> foreign_driver" where
  "store_ready st c =
     st\<lparr>fd_ready_bytes := sat_add64 (fd_ready_bytes st) (completion_bytes c),
        fd_ready := fd_ready st @ [\<lparr>qp_completion = c, qp_bytes = completion_bytes c\<rparr>]\<rparr>"

definition store_ordered :: "foreign_driver \<Rightarrow> foreign_completion \<Rightarrow> foreign_driver" where
  "store_ordered st c =
     st\<lparr>fd_ordered_bytes := sat_add64 (fd_ordered_bytes st) (completion_bytes c),
        fd_ordered := bt_insert (fp_sequence c) \<lparr>qp_completion = c, qp_bytes = completion_bytes c\<rparr> (fd_ordered st)\<rparr>"

definition mark_received :: "foreign_driver \<Rightarrow> u64 \<Rightarrow> live_command \<Rightarrow> foreign_driver" where
  "mark_received st sequence live = st\<lparr>fd_live := bt_set sequence (live\<lparr>lv_completion_received := True\<rparr>) (fd_live st)\<rparr>"

definition accept_completion :: "foreign_driver \<Rightarrow> foreign_completion \<Rightarrow> live_command \<Rightarrow> foreign_driver" where
  "accept_completion st completion live =
     (let st = mark_received st (fp_sequence completion) live in
      case fc_ordering (fd_config st) of
        Unordered \<Rightarrow> store_ready st completion
      | Strict \<Rightarrow> promote_strict (store_ordered st completion))"

definition try_complete :: "foreign_driver \<Rightarrow> foreign_completion \<Rightarrow> foreign_driver \<times> foreign_completion_outcome" where
  "try_complete st completion =
     (let bytes = completion_bytes completion; sequence = fp_sequence completion; config = fd_config st in
      case bt_get (fd_live st) sequence of
        None \<Rightarrow> if fd_stopping st then (st, CompletionClosed) else (count_late st, CompletionLateDiscarded)
      | Some live \<Rightarrow>
          if lv_cancelled live \<or> fd_stopping st \<or> is_cancelled (fd_stop st)
          then (forget_live sequence (count_late st), CompletionLateDiscarded)
          else if lv_completion_received live then (count_late st, CompletionLateDiscarded)
          else
            (case fp_kind completion of
               FcFailure reason \<Rightarrow> (fail_locked (forget_live sequence st) reason, CompletionAccepted)
             | FcSuccess _ _ _ _ \<Rightarrow>
                 if length (fd_ready st) + length (fd_ordered st) = fc_completion_capacity config \<or>
                    \<not> fits (sat_add64 (fd_ready_bytes st) (fd_ordered_bytes st)) bytes
                        (fc_completion_byte_capacity config)
                 then (st, CompletionFull)
                 else (accept_completion st completion live, CompletionAccepted)))"

definition try_take_completion :: "foreign_driver \<Rightarrow> foreign_driver \<times> foreign_completion option" where
  "try_take_completion st =
     (case fd_ready st of
        [] \<Rightarrow> (st, None)
      | queued # ready \<Rightarrow>
          let st = forget_live (fp_sequence (qp_completion queued))
                     (st\<lparr>fd_ready := ready, fd_ready_bytes := fd_ready_bytes st - qp_bytes queued\<rparr>) in
          (if fc_ordering (fd_config st) = Strict then promote_strict st else st,
           Some (qp_completion queued)))"

definition expired_sequences :: "foreign_driver \<Rightarrow> nat \<Rightarrow> u64 list" where
  "expired_sequences st now = map fst (filter (\<lambda>(_, live). lv_deadline live \<le> now) (fd_live st))"

definition expire_deadlines :: "foreign_driver \<Rightarrow> nat \<Rightarrow> foreign_driver \<times> usize" where
  "expire_deadlines st now =
     (let expired = expired_sequences st now in
      if expired = [] then (st, 0)
      else
        let st = fail_locked st (foreign_abort ''MUXIVA-FOREIGN-DEADLINE'' ''foreign call deadline elapsed'') in
        (st\<lparr>fd_cancellation_total := sat_add64 (fd_cancellation_total st) (length expired)\<rparr>, length expired))"

definition begin_stop :: "foreign_driver \<Rightarrow> abort_reason \<Rightarrow> foreign_driver \<times> bool" where
  "begin_stop st reason = (if fd_stopping st then (st, False) else (fail_locked st reason, True))"

definition begin_graceful_stop :: "foreign_driver \<Rightarrow> foreign_driver \<times> bool" where
  "begin_graceful_stop st =
     (if fd_stopping st \<or> fd_live st \<noteq> [] then (st, False)
      else (st\<lparr>fd_accepting := False, fd_stopping := True, fd_stop := fst (cancel (fd_stop st)),
               fd_controls := fd_controls st @ [foreign_command_new u64_max FcStop]\<rparr>, True))"

definition take_abort_reason :: "foreign_driver \<Rightarrow> foreign_driver \<times> abort_reason option" where
  "take_abort_reason st =
     (if fd_abort_taken st then (st, None)
      else (case fd_abort_reason st of
              None \<Rightarrow> (st, None)
            | Some reason \<Rightarrow> (st\<lparr>fd_abort_taken := True\<rparr>, Some reason)))"

definition acknowledge_cancel :: "foreign_driver \<Rightarrow> u64 \<Rightarrow> foreign_driver \<times> bool" where
  "acknowledge_cancel st sequence =
     (case bt_get (fd_live st) sequence of
        None \<Rightarrow> (st, False)
      | Some live \<Rightarrow> if \<not> lv_cancelled live then (st, False) else (forget_live sequence st, True))"

record foreign_shutdown_diagnostics =
  sg_live_sequences :: "u64 list"
  sg_queued_command_count :: usize
  sg_queued_completion_count :: usize

definition foreign_diagnostics :: "foreign_driver \<Rightarrow> foreign_shutdown_diagnostics" where
  "foreign_diagnostics st =
     \<lparr>sg_live_sequences = bt_keys (fd_live st), sg_queued_command_count = length (fd_commands st),
      sg_queued_completion_count = length (fd_ready st) + length (fd_ordered st)\<rparr>"

datatype drain_progress = Drained | NotDrained foreign_shutdown_diagnostics | DrainWaits

text \<open>One decision of \<open>wait_drained\<close>; \<open>timed_out\<close> is the result of the wait that preceded it.\<close>

definition wait_drained :: "foreign_driver \<Rightarrow> bool \<Rightarrow> nat \<Rightarrow> nat \<Rightarrow> drain_progress" where
  "wait_drained st timed_out now deadline =
     (if fd_live st = [] then Drained
      else if timed_out \<or> deadline \<le> now then NotDrained (foreign_diagnostics st)
      else DrainWaits)"

record foreign_driver_snapshot =
  ds_command_count :: usize
  ds_command_bytes :: usize
  ds_completion_count :: usize
  ds_completion_bytes :: usize
  ds_in_flight :: usize
  ds_accepting :: bool
  ds_stopping :: bool
  ds_late_completion_total :: u64
  ds_cancellation_total :: u64

definition foreign_snapshot :: "foreign_driver \<Rightarrow> foreign_driver_snapshot" where
  "foreign_snapshot st =
     \<lparr>ds_command_count = length (fd_commands st), ds_command_bytes = fd_command_bytes st,
      ds_completion_count = length (fd_ready st) + length (fd_ordered st),
      ds_completion_bytes = sat_add64 (fd_ready_bytes st) (fd_ordered_bytes st),
      ds_in_flight = length (fd_live st), ds_accepting = fd_accepting st, ds_stopping = fd_stopping st,
      ds_late_completion_total = fd_late_completion_total st,
      ds_cancellation_total = fd_cancellation_total st\<rparr>"

text \<open>The stop token is handed out by \<open>stop_token\<close> and may be cancelled from outside.\<close>

definition cancel_stop_token :: "foreign_driver \<Rightarrow> foreign_driver" where
  "cancel_stop_token st = st\<lparr>fd_stop := fst (cancel (fd_stop st))\<rparr>"

section \<open>Mailbox bounds\<close>

definition promote_one :: "foreign_driver \<Rightarrow> u64 \<Rightarrow> queued_completion \<Rightarrow> foreign_driver" where
  "promote_one st sequence queued =
     st\<lparr>fd_ordered := bt_remove sequence (fd_ordered st),
        fd_ordered_bytes := fd_ordered_bytes st - qp_bytes queued,
        fd_ready_bytes := sat_add64 (fd_ready_bytes st) (qp_bytes queued),
        fd_ready := fd_ready st @ [queued]\<rparr>"

lemma promote_step:
  "fd_strict_order st = sequence # rest \<Longrightarrow> bt_get (fd_ordered st) sequence = Some queued \<Longrightarrow>
     promote_strict st = promote_strict (promote_one st sequence queued)"
  by (subst promote_strict.simps) (simp add: promote_one_def)

lemma promote_done:
  "fd_strict_order st = [] \<Longrightarrow> promote_strict st = st"
  "bt_get (fd_ordered st) (hd (fd_strict_order st)) = None \<Longrightarrow> promote_strict st = st"
  by (subst promote_strict.simps; cases "fd_strict_order st"; simp)+

lemma promote_induct [case_names stop step]:
  assumes "\<And>st. promote_strict st = st \<Longrightarrow> P st"
    and "\<And>st sequence rest queued. fd_strict_order st = sequence # rest \<Longrightarrow>
      bt_get (fd_ordered st) sequence = Some queued \<Longrightarrow> P (promote_one st sequence queued) \<Longrightarrow> P st"
  shows "P st"
proof (induction st rule: promote_strict.induct)
  case (1 st)
  show ?case
  proof (cases "fd_strict_order st")
    case (Cons sequence rest)
    show ?thesis
    proof (cases "bt_get (fd_ordered st) sequence")
      case None
      with Cons show ?thesis by (intro assms(1) promote_done(2)) simp
    next
      case (Some queued)
      from assms(2) [OF Cons Some] "1.IH" [OF Cons Some] show ?thesis by (simp add: promote_one_def)
    qed
  qed (intro assms(1) promote_done(1))
qed

lemma promote_same:
  "\<exists>r rb os ob. promote_strict st =
     st\<lparr>fd_ready := r, fd_ready_bytes := rb, fd_ordered := os, fd_ordered_bytes := ob\<rparr>"
proof (induction st rule: promote_induct)
  case (stop st)
  then show ?case by (metis foreign_driver.surjective foreign_driver.update_convs(6-9))
next
  case (step st sequence rest queued)
  then show ?case by (auto simp: promote_step promote_one_def)
qed

lemma promote_fixed [simp]:
  "fd_config (promote_strict st) = fd_config st" "fd_stop (promote_strict st) = fd_stop st"
  "fd_commands (promote_strict st) = fd_commands st" "fd_command_bytes (promote_strict st) = fd_command_bytes st"
  "fd_controls (promote_strict st) = fd_controls st" "fd_live (promote_strict st) = fd_live st"
  "fd_strict_order (promote_strict st) = fd_strict_order st"
  "fd_last_strict_sequence (promote_strict st) = fd_last_strict_sequence st"
  "fd_accepting (promote_strict st) = fd_accepting st" "fd_stopping (promote_strict st) = fd_stopping st"
  "fd_abort_reason (promote_strict st) = fd_abort_reason st" "fd_abort_taken (promote_strict st) = fd_abort_taken st"
  using promote_same [of st] by auto

text \<open>What the completion side owns, in both of its stores.\<close>

definition completion_store :: "foreign_driver \<Rightarrow> bool" where
  "completion_store st \<longleftrightarrow>
     bt_inv (fd_ordered st) \<and>
     fd_ready_bytes st = sum_list (map qp_bytes (fd_ready st)) \<and>
     fd_ordered_bytes st = sum_list (map qp_bytes (bt_values (fd_ordered st))) \<and>
     length (fd_ready st) + length (fd_ordered st) \<le> fc_completion_capacity (fd_config st) \<and>
     fd_ready_bytes st + fd_ordered_bytes st \<le> fc_completion_byte_capacity (fd_config st)"

lemma bt_remove_sum:
  fixes m :: "('k::linorder, 'v) btree" and f :: "'v \<Rightarrow> nat"
  shows "bt_inv m \<Longrightarrow> bt_get m k = Some v \<Longrightarrow>
    sum_list (map f (bt_values (bt_remove k m))) + f v = sum_list (map f (bt_values m)) \<and>
    Suc (length (bt_remove k m)) = length m"
proof (induction m)
  case (Cons e m)
  obtain l w where e: "e = (l, w)" by (cases e)
  have m: "bt_inv m" "l \<notin> set (map fst m)" using Cons.prems(1) e by (auto simp: bt_inv_def)
  show ?case
  proof (cases "l = k")
    case True
    then have "bt_remove k m = m" using m(2) by (force simp: bt_remove_def filter_id_conv)
    with True e Cons.prems(2) show ?thesis by (simp add: bt_remove_def bt_values_def bt_get_def)
  next
    case False
    with e Cons.prems(2) have "bt_get m k = Some v" by (simp add: bt_get_def)
    from Cons.IH [OF m(1) this] False e show ?thesis by (simp add: bt_remove_def bt_values_def)
  qed
qed (simp add: bt_get_def)

lemma bt_insert_sum:
  fixes m :: "('k::linorder, 'v) btree" and f :: "'v \<Rightarrow> nat"
  shows "bt_get m k = None \<Longrightarrow>
    sum_list (map f (bt_values (bt_insert k v m))) = f v + sum_list (map f (bt_values m)) \<and>
    length (bt_insert k v m) = Suc (length m)"
  by (induction k v m rule: bt_insert.induct) (auto simp: bt_values_def bt_get_def split: if_splits)

lemma promote_store:
  assumes "completion_store st" and "fc_completion_byte_capacity (fd_config st) \<le> u64_max"
  shows "completion_store (promote_strict st)"
  using assms
proof (induction st rule: promote_induct)
  case (step st sequence rest queued)
  have inv: "bt_inv (fd_ordered st)" using step.prems(1) by (simp add: completion_store_def)
  note q = bt_remove_sum [OF inv step.hyps(2), of qp_bytes]
  have "fd_ready_bytes st + qp_bytes queued \<le> u64_max"
    using step.prems q by (auto simp: completion_store_def)
  then have "completion_store (promote_one st sequence queued)"
    using step.prems(1) q bt_inv_remove [OF inv, of sequence]
    by (auto simp: completion_store_def sat_add64_exact promote_one_def)
  with step show ?case by (simp add: promote_step [OF step.hyps(1,2)] promote_one_def)
qed simp

lemma fits_iff [simp]: "capacity \<le> u64_max \<Longrightarrow> fits a b capacity \<longleftrightarrow> a + b \<le> capacity"
  by (auto simp: fits_def checked_add64_def)

definition driver_bounds :: "foreign_driver \<Rightarrow> bool" where
  "driver_bounds st \<longleftrightarrow>
     foreign_config_validate (fd_config st) = Inr () \<and> completion_store st \<and> bt_inv (fd_live st) \<and>
     length (fd_live st) \<le> fc_max_in_flight (fd_config st) \<and>
     length (fd_commands st) \<le> fc_command_capacity (fd_config st) \<and>
     fd_command_bytes st = sum_list (map qc_bytes (fd_commands st)) \<and>
     fd_command_bytes st \<le> fc_command_byte_capacity (fd_config st)"

lemma config_limits:
  assumes "foreign_config_validate c = Inr ()"
  shows "fc_command_byte_capacity c \<le> u64_max" "fc_completion_byte_capacity c \<le> u64_max"
  using assms by (auto simp: foreign_config_validate_def u64_max_def split: if_splits)

text \<open>What a failure does to the live calls: the undispatched ones go, the others are cancelled.\<close>

lemma fold_bt_remove: "fold bt_remove ks m = filter (\<lambda>e. fst e \<notin> set ks) m"
  by (induction ks arbitrary: m) (auto simp: bt_remove_def intro: filter_cong)

definition cancelled_entry :: "u64 \<times> live_command \<Rightarrow> u64 \<times> live_command" where
  "cancelled_entry e = (fst e, (snd e)\<lparr>lv_cancelled := True\<rparr>)"

definition uncancelled :: "(u64, live_command) btree \<Rightarrow> u64 list" where
  "uncancelled m = map fst (filter (\<lambda>e. \<not> lv_cancelled (snd e)) m)"

lemma cancel_live_spec:
  "cancel_live m controls n =
     (map cancelled_entry m, controls @ map (\<lambda>s. foreign_command_new s FcCancel) (uncancelled m),
      fold (\<lambda>_ k. sat_add64 k 1) (uncancelled m) n)"
proof (induction m controls n rule: cancel_live.induct)
  case (2 sequence live rest controls n)
  moreover have "live\<lparr>lv_cancelled := True\<rparr> = live" if "lv_cancelled live" using that by simp
  ultimately show ?case by (auto simp: cancelled_entry_def uncancelled_def)
qed (simp add: uncancelled_def)

definition dispatched_live :: "foreign_driver \<Rightarrow> (u64, live_command) btree" where
  "dispatched_live st = filter (\<lambda>e. lv_dispatched (snd e)) (fd_live st)"

lemma undispatched_removed:
  assumes "bt_inv m"
  shows "fold bt_remove (map fst (filter (\<lambda>(_, live). \<not> lv_dispatched live) m)) m =
    filter (\<lambda>e. lv_dispatched (snd e)) m"
proof -
  have "inj_on fst (set m)" using bt_inv_distinct [OF assms] by (simp add: distinct_map)
  then have "fst e \<notin> set (map fst (filter (\<lambda>(_, live). \<not> lv_dispatched live) m)) \<longleftrightarrow> lv_dispatched (snd e)"
    if "e \<in> set m" for e
    using that by (auto simp: inj_on_def)
  then show ?thesis by (simp add: fold_bt_remove cong: filter_cong)
qed

lemma fail_locked_fields [simp]:
  "fd_config (fail_locked st r) = fd_config st" "fd_ready (fail_locked st r) = []"
  "fd_ordered (fail_locked st r) = []" "fd_ready_bytes (fail_locked st r) = 0" "fd_ordered_bytes (fail_locked st r) = 0"
  "fd_stopping (fail_locked st r)" "\<not> fd_accepting (fail_locked st r)" "is_cancelled (fd_stop (fail_locked st r))"
  "fd_abort_taken (fail_locked st r) = fd_abort_taken st"
  "fd_abort_reason (fail_locked st r) = Some (case fd_abort_reason st of None \<Rightarrow> r | Some r' \<Rightarrow> r')"
  "fd_command_bytes (fail_locked st r) = sum_list (map qc_bytes (fd_commands (fail_locked st r)))"
  "fd_last_strict_sequence (fail_locked st r) = fd_last_strict_sequence st"
  "fd_late_completion_total (fail_locked st r) = fd_late_completion_total st"
  by (simp_all add: fail_locked_def Let_def cancel_live_spec is_cancelled_def cancel_def)

lemma fail_locked_live:
  "bt_inv (fd_live st) \<Longrightarrow> fd_live (fail_locked st r) = map cancelled_entry (dispatched_live st)"
  by (simp add: fail_locked_def Let_def cancel_live_spec undispatched_removed dispatched_live_def)

lemma fail_locked_controls:
  "bt_inv (fd_live st) \<Longrightarrow>
     length (fd_controls (fail_locked st r)) = length (fd_controls st) + length (uncancelled (dispatched_live st)) + 2 \<and>
     fd_cancellation_total (fail_locked st r) =
       fold (\<lambda>_ k. sat_add64 k 1) (uncancelled (dispatched_live st)) (fd_cancellation_total st)"
  by (simp add: fail_locked_def Let_def cancel_live_spec undispatched_removed dispatched_live_def)

lemma fail_locked_commands:
  "\<exists>P. fd_commands (fail_locked st r) = filter P (fd_commands st)"
  by (auto simp: fail_locked_def Let_def cancel_live_spec)

lemma cancelled_entry_fst [simp]: "fst (cancelled_entry e) = fst e"
  by (simp add: cancelled_entry_def)

lemma bt_inv_filter: "bt_inv m \<Longrightarrow> bt_inv (filter P m)"
  by (induction m) (auto simp: bt_inv_def)

lemma bt_inv_cancelled: "bt_inv m \<Longrightarrow> bt_inv (map cancelled_entry m)"
  by (simp add: bt_inv_def comp_def)

lemma sum_list_filter_le: "sum_list (map f (filter P xs)) \<le> sum_list (map (f :: 'a \<Rightarrow> nat) xs)"
  by (induction xs) auto

lemma fail_locked_bounds: "driver_bounds st \<Longrightarrow> driver_bounds (fail_locked st r)"
proof -
  assume b: "driver_bounds st"
  then have inv: "bt_inv (fd_live st)" by (simp add: driver_bounds_def)
  obtain P where P: "fd_commands (fail_locked st r) = filter P (fd_commands st)"
    using fail_locked_commands by blast
  have "length (dispatched_live st) \<le> length (fd_live st)" by (simp add: dispatched_live_def)
  with b inv sum_list_filter_le [of qc_bytes P "fd_commands st"] length_filter_le [of P "fd_commands st"]
  show ?thesis
    by (auto simp: driver_bounds_def fail_locked_live P completion_store_def bt_values_def
        bt_inv_cancelled bt_inv_filter dispatched_live_def intro: le_trans [OF length_filter_le])
qed

lemma forget_live_fields [simp]:
  "fd_config (forget_live k st) = fd_config st" "fd_live (forget_live k st) = bt_remove k (fd_live st)"
  "fd_ready (forget_live k st) = fd_ready st" "fd_ordered (forget_live k st) = fd_ordered st"
  "fd_ready_bytes (forget_live k st) = fd_ready_bytes st" "fd_ordered_bytes (forget_live k st) = fd_ordered_bytes st"
  "fd_commands (forget_live k st) = fd_commands st" "fd_command_bytes (forget_live k st) = fd_command_bytes st"
  "fd_strict_order (forget_live k st) = remove1 k (fd_strict_order st)"
  "fd_stop (forget_live k st) = fd_stop st" "fd_stopping (forget_live k st) = fd_stopping st"
  "fd_last_strict_sequence (forget_live k st) = fd_last_strict_sequence st"
  "fd_abort_reason (forget_live k st) = fd_abort_reason st" "fd_abort_taken (forget_live k st) = fd_abort_taken st"
  "fd_accepting (forget_live k st) = fd_accepting st"
  by (simp_all add: forget_live_def remove_sequence_def)

lemma bt_remove_length: "length (bt_remove k m) \<le> length m"
  by (simp add: bt_remove_def)

lemma forget_live_bounds: "driver_bounds st \<Longrightarrow> driver_bounds (forget_live k st)"
  using bt_remove_length [of k "fd_live st"]
  by (auto simp: driver_bounds_def completion_store_def bt_inv_remove)

lemma bt_set_length [simp]: "length (bt_set k v m) = length m"
  by (induction k v m rule: bt_set.induct) auto

lemma try_submit_bounds:
  assumes "driver_bounds st"
  shows "driver_bounds (fst (try_submit st c now))"
proof -
  have cap: "fc_command_byte_capacity (fd_config st) \<le> u64_max"
    using assms config_limits(1) by (simp add: driver_bounds_def)
  have "fd_command_bytes st + b \<le> fc_command_byte_capacity (fd_config st) \<Longrightarrow>
      sat_add64 (fd_command_bytes st) b = fd_command_bytes st + b" for b
    using cap by (simp add: sat_add64_exact)
  then show ?thesis
    using assms cap bt_insert_sum [of "fd_live st" "fo_sequence c" "\<lambda>_. 0"]
    by (auto simp: try_submit_def Let_def driver_bounds_def completion_store_def bt_inv_insert)
qed

lemma try_receive_bounds:
  "driver_bounds st \<Longrightarrow> driver_bounds (fst (try_receive st))"
  by (auto simp: try_receive_def Let_def driver_bounds_def completion_store_def
      split: list.split option.split)

definition has_room :: "foreign_driver \<Rightarrow> foreign_completion \<Rightarrow> bool" where
  "has_room st c \<longleftrightarrow>
     length (fd_ready st) + length (fd_ordered st) < fc_completion_capacity (fd_config st) \<and>
     fd_ready_bytes st + fd_ordered_bytes st + completion_bytes c \<le> fc_completion_byte_capacity (fd_config st)"

lemma store_bounds:
  assumes b: "driver_bounds st" and new: "bt_get (fd_ordered st) (fp_sequence c) = None" and room: "has_room st c"
  shows "driver_bounds (store_ready st c)" "driver_bounds (store_ordered st c)"
proof -
  have cap: "fc_completion_byte_capacity (fd_config st) \<le> u64_max"
    using b config_limits(2) by (simp add: driver_bounds_def)
  have exact: "sat_add64 (fd_ready_bytes st) (completion_bytes c) = fd_ready_bytes st + completion_bytes c"
    "sat_add64 (fd_ordered_bytes st) (completion_bytes c) = fd_ordered_bytes st + completion_bytes c"
    using cap room by (simp_all add: sat_add64_exact has_room_def)
  have "completion_store (store_ready st c)"
    using b room exact(1) by (simp add: completion_store_def driver_bounds_def store_ready_def has_room_def)
  moreover have "completion_store (store_ordered st c)"
    using b room exact(2) bt_insert_sum [OF new, of qp_bytes]
    by (simp add: completion_store_def driver_bounds_def bt_inv_insert store_ordered_def has_room_def)
  ultimately show "driver_bounds (store_ready st c)" "driver_bounds (store_ordered st c)"
    using b by (simp_all add: driver_bounds_def store_ready_def store_ordered_def)
qed

section \<open>The invariant\<close>

abbreviation completion_seq :: "queued_completion \<Rightarrow> u64" where
  "completion_seq q \<equiv> fp_sequence (qp_completion q)"

definition stored :: "foreign_driver \<Rightarrow> u64 set" where
  "stored st = completion_seq ` set (fd_ready st) \<union> set (bt_keys (fd_ordered st))"

text \<open>Stored completions belong to live calls that are marked, unless the domain is cancelled.\<close>

definition store_linked :: "foreign_driver \<Rightarrow> bool" where
  "store_linked st \<longleftrightarrow>
     (\<forall>(k, q) \<in> set (fd_ordered st). completion_seq q = k) \<and>
     distinct (map completion_seq (fd_ready st) @ bt_keys (fd_ordered st)) \<and>
     (\<forall>k \<in> stored st. \<forall>l. bt_get (fd_live st) k = Some l \<longrightarrow> lv_completion_received l) \<and>
     (\<not> is_cancelled (fd_stop st) \<longrightarrow> stored st \<subseteq> set (bt_keys (fd_live st)))"

definition stop_flags :: "foreign_driver \<Rightarrow> bool" where
  "stop_flags st \<longleftrightarrow>
     (fd_accepting st \<longleftrightarrow> \<not> fd_stopping st) \<and> (fd_stopping st \<longrightarrow> is_cancelled (fd_stop st)) \<and>
     (\<forall>(k, l) \<in> set (fd_live st). lv_cancelled l = fd_stopping st)"

text \<open>
  Strict ordering: the live calls are known in submission order, and at most one completion
  is ready, that of a call no later than any live one.
\<close>

definition strict_inv :: "foreign_driver \<Rightarrow> bool" where
  "strict_inv st \<longleftrightarrow>
     fc_ordering (fd_config st) = Strict \<longrightarrow>
       sorted_wrt (<) (fd_strict_order st) \<and> set (fd_strict_order st) = set (bt_keys (fd_live st)) \<and>
       (\<forall>s \<in> set (fd_strict_order st). \<exists>l. fd_last_strict_sequence st = Some l \<and> s \<le> l) \<and>
       (fd_ready st = [] \<or>
        (\<exists>q. fd_ready st = [q] \<and> (\<forall>s \<in> set (fd_strict_order st). completion_seq q \<le> s) \<and>
           completion_seq q \<notin> set (bt_keys (fd_ordered st))))"

definition wf_driver :: "foreign_driver \<Rightarrow> bool" where
  "wf_driver st \<longleftrightarrow> driver_bounds st \<and> store_linked st \<and> stop_flags st \<and> strict_inv st"

lemma foldl_remove: "distinct xs \<Longrightarrow> foldl remove_sequence xs ks = filter (\<lambda>x. x \<notin> set ks) xs"
proof (induction ks arbitrary: xs)
  case (Cons k ks)
  have "remove_sequence xs k = filter (\<lambda>x. x \<noteq> k) xs"
    using Cons.prems by (induction xs) (auto simp: remove_sequence_def intro: filter_True [symmetric])
  with Cons.IH [of "filter (\<lambda>x. x \<noteq> k) xs"] Cons.prems show ?case by (simp add: conj_commute)
qed simp

lemma bt_keys_filter_image: "set (bt_keys (filter P m)) = fst ` {e \<in> set m. P e}"
  by (auto simp: bt_keys_def)

lemma fail_locked_order:
  assumes "bt_inv (fd_live st)" and "sorted_wrt (<) (fd_strict_order st)"
    and "set (fd_strict_order st) = set (bt_keys (fd_live st))"
  shows "sorted_wrt (<) (fd_strict_order (fail_locked st r))"
    "set (fd_strict_order (fail_locked st r)) = set (bt_keys (fd_live (fail_locked st r)))"
proof -
  let ?u = "map fst (filter (\<lambda>(_, live). \<not> lv_dispatched live) (fd_live st))"
  have "distinct (fd_strict_order st)" using assms(2) strict_sorted_iff by blast
  then have order: "fd_strict_order (fail_locked st r) = filter (\<lambda>x. x \<notin> set ?u) (fd_strict_order st)"
    by (simp add: fail_locked_def Let_def cancel_live_spec foldl_remove)
  then show "sorted_wrt (<) (fd_strict_order (fail_locked st r))" using assms(2) by (simp add: sorted_wrt_filter)
  have "set (bt_keys (fold bt_remove ?u (fd_live st))) = set (bt_keys (fd_live st)) - set ?u"
    by (auto simp: fold_bt_remove bt_keys_def)
  moreover have "set (bt_keys (fd_live (fail_locked st r))) = set (bt_keys (fold bt_remove ?u (fd_live st)))"
    by (simp add: fail_locked_live assms(1) undispatched_removed dispatched_live_def bt_keys_def image_image)
  ultimately show "set (fd_strict_order (fail_locked st r)) = set (bt_keys (fd_live (fail_locked st r)))"
    using assms(3) order by auto
qed

lemma fail_locked_order_subset: "set (fd_strict_order (fail_locked st r)) \<subseteq> set (fd_strict_order st)"
proof -
  have "set (foldl remove_sequence xs ks) \<subseteq> set xs" for xs ks
  proof (induction ks arbitrary: xs)
    case (Cons k ks)
    from Cons.IH [of "remove_sequence xs k"] set_remove1_subset [of k xs] show ?case
      by (auto simp: remove_sequence_def)
  qed simp
  then show ?thesis by (simp add: fail_locked_def Let_def cancel_live_spec)
qed

lemma fail_locked_wf:
  assumes b: "driver_bounds st"
    and s: "fc_ordering (fd_config st) = Strict \<Longrightarrow>
      sorted_wrt (<) (fd_strict_order st) \<and> set (fd_strict_order st) = set (bt_keys (fd_live st)) \<and>
      (\<forall>s \<in> set (fd_strict_order st). \<exists>l. fd_last_strict_sequence st = Some l \<and> s \<le> l)"
  shows "wf_driver (fail_locked st r)"
proof -
  have inv: "bt_inv (fd_live st)" using b by (simp add: driver_bounds_def)
  have "store_linked (fail_locked st r)" by (simp add: store_linked_def stored_def bt_keys_def)
  moreover have "stop_flags (fail_locked st r)"
    by (auto simp: stop_flags_def fail_locked_live [OF inv] cancelled_entry_def)
  moreover have "strict_inv (fail_locked st r)"
    using s fail_locked_order [OF inv, of r] fail_locked_order_subset [of st r]
    by (auto simp: strict_inv_def)
  ultimately show ?thesis using fail_locked_bounds [OF b] by (simp add: wf_driver_def)
qed

lemma promote_cases:
  obtains (stop) "promote_strict st = st"
  | (one) sequence rest queued where "fd_strict_order st = sequence # rest"
      "bt_get (fd_ordered st) sequence = Some queued" "promote_strict st = promote_one st sequence queued"
proof (cases "promote_strict st = st")
  case False
  then obtain sequence rest where s: "fd_strict_order st = sequence # rest"
    using promote_done(1) by (cases "fd_strict_order st") auto
  with False promote_done(2) [of st] obtain queued where q: "bt_get (fd_ordered st) sequence = Some queued" by auto
  have "promote_strict (promote_one st sequence queued) = promote_one st sequence queued"
    by (rule promote_done(2)) (simp add: promote_one_def s bt_get_remove)
  with one [OF s q] promote_step [OF s q] show thesis by simp
qed

text \<open>Submission.\<close>

lemma strict_invD:
  assumes "strict_inv st" and "fc_ordering (fd_config st) = Strict"
  shows "sorted_wrt (<) (fd_strict_order st)" "set (fd_strict_order st) = set (bt_keys (fd_live st))"
    "\<And>s. s \<in> set (fd_strict_order st) \<Longrightarrow> \<exists>l. fd_last_strict_sequence st = Some l \<and> s \<le> l"
    "fd_ready st = [] \<or> (\<exists>q. fd_ready st = [q] \<and> (\<forall>s \<in> set (fd_strict_order st). completion_seq q \<le> s) \<and>
       completion_seq q \<notin> set (bt_keys (fd_ordered st)))"
  using assms unfolding strict_inv_def by blast+

lemma submit_sequence_last:
  assumes "strict_inv st" "fc_ordering (fd_config st) = Strict" "submit_sequence_ok st n"
    and "s \<in> set (fd_strict_order st)"
  shows "s \<le> n"
proof -
  from strict_invD(3) [OF assms(1,2,4)] obtain l where l: "fd_last_strict_sequence st = Some l" "s \<le> l" by blast
  with assms(3) have "l \<le> n"
    by (auto simp: submit_sequence_ok_def checked_add64_def split: if_splits)
  with l show ?thesis by simp
qed

lemma wf_driver_update [simp]:
  "wf_driver (st\<lparr>fd_controls := c\<rparr>) = wf_driver st"
  "wf_driver (st\<lparr>fd_late_completion_total := l\<rparr>) = wf_driver st"
  "wf_driver (st\<lparr>fd_cancellation_total := n\<rparr>) = wf_driver st"
  "wf_driver (st\<lparr>fd_abort_taken := a\<rparr>) = wf_driver st"
  by (simp_all add: wf_driver_def driver_bounds_def completion_store_def store_linked_def stored_def
      stop_flags_def strict_inv_def)

lemma bt_insert_subset: "set (bt_insert k v m) \<subseteq> insert (k, v) (set m)"
  by (induction k v m rule: bt_insert.induct) (auto split: if_splits)

lemma bt_set_subset: "set (bt_set k v m) \<subseteq> insert (k, v) (set m)"
  by (induction k v m rule: bt_set.induct) (auto split: if_splits)

lemma try_submit_wf:
  assumes wf: "wf_driver st"
  shows "wf_driver (fst (try_submit st c now))"
proof (cases "fd_stopping st \<or> is_cancelled (fd_stop st) \<or> \<not> fd_accepting st \<or>
    bt_get (fd_live st) (fo_sequence c) \<noteq> None \<or>
    fc_ordering (fd_config st) = Strict \<and> \<not> submit_sequence_ok st (fo_sequence c)")
  case True
  then have "fst (try_submit st c now) = st" by (auto simp: try_submit_def Let_def)
  with wf show ?thesis by simp
next
  case False
  let ?n = "fo_sequence c"
  have s: "store_linked st" "stop_flags st" "strict_inv st" "driver_bounds st"
    using wf by (simp_all add: wf_driver_def)
  have new: "?n \<notin> set (bt_keys (fd_live st))" using False by (simp flip: bt_get_None)
  have sub: "stored st \<subseteq> set (bt_keys (fd_live st))" using s(1) False by (auto simp: store_linked_def)
  have le: "\<forall>s \<in> set (fd_strict_order st). s \<le> ?n" if "fc_ordering (fd_config st) = Strict"
    using submit_sequence_last [OF s(3) that] False that by blast
  have keys: "set (bt_keys (bt_insert ?n l (fd_live st))) = insert ?n (set (bt_keys (fd_live st)))" for l
    by (rule bt.keys_ins) (use s(4) in \<open>simp add: driver_bounds_def\<close>)
  have live: "set (bt_insert ?n l (fd_live st)) \<subseteq> insert (?n, l) (set (fd_live st))" for l
    by (rule bt_insert_subset)
  have b: "driver_bounds (fst (try_submit st c now))" by (rule try_submit_bounds [OF s(4)])
  show ?thesis
  proof (cases "snd (try_submit st c now) = Inr SubmitAccepted")
    case False
    with \<open>\<not> (_ \<or> _)\<close> have "fst (try_submit st c now) =
        (if fc_ordering (fd_config st) = Strict then st\<lparr>fd_last_strict_sequence := Some ?n\<rparr> else st)"
      by (auto simp: try_submit_def Let_def split: if_splits)
    with b s le show ?thesis
      by (auto simp: wf_driver_def store_linked_def stored_def stop_flags_def strict_inv_def)
  next
    case True
    let ?l = "\<lparr>lv_deadline = now + fc_per_call_deadline (fd_config st), lv_dispatched = False,
       lv_cancelled = False, lv_completion_received = False\<rparr>"
    let ?t = "fst (try_submit st c now)"
    have t: "fd_live ?t = bt_insert ?n ?l (fd_live st)" "fd_stop ?t = fd_stop st" "fd_stopping ?t = fd_stopping st"
      "fd_accepting ?t = fd_accepting st" "fd_ready ?t = fd_ready st" "fd_ordered ?t = fd_ordered st"
      "fd_config ?t = fd_config st"
      "fc_ordering (fd_config st) = Strict \<Longrightarrow> fd_strict_order ?t = fd_strict_order st @ [?n] \<and>
         fd_last_strict_sequence ?t = Some ?n"
      using True \<open>\<not> (_ \<or> _)\<close> by (auto simp: try_submit_def Let_def split: if_splits)
    have st: "stored ?t = stored st" by (simp add: stored_def t)
    have "store_linked ?t"
      using s(1) sub new by (auto simp: store_linked_def st t bt_get_insert keys)
    moreover have "stop_flags ?t"
      using s(2) \<open>\<not> (_ \<or> _)\<close> live [of ?l] by (auto simp: stop_flags_def t)
    moreover have "strict_inv ?t"
    proof -
      have "s < ?n" if "fc_ordering (fd_config st) = Strict" "s \<in> set (fd_strict_order st)" for s
        using that(2) le [OF that(1)] new strict_invD(2) [OF s(3) that(1)] by (metis order.strict_iff_order)
      moreover have "completion_seq q \<le> ?n"
        if "fc_ordering (fd_config st) = Strict" "fd_ready st = [q]" for q
        using that(2) sub le [OF that(1)] strict_invD(2) [OF s(3) that(1)] by (auto simp: stored_def)
      ultimately show ?thesis
        using strict_invD [OF s(3)] unfolding strict_inv_def
        by (auto simp: t keys sorted_wrt_append dest: less_imp_le)
    qed
    ultimately show ?thesis using b by (simp add: wf_driver_def)
  qed
qed

lemma inv_frames [simp]:
  "store_linked (st\<lparr>fd_commands := cs\<rparr>) = store_linked st"
  "store_linked (st\<lparr>fd_command_bytes := b\<rparr>) = store_linked st"
  "stop_flags (st\<lparr>fd_commands := cs\<rparr>) = stop_flags st"
  "stop_flags (st\<lparr>fd_command_bytes := b\<rparr>) = stop_flags st"
  "strict_inv (st\<lparr>fd_commands := cs\<rparr>) = strict_inv st"
  "strict_inv (st\<lparr>fd_command_bytes := b\<rparr>) = strict_inv st"
  "bt_keys live = bt_keys (fd_live st) \<Longrightarrow> strict_inv (st\<lparr>fd_live := live\<rparr>) = strict_inv st"
  by (simp_all add: store_linked_def stored_def stop_flags_def strict_inv_def)

text \<open>Updates of one live entry that keep its cancelled flag and do not unmark it.\<close>

lemma wf_set_live:
  assumes wf: "wf_driver st" and l: "bt_get (fd_live st) k = Some l"
    and l': "lv_cancelled l' = lv_cancelled l" "lv_completion_received l \<longrightarrow> lv_completion_received l'"
  shows "wf_driver (st\<lparr>fd_live := bt_set k l' (fd_live st)\<rparr>)"
proof -
  have "(k, l) \<in> set (fd_live st)"
    using wf l by (simp add: wf_driver_def driver_bounds_def flip: bt_get_iff)
  then have "lv_cancelled l' = fd_stopping st" using wf l'(1) by (auto simp: wf_driver_def stop_flags_def)
  then have "stop_flags (st\<lparr>fd_live := bt_set k l' (fd_live st)\<rparr>)"
    using wf bt_set_subset [of k l' "fd_live st"] by (auto simp: wf_driver_def stop_flags_def)
  moreover have "store_linked (st\<lparr>fd_live := bt_set k l' (fd_live st)\<rparr>)"
    using wf l l'(2) by (auto simp: wf_driver_def store_linked_def stored_def bt_get_set)
  moreover have "driver_bounds (st\<lparr>fd_live := bt_set k l' (fd_live st)\<rparr>)"
    using wf by (simp add: wf_driver_def driver_bounds_def completion_store_def)
  moreover have "strict_inv (st\<lparr>fd_live := bt_set k l' (fd_live st)\<rparr>)"
    using wf by (simp add: wf_driver_def)
  ultimately show ?thesis by (simp add: wf_driver_def)
qed

lemma wf_drop_command:
  assumes "wf_driver st" and "fd_commands st = q # cs"
  shows "wf_driver (st\<lparr>fd_commands := cs, fd_command_bytes := fd_command_bytes st - qc_bytes q\<rparr>)"
  using assms
  by (auto simp: wf_driver_def driver_bounds_def completion_store_def simp flip: foreign_driver.update_convs)

lemma try_receive_wf:
  assumes wf: "wf_driver st"
  shows "wf_driver (fst (try_receive st))"
proof (cases "fd_controls st")
  case Nil
  show ?thesis
  proof (cases "fd_commands st")
    case (Cons q cs)
    let ?st = "st\<lparr>fd_commands := cs, fd_command_bytes := fd_command_bytes st - qc_bytes q\<rparr>"
    let ?k = "fo_sequence (qc_command q)"
    have st: "wf_driver ?st" by (rule wf_drop_command [OF wf Cons])
    show ?thesis
    proof (cases "bt_get (fd_live st) ?k")
      case None
      with st Nil Cons show ?thesis by (simp add: try_receive_def Let_def)
    next
      case (Some l)
      have "wf_driver (?st\<lparr>fd_live := bt_set ?k (l\<lparr>lv_dispatched := True\<rparr>) (fd_live ?st)\<rparr>)"
        by (rule wf_set_live [OF st]) (use Some in auto)
      with Some Nil Cons show ?thesis by (simp add: try_receive_def Let_def)
    qed
  qed (use Nil wf in \<open>simp add: try_receive_def\<close>)
qed (use wf in \<open>simp add: try_receive_def\<close>)

text \<open>Forgetting a call is safe when the domain is cancelled or nothing is stored for it.\<close>

lemma remove1_strict:
  fixes xs :: "'a::linorder list"
  shows "sorted_wrt (<) xs \<Longrightarrow>
    sorted_wrt (<) (remove1 k xs) \<and> set (remove1 k xs) = set xs - {k}"
  by (induction xs) auto

lemma wf_forget_live:
  assumes wf: "wf_driver st" and k: "is_cancelled (fd_stop st) \<or> k \<notin> stored st"
  shows "wf_driver (forget_live k st)"
proof -
  have s: "driver_bounds st" "store_linked st" "stop_flags st" "strict_inv st"
    using wf by (simp_all add: wf_driver_def)
  have keys: "set (bt_keys (bt_remove k (fd_live st))) = set (bt_keys (fd_live st)) - {k}"
    by (auto simp: bt_keys_def bt_remove_def)
  have "store_linked (forget_live k st)"
    using s(2) k by (auto simp: store_linked_def stored_def bt_get_remove keys split: if_splits)
  moreover have "stop_flags (forget_live k st)" using s(3) by (auto simp: stop_flags_def bt_remove_def)
  moreover have "strict_inv (forget_live k st)"
  proof -
    have "sorted_wrt (<) (remove1 k (fd_strict_order st)) \<and>
        set (remove1 k (fd_strict_order st)) = set (fd_strict_order st) - {k}"
      if "fc_ordering (fd_config st) = Strict"
      by (rule remove1_strict) (rule strict_invD(1) [OF s(4) that])
    then show ?thesis
      using strict_invD [OF s(4)] unfolding strict_inv_def by (auto simp: keys)
  qed
  ultimately show ?thesis using forget_live_bounds [OF s(1)] by (simp add: wf_driver_def)
qed

lemma wf_fail_locked: "wf_driver st \<Longrightarrow> wf_driver (fail_locked st r)"
  using strict_invD by (intro fail_locked_wf) (auto simp: wf_driver_def)

lemma not_received_not_stored:
  "store_linked st \<Longrightarrow> bt_get (fd_live st) k = Some l \<Longrightarrow> \<not> lv_completion_received l \<Longrightarrow> k \<notin> stored st"
  by (auto simp: store_linked_def)

lemma promote_wf:
  assumes wf: "wf_driver st" and strict: "fc_ordering (fd_config st) = Strict" and empty: "fd_ready st = []"
  shows "wf_driver (promote_strict st)"
proof (cases st rule: promote_cases)
  case (one sequence rest queued)
  let ?t = "promote_one st sequence queued"
  have s: "driver_bounds st" "store_linked st" "stop_flags st" "strict_inv st"
    using wf by (simp_all add: wf_driver_def)
  have inv: "bt_inv (fd_ordered st)" using s(1) by (simp add: driver_bounds_def completion_store_def)
  then have q: "(sequence, queued) \<in> set (fd_ordered st)" using one(2) by (simp add: bt_get_iff)
  then have seq: "completion_seq queued = sequence" using s(2) by (auto simp: store_linked_def)
  have keys: "set (bt_keys (bt_remove sequence (fd_ordered st))) = set (bt_keys (fd_ordered st)) - {sequence}"
    "distinct (bt_keys (bt_remove sequence (fd_ordered st)))"
    using bt_inv_distinct [OF bt_inv_remove [OF inv]] by (auto simp: bt_keys_def bt_remove_def)
  have member: "sequence \<in> set (bt_keys (fd_ordered st))" using q by (force simp: bt_keys_def)
  have stored: "stored ?t = stored st"
    using member seq by (auto simp: stored_def promote_one_def keys empty)
  have "completion_store (promote_strict st)"
    using s(1) config_limits(2) by (intro promote_store) (simp_all add: driver_bounds_def)
  then have "driver_bounds ?t" using s(1) one(3) by (simp add: driver_bounds_def promote_one_def)
  moreover have "store_linked ?t"
    using s(2) keys seq unfolding store_linked_def stored
    by (auto simp: promote_one_def empty bt_remove_def)
  moreover have "stop_flags ?t" using s(3) by (simp add: stop_flags_def promote_one_def)
  moreover have "strict_inv ?t"
  proof -
    have "\<forall>x \<in> set (fd_strict_order st). sequence \<le> x"
      using strict_invD(1) [OF s(4) strict] one(1) by auto
    then show ?thesis
      using strict_invD [OF s(4) strict] seq keys unfolding strict_inv_def by (auto simp: promote_one_def empty)
  qed
  ultimately show ?thesis using one(3) by (simp add: wf_driver_def)
qed (use wf in simp)

text \<open>A completion that is ready in strict mode blocks further promotion.\<close>

lemma promote_blocked:
  assumes "strict_inv st" "fc_ordering (fd_config st) = Strict" "fd_ready st = [q]"
    and "completion_seq q \<in> set (bt_keys (fd_live st))"
  shows "promote_strict st = st"
proof -
  note d = strict_invD [OF assms(1,2)]
  have q: "completion_seq q \<in> set (fd_strict_order st)" using assms(4) d(2) by simp
  then obtain x xs where o: "fd_strict_order st = x # xs" by (cases "fd_strict_order st") auto
  have "completion_seq q \<le> x" "completion_seq q \<notin> set (bt_keys (fd_ordered st))" using d(4) assms(3) o by auto
  moreover have "x \<le> completion_seq q" using q o d(1) by auto
  ultimately show ?thesis using o by (intro promote_done(2)) (simp add: bt_get_None)
qed

lemma accept_completion_wf:
  assumes wf: "wf_driver st" and live: "bt_get (fd_live st) (fp_sequence c) = Some l"
    and flags: "\<not> lv_completion_received l" "\<not> is_cancelled (fd_stop st)" and room: "has_room st c"
  shows "wf_driver (accept_completion st c l)"
proof -
  let ?k = "fp_sequence c"
  define t where "t = mark_received st ?k l"
  have t: "fd_ready t = fd_ready st" "fd_ordered t = fd_ordered st" "fd_config t = fd_config st"
    "fd_stop t = fd_stop st" "bt_keys (fd_live t) = bt_keys (fd_live st)" "fd_ready_bytes t = fd_ready_bytes st"
    "fd_ordered_bytes t = fd_ordered_bytes st"
    by (simp_all add: t_def mark_received_def)
  have wt: "wf_driver t" unfolding t_def mark_received_def by (rule wf_set_live [OF wf live]) simp_all
  then have s: "driver_bounds t" "store_linked t" "stop_flags t" "strict_inv t" by (simp_all add: wf_driver_def)
  have "?k \<notin> stored st" using wf live flags(1) not_received_not_stored by (auto simp: wf_driver_def)
  then have new: "?k \<notin> stored t" by (simp add: stored_def t)
  then have get: "bt_get (fd_ordered t) ?k = None" by (simp add: bt_get_None stored_def)
  have k: "?k \<in> set (bt_keys (fd_live t))" "bt_get (fd_live t) ?k = Some (l\<lparr>lv_completion_received := True\<rparr>)"
    using live bt_get_None [of "fd_live st" ?k] by (auto simp: t t_def mark_received_def bt_get_set)
  have sub: "stored t \<subseteq> set (bt_keys (fd_live t))" using s(2) flags(2) by (auto simp: store_linked_def t)
  have "has_room t c" using room by (simp add: has_room_def t)
  note b = store_bounds [OF s(1) get this]
  have inv: "bt_inv (fd_ordered t)" using s(1) by (simp add: driver_bounds_def completion_store_def)
  have keys: "set (bt_keys (bt_insert ?k q (fd_ordered t))) = insert ?k (set (bt_keys (fd_ordered t)))"
    "distinct (bt_keys (bt_insert ?k q (fd_ordered t)))" for q
    using bt.keys_ins [OF inv] bt.keys_distinct [OF bt_inv_insert [OF inv]] by auto
  have stored: "stored (store_ready t c) = insert ?k (stored t)" "stored (store_ordered t c) = insert ?k (stored t)"
    by (auto simp: stored_def store_ready_def store_ordered_def keys)
  have linked: "store_linked (store_ready t c)" "store_linked (store_ordered t c)"
    using s(2) new k sub keys bt_insert_subset [of ?k "\<lparr>qp_completion = c, qp_bytes = completion_bytes c\<rparr>" "fd_ordered t"]
    unfolding store_linked_def stored
    by (auto simp: store_ready_def store_ordered_def stored_def)
  show ?thesis
  proof (cases "fc_ordering (fd_config st)")
    case Unordered
    have "stop_flags (store_ready t c)" "strict_inv (store_ready t c)"
      using s(3) Unordered by (auto simp: stop_flags_def strict_inv_def store_ready_def t)
    with Unordered b(1) linked(1) show ?thesis
      by (simp add: accept_completion_def wf_driver_def t flip: t_def)
  next
    case Strict
    have nq: "?k \<noteq> completion_seq q" if "fd_ready t = [q]" for q using new that by (simp add: stored_def)
    have "stop_flags (store_ordered t c)" "strict_inv (store_ordered t c)"
      using s(3) strict_invD [OF s(4)] Strict nq unfolding stop_flags_def strict_inv_def
      by (auto simp: store_ordered_def t(1-5) keys [unfolded t(2)])
    with b(2) linked(2) have wo: "wf_driver (store_ordered t c)" by (simp add: wf_driver_def)
    have "wf_driver (promote_strict (store_ordered t c))"
    proof (cases "fd_ready t = []")
      case True
      then show ?thesis using wo Strict by (intro promote_wf) (simp_all add: store_ordered_def t)
    next
      case False
      then obtain q where q: "fd_ready t = [q]" using strict_invD(4) [OF s(4)] Strict by (auto simp: t)
      have "promote_strict (store_ordered t c) = store_ordered t c"
        by (rule promote_blocked [of _ q])
           (use wo q sub Strict in \<open>auto simp: wf_driver_def store_ordered_def t stored_def\<close>)
      with wo show ?thesis by simp
    qed
    with Strict show ?thesis by (simp add: accept_completion_def t flip: t_def)
  qed
qed

lemma wf_cancelled: "wf_driver st \<Longrightarrow> (k, l) \<in> set (fd_live st) \<Longrightarrow> lv_cancelled l \<Longrightarrow> is_cancelled (fd_stop st)"
  by (auto simp: wf_driver_def stop_flags_def)

lemma live_member: "wf_driver st \<Longrightarrow> bt_get (fd_live st) k = Some l \<Longrightarrow> (k, l) \<in> set (fd_live st)"
  by (simp add: wf_driver_def driver_bounds_def bt_get_iff)

lemma count_late_fields [simp]: "wf_driver (count_late st) = wf_driver st" "fd_stop (count_late st) = fd_stop st"
  by (simp_all add: count_late_def)

lemma try_complete_wf:
  assumes wf: "wf_driver st"
  shows "wf_driver (fst (try_complete st c))"
proof (cases "bt_get (fd_live st) (fp_sequence c)")
  case None
  with wf show ?thesis by (simp add: try_complete_def Let_def)
next
  case (Some l)
  note mem = live_member [OF wf Some]
  show ?thesis
  proof (cases "lv_cancelled l \<or> fd_stopping st \<or> is_cancelled (fd_stop st)")
    case True
    then have "is_cancelled (fd_stop st)"
      using wf wf_cancelled [OF wf mem] by (auto simp: wf_driver_def stop_flags_def)
    with wf have "wf_driver (forget_live (fp_sequence c) (count_late st))" by (intro wf_forget_live) simp_all
    with Some True show ?thesis by (simp add: try_complete_def Let_def)
  next
    case live: False
    show ?thesis
    proof (cases "lv_completion_received l")
      case True
      with Some live wf show ?thesis by (simp add: try_complete_def Let_def)
    next
      case False
      have new: "fp_sequence c \<notin> stored st"
        using wf Some False not_received_not_stored by (auto simp: wf_driver_def)
      show ?thesis
      proof (cases "fp_kind c")
        case (FcFailure r)
        have "wf_driver (fail_locked (forget_live (fp_sequence c) st) r)"
          by (intro wf_fail_locked wf_forget_live wf) (use new in simp)
        with Some live False FcFailure show ?thesis by (simp add: try_complete_def Let_def)
      next
        case (FcSuccess fs es ss vs)
        let ?full = "length (fd_ready st) + length (fd_ordered st) = fc_completion_capacity (fd_config st) \<or>
          \<not> fits (sat_add64 (fd_ready_bytes st) (fd_ordered_bytes st)) (completion_bytes c)
              (fc_completion_byte_capacity (fd_config st))"
        have "has_room st c" if "\<not> ?full"
        proof -
          have cap: "fc_completion_byte_capacity (fd_config st) \<le> u64_max" "completion_store st"
            using wf config_limits(2) by (simp_all add: wf_driver_def driver_bounds_def)
          then show ?thesis using that
            by (auto simp: has_room_def completion_store_def sat_add64_exact)
        qed
        then have "wf_driver (accept_completion st c l)" if "\<not> ?full"
          using accept_completion_wf [OF wf Some False] live that by blast
        with Some live False FcSuccess wf show ?thesis by (simp add: try_complete_def Let_def)
      qed
    qed
  qed
qed

lemma wf_take_ready:
  assumes wf: "wf_driver st" and ready: "fd_ready st = q # qs"
  shows "wf_driver (st\<lparr>fd_ready := qs, fd_ready_bytes := fd_ready_bytes st - qp_bytes q\<rparr>)" (is "wf_driver ?t")
    and "completion_seq q \<notin> stored (st\<lparr>fd_ready := qs, fd_ready_bytes := fd_ready_bytes st - qp_bytes q\<rparr>)"
proof -
  have s: "driver_bounds st" "store_linked st" "stop_flags st" "strict_inv st"
    using wf by (simp_all add: wf_driver_def)
  have "driver_bounds ?t" using s(1) ready by (auto simp: driver_bounds_def completion_store_def)
  moreover have "store_linked ?t" using s(2) ready by (auto simp: store_linked_def stored_def)
  moreover have "stop_flags ?t" using s(3) by (simp add: stop_flags_def)
  moreover have "strict_inv ?t" using strict_invD [OF s(4)] ready unfolding strict_inv_def by auto
  ultimately show "wf_driver ?t" by (simp add: wf_driver_def)
  show "completion_seq q \<notin> stored ?t" using s(2) ready by (auto simp: store_linked_def stored_def)
qed

lemma try_take_completion_wf:
  assumes wf: "wf_driver st"
  shows "wf_driver (fst (try_take_completion st))"
proof (cases "fd_ready st")
  case (Cons q qs)
  let ?t = "st\<lparr>fd_ready := qs, fd_ready_bytes := fd_ready_bytes st - qp_bytes q\<rparr>"
  have t: "wf_driver (forget_live (completion_seq q) ?t)"
    using wf_take_ready [OF wf Cons] by (intro wf_forget_live) simp_all
  have "wf_driver (promote_strict (forget_live (completion_seq q) ?t))"
    if strict: "fc_ordering (fd_config st) = Strict"
  proof -
    have "qs = []" using strict_invD(4) [of st] wf strict Cons by (auto simp: wf_driver_def)
    then show ?thesis using t strict by (intro promote_wf) simp_all
  qed
  with t Cons show ?thesis by (simp add: try_take_completion_def Let_def)
qed (use wf in \<open>simp add: try_take_completion_def\<close>)

lemma wf_expire: "wf_driver st \<Longrightarrow> wf_driver (fst (expire_deadlines st now))"
  by (simp add: expire_deadlines_def Let_def wf_fail_locked)

lemma is_cancelled_cancel [simp]: "is_cancelled (fst (cancel s))"
  by (simp add: is_cancelled_def cancel_def)

lemma wf_cancel_token: "wf_driver st \<Longrightarrow> wf_driver (cancel_stop_token st)"
  by (auto simp: cancel_stop_token_def wf_driver_def driver_bounds_def completion_store_def store_linked_def
      stored_def stop_flags_def strict_inv_def is_cancelled_def cancel_def)

lemma wf_graceful: "wf_driver st \<Longrightarrow> wf_driver (fst (begin_graceful_stop st))"
proof (cases "fd_stopping st \<or> fd_live st \<noteq> []")
  case False
  assume "wf_driver st"
  then have "wf_driver (cancel_stop_token st)" by (rule wf_cancel_token)
  with False show ?thesis
    by (auto simp: begin_graceful_stop_def cancel_stop_token_def wf_driver_def driver_bounds_def
        completion_store_def store_linked_def stored_def stop_flags_def strict_inv_def)
qed (simp add: begin_graceful_stop_def)

lemma wf_acknowledge:
  assumes wf: "wf_driver st"
  shows "wf_driver (fst (acknowledge_cancel st k))"
proof (cases "bt_get (fd_live st) k")
  case (Some l)
  with wf wf_cancelled [OF wf live_member [OF wf Some]] show ?thesis
    by (simp add: acknowledge_cancel_def wf_forget_live)
qed (use wf in \<open>simp add: acknowledge_cancel_def\<close>)

section \<open>The driver as a system\<close>

datatype foreign_op =
    FSubmit foreign_command nat
  | FReceive
  | FComplete foreign_completion
  | FTake
  | FExpire nat
  | FBeginStop abort_reason
  | FGracefulStop
  | FTakeAbort
  | FAcknowledge u64
  | FCancelToken

fun foreign_step :: "foreign_op \<Rightarrow> foreign_driver \<Rightarrow> foreign_driver" where
  "foreign_step (FSubmit c now) st = fst (try_submit st c now)"
| "foreign_step FReceive st = fst (try_receive st)"
| "foreign_step (FComplete c) st = fst (try_complete st c)"
| "foreign_step FTake st = fst (try_take_completion st)"
| "foreign_step (FExpire now) st = fst (expire_deadlines st now)"
| "foreign_step (FBeginStop r) st = fst (begin_stop st r)"
| "foreign_step FGracefulStop st = fst (begin_graceful_stop st)"
| "foreign_step FTakeAbort st = fst (take_abort_reason st)"
| "foreign_step (FAcknowledge k) st = fst (acknowledge_cancel st k)"
| "foreign_step FCancelToken st = cancel_stop_token st"

lemma foreign_step_wf: "wf_driver st \<Longrightarrow> wf_driver (foreign_step a st)"
  by (cases a)
     (simp_all add: try_submit_wf try_receive_wf try_complete_wf try_take_completion_wf wf_expire
       wf_graceful wf_acknowledge wf_cancel_token begin_stop_def wf_fail_locked take_abort_reason_def
       split: option.split)

interpretation fdr: guarded_system foreign_step wf_driver
  by unfold_locales (rule foreign_step_wf)

lemma foreign_driver_new_wf: "foreign_driver_new config = Inr st \<Longrightarrow> wf_driver st"
  by (auto simp: foreign_driver_new_def res_iff wf_driver_def driver_bounds_def completion_store_def
      store_linked_def stored_def stop_flags_def strict_inv_def bt_keys_def bt_values_def)

lemmas foreign_op_defs = try_submit_def try_receive_def try_complete_def try_take_completion_def
  expire_deadlines_def begin_stop_def begin_graceful_stop_def take_abort_reason_def acknowledge_cancel_def
  cancel_stop_token_def accept_completion_def store_ready_def store_ordered_def mark_received_def count_late_def

text \<open>What no operation changes or undoes.\<close>

lemma foreign_step_frame:
  "fd_config (foreign_step a st) = fd_config st"
  "fd_stopping st \<Longrightarrow> fd_stopping (foreign_step a st)"
  "fd_abort_taken st \<Longrightarrow> fd_abort_taken (foreign_step a st)"
  by (cases a; simp add: foreign_op_defs Let_def
      split: list.split option.split foreign_completion_kind.split foreign_ordering.split)+

section \<open>Properties\<close>

text \<open>
  C7. For every interleaving of submissions, receptions, completions, stops, deadline checks,
  acknowledgements and external cancellations, a foreign driver stays within its configured
  limits: in-flight calls, queued commands and their bytes, stored completions and their
  bytes; the byte counters are exact sums and never saturate.
\<close>

theorem foreign_driver_bounded:
  assumes "foreign_driver_new config = Inr d"
  shows "let st = fold foreign_step ops d in
    length (fd_live st) \<le> fc_max_in_flight (fd_config st) \<and>
    length (fd_commands st) \<le> fc_command_capacity (fd_config st) \<and>
    fd_command_bytes st = sum_list (map qc_bytes (fd_commands st)) \<and>
    fd_command_bytes st \<le> fc_command_byte_capacity (fd_config st) \<and>
    length (fd_ready st) + length (fd_ordered st) \<le> fc_completion_capacity (fd_config st) \<and>
    fd_ready_bytes st + fd_ordered_bytes st =
      sum_list (map qp_bytes (fd_ready st)) + sum_list (map qp_bytes (bt_values (fd_ordered st))) \<and>
    fd_ready_bytes st + fd_ordered_bytes st \<le> fc_completion_byte_capacity (fd_config st)"
  using fdr.run_inv [OF foreign_driver_new_wf [OF assms], of ops]
  by (simp add: Let_def wf_driver_def driver_bounds_def completion_store_def)

text \<open>
  C6. With strict ordering a completion is handed to the graph only when no earlier call is
  live: every call still in flight afterwards has a larger sequence number, whatever the
  order in which the foreign domain completed them.
\<close>

theorem foreign_strict_release_order:
  assumes "foreign_driver_new config = Inr d" and "fc_ordering config = Strict"
    and "try_take_completion (fold foreign_step ops d) = (st', Some c)"
  shows "\<forall>k \<in> set (bt_keys (fd_live st')). fp_sequence c < k"
proof -
  let ?st = "fold foreign_step ops d"
  have wf: "wf_driver ?st" by (rule fdr.run_inv [OF foreign_driver_new_wf [OF assms(1)]])
  have "fd_config (fold foreign_step ops st) = fd_config st" for st
    by (induction ops arbitrary: st) (simp_all add: foreign_step_frame)
  then have strict: "fc_ordering (fd_config ?st) = Strict"
    using assms(1,2) by (auto simp: foreign_driver_new_def res_iff)
  have inv: "strict_inv ?st" using wf by (simp add: wf_driver_def)
  from assms(3) obtain q qs where q: "fd_ready ?st = q # qs" "c = qp_completion q"
    and live: "fd_live st' = bt_remove (completion_seq q) (fd_live ?st)"
    by (auto simp: try_take_completion_def Let_def split: list.splits if_splits)
  have "\<forall>k \<in> set (bt_keys (fd_live ?st)). fp_sequence c \<le> k"
    using strict_invD(2,4) [OF inv strict] q by auto
  then show ?thesis by (auto simp: live q(2) bt_keys_def bt_remove_def le_less)
qed

text \<open>The results of one kind of call along a run.\<close>

fun op_log :: "(foreign_op \<Rightarrow> foreign_driver \<Rightarrow> 'a) \<Rightarrow> foreign_op list \<Rightarrow> foreign_driver \<Rightarrow> 'a list" where
  "op_log out [] st = []"
| "op_log out (a # as) st = out a st # op_log out as (foreign_step a st)"

definition stop_won :: "foreign_op \<Rightarrow> foreign_driver \<Rightarrow> bool" where
  "stop_won a st =
     (case a of FBeginStop r \<Rightarrow> snd (begin_stop st r) | FGracefulStop \<Rightarrow> snd (begin_graceful_stop st) | _ \<Rightarrow> False)"

definition abort_published :: "foreign_op \<Rightarrow> foreign_driver \<Rightarrow> bool" where
  "abort_published a st = (case a of FTakeAbort \<Rightarrow> snd (take_abort_reason st) \<noteq> None | _ \<Rightarrow> False)"

text \<open>An event that sets a latch and needs it unset happens at most once.\<close>

lemma op_log_once:
  assumes set: "\<And>a st. out a st \<Longrightarrow> \<not> latch st \<and> latch (foreign_step a st)"
    and keep: "\<And>a st. latch st \<Longrightarrow> latch (foreign_step a st)"
  shows "length (filter id (op_log out ops st)) \<le> (if latch st then 0 else 1)"
proof (induction ops arbitrary: st)
  case (Cons a ops)
  show ?case using Cons.IH [of "foreign_step a st"] set [of a st] keep [of st a] by (auto split: if_splits)
qed simp

text \<open>
  However many threads race to stop a foreign domain, at most one of them wins
  (\<open>begin_stop\<close> or \<open>begin_graceful_stop\<close> returns true), and the terminal reason is
  published at most once.
\<close>

lemma foreign_single_stop_owner:
  "length (filter id (op_log stop_won ops st)) \<le> 1 \<and> length (filter id (op_log abort_published ops st)) \<le> 1"
proof
  have "length (filter id (op_log stop_won ops st)) \<le> (if fd_stopping st then 0 else 1)"
    by (rule op_log_once)
       (auto simp: stop_won_def begin_stop_def begin_graceful_stop_def foreign_step_frame(2) split: foreign_op.splits if_splits)
  then show "length (filter id (op_log stop_won ops st)) \<le> 1" by (simp split: if_splits)
  have "length (filter id (op_log abort_published ops st)) \<le> (if fd_abort_taken st then 0 else 1)"
    by (rule op_log_once)
       (auto simp: abort_published_def take_abort_reason_def foreign_step_frame(3)
         split: foreign_op.splits if_splits option.splits)
  then show "length (filter id (op_log abort_published ops st)) \<le> 1" by (simp split: if_splits)
qed

text \<open>Once stopping, no call becomes live and every live call is cancelled.\<close>

lemma stopping_live_shrinks:
  assumes "wf_driver st" and "fd_stopping st"
  shows "set (bt_keys (fd_live (foreign_step a st))) \<subseteq> set (bt_keys (fd_live st))"
proof -
  have inv: "bt_inv (fd_live st)" using assms(1) by (simp add: wf_driver_def driver_bounds_def)
  have "set (bt_keys (fd_live (fail_locked st r))) \<subseteq> set (bt_keys (fd_live st))" for r
    by (auto simp: fail_locked_live [OF inv] dispatched_live_def bt_keys_def)
  moreover have "set (bt_keys (bt_remove k m)) \<subseteq> set (bt_keys m)" for k and m :: "(u64, live_command) btree"
    by (auto simp: bt_keys_def bt_remove_def)
  ultimately show ?thesis using assms(2)
    by (cases a) (auto simp: foreign_op_defs Let_def
        split: list.split option.split foreign_completion_kind.split foreign_ordering.split dest: subsetD)
qed

lemma acknowledge_all:
  "wf_driver st \<Longrightarrow> fd_stopping st \<Longrightarrow>
     fd_live (fold (\<lambda>k st. fst (acknowledge_cancel st k)) ks st) = filter (\<lambda>e. fst e \<notin> set ks) (fd_live st)"
proof (induction ks arbitrary: st)
  case (Cons k ks)
  have ack: "fst (acknowledge_cancel st k) = forget_live k st \<or>
      fst (acknowledge_cancel st k) = st \<and> bt_get (fd_live st) k = None"
  proof (cases "bt_get (fd_live st) k")
    case (Some l)
    with live_member [OF Cons.prems(1) Some] Cons.prems have "lv_cancelled l"
      by (auto simp: wf_driver_def stop_flags_def)
    with Some show ?thesis by (simp add: acknowledge_cancel_def)
  qed (simp add: acknowledge_cancel_def)
  then have live: "fd_live (fst (acknowledge_cancel st k)) = filter (\<lambda>e. fst e \<noteq> k) (fd_live st)"
    by (auto simp: bt_remove_def bt_get_None bt_keys_def intro!: filter_True [symmetric])
  have "fd_stopping (fst (acknowledge_cancel st k))" using ack Cons.prems(2) by auto
  from Cons.IH [OF wf_acknowledge [OF Cons.prems(1)] this] live show ?case by (simp add: conj_commute)
qed simp

text \<open>
  C19. Shutdown can always complete: once a driver is stopping, no operation makes another call
  live, and when the foreign domain acknowledges the calls that are left, in any order,
  waiting for drained work succeeds.
\<close>

theorem foreign_shutdown_drains:
  assumes "foreign_driver_new config = Inr d" and "fd_stopping (fold foreign_step ops d)"
    and "set (bt_keys (fd_live (fold foreign_step ops d))) \<subseteq> set acks"
  shows "set (bt_keys (fd_live (foreign_step a (fold foreign_step ops d))))
           \<subseteq> set (bt_keys (fd_live (fold foreign_step ops d))) \<and>
         wait_drained (fold foreign_step (map FAcknowledge acks) (fold foreign_step ops d)) timed_out now deadline = Drained"
proof -
  let ?st = "fold foreign_step ops d"
  have wf: "wf_driver ?st" by (rule fdr.run_inv [OF foreign_driver_new_wf [OF assms(1)]])
  have "fd_live (fold foreign_step (map FAcknowledge acks) ?st) = filter (\<lambda>e. fst e \<notin> set acks) (fd_live ?st)"
    using acknowledge_all [OF wf assms(2), of acks] by (simp add: fold_map comp_def foreign_step.simps [abs_def])
  also have "\<dots> = []" using assms(3) by (auto simp: filter_empty_conv bt_keys_def)
  finally show ?thesis using stopping_live_shrinks [OF wf assms(2)] by (simp add: wait_drained_def)
qed

text \<open>
  A full mailbox burns the sequence number: in strict mode a submission that is refused as
  \<open>Full\<close> has already advanced the expected sequence, so submitting the same command again,
  at any later time with no other submission in between, fails with \<open>StrictSequenceGap\<close>.
\<close>

lemma foreign_full_burns_sequence:
  assumes "fc_ordering (fd_config st) = Strict" and "fo_sequence c < u64_max"
    and "try_submit st c now = (st', Inr SubmitFull)"
  shows "try_submit st' c now' = (st', Inl StrictSequenceGap)"
proof -
  from assms have "\<not> fd_stopping st" "\<not> is_cancelled (fd_stop st)" "fd_accepting st"
    "bt_get (fd_live st) (fo_sequence c) = None" "st' = st\<lparr>fd_last_strict_sequence := Some (fo_sequence c)\<rparr>"
    by (auto simp: try_submit_def Let_def split: if_splits)
  with assms(1,2) show ?thesis by (simp add: try_submit_def Let_def submit_sequence_ok_def checked_add64_def)
qed

lemma fold_sat_add: "n \<le> u64_max \<Longrightarrow> fold (\<lambda>_ k. sat_add64 k 1) xs n = min (n + length xs) u64_max"
  by (induction xs arbitrary: n) (auto simp: sat_add64_def min_def)

text \<open>
  A deadline check that finds expired calls counts twice and repeats itself: the
  cancellation total grows by the calls it cancels and again by the calls that expired,
  and every such check queues an abort and a stop control, also when the driver is
  already stopping and nothing is left to cancel.
\<close>

lemma foreign_expire_accounting:
  assumes "foreign_driver_new config = Inr d" and "expired_sequences (fold foreign_step ops d) now \<noteq> []"
    and "fd_cancellation_total (fold foreign_step ops d) \<le> u64_max"
  shows "let st = fold foreign_step ops d; st' = fst (expire_deadlines st now);
             cancelled = length (uncancelled (dispatched_live st)) in
         fd_cancellation_total st' =
           min (fd_cancellation_total st + cancelled + length (expired_sequences st now)) u64_max \<and>
         length (fd_controls st') = length (fd_controls st) + cancelled + 2"
proof -
  let ?st = "fold foreign_step ops d"
  have "wf_driver ?st" by (rule fdr.run_inv [OF foreign_driver_new_wf [OF assms(1)]])
  then have inv: "bt_inv (fd_live ?st)" by (simp add: wf_driver_def driver_bounds_def)
  let ?r = "foreign_abort ''MUXIVA-FOREIGN-DEADLINE'' ''foreign call deadline elapsed''"
  have "fst (expire_deadlines ?st now) = (fail_locked ?st ?r)\<lparr>fd_cancellation_total :=
      sat_add64 (fd_cancellation_total (fail_locked ?st ?r)) (length (expired_sequences ?st now))\<rparr>"
    using assms(2) by (simp add: Let_def expire_deadlines_def)
  moreover note fail_locked_controls [OF inv, of ?r, unfolded fold_sat_add [OF assms(3)]]
  ultimately show ?thesis by (auto simp: Let_def sat_add64_def min_def)
qed

section \<open>Witnesses\<close>

definition example_driver :: foreign_driver where
  "example_driver =
     \<lparr>fd_config = foreign_config_default, fd_stop = stop_token_new, fd_commands = [], fd_command_bytes = 0,
      fd_controls = [], fd_ready = [], fd_ready_bytes = 0, fd_ordered = [], fd_ordered_bytes = 0,
      fd_live = [], fd_strict_order = [], fd_last_strict_sequence = None, fd_accepting = True,
      fd_stopping = False, fd_abort_reason = None, fd_abort_taken = False,
      fd_late_completion_total = 0, fd_cancellation_total = 0\<rparr>"

lemma example_driver_new: "foreign_driver_new foreign_config_default = Inr example_driver"
  by (simp add: foreign_driver_new_def foreign_config_validate_def foreign_config_default_def example_driver_def)

abbreviation example_call :: "u64 \<Rightarrow> foreign_command" where
  "example_call n \<equiv> foreign_command_new n FcPrepare"

lemmas example_driver_defs = example_driver_def foreign_config_default_def foreign_command_new_def
  command_bytes_def fits_def checked_add64_def sat_add64_def u64_max_def stop_token_new_def is_cancelled_def
  submit_sequence_ok_def bt_get_def Let_def

lemma example_submit:
  "foreign_step (FSubmit (example_call 7) 0) example_driver = example_driver\<lparr>
     fd_commands := [\<lparr>qc_command = example_call 7, qc_bytes = 1\<rparr>], fd_command_bytes := 1,
     fd_live := [(7, \<lparr>lv_deadline = 10000000000, lv_dispatched = False, lv_cancelled = False,
       lv_completion_received = False\<rparr>)],
     fd_strict_order := [7], fd_last_strict_sequence := Some 7\<rparr>"
  by (simp add: try_submit_def example_driver_defs)

lemma example_receive:
  "fold foreign_step [FSubmit (example_call 7) 0, FReceive] example_driver = example_driver\<lparr>
     fd_live := [(7, \<lparr>lv_deadline = 10000000000, lv_dispatched = True, lv_cancelled = False,
       lv_completion_received = False\<rparr>)],
     fd_strict_order := [7], fd_last_strict_sequence := Some 7\<rparr>"
  by (simp add: example_submit del: foreign_step.simps(1))
     (simp add: try_receive_def foreign_command_new_def bt_get_def example_driver_def Let_def)

theorem foreign_driver_bounded_witness:
  "length (fd_live (fold foreign_step [FSubmit (example_call 7) 0, FSubmit (example_call 8) 0] example_driver)) \<le>
     fc_max_in_flight (fd_config (fold foreign_step [FSubmit (example_call 7) 0, FSubmit (example_call 8) 0] example_driver))"
  using foreign_driver_bounded [OF example_driver_new, of "[FSubmit (example_call 7) 0, FSubmit (example_call 8) 0]"]
  unfolding Let_def by blast

lemma example_take:
  "\<exists>st. try_take_completion (fold foreign_step
     ([FSubmit (example_call 7) 0, FReceive] @ [FComplete (completion_success 7 [] [] [])]) example_driver) =
     (st, Some (completion_success 7 [] [] []))"
  unfolding fold_append comp_apply example_receive
  by (simp add: try_complete_def try_take_completion_def accept_completion_def mark_received_def store_ordered_def
      completion_success_def completion_bytes_def promote_strict.simps bt_remove_def example_driver_defs)

theorem foreign_strict_release_order_witness:
  "\<exists>st'. try_take_completion (fold foreign_step
     ([FSubmit (example_call 7) 0, FReceive] @ [FComplete (completion_success 7 [] [] [])]) example_driver) =
       (st', Some (completion_success 7 [] [] [])) \<and>
     (\<forall>k \<in> set (bt_keys (fd_live st')). 7 < k)"
proof -
  obtain st' where t: "try_take_completion (fold foreign_step
     ([FSubmit (example_call 7) 0, FReceive] @ [FComplete (completion_success 7 [] [] [])]) example_driver) =
       (st', Some (completion_success 7 [] [] []))"
    using example_take by blast
  have "fc_ordering foreign_config_default = Strict" by (simp add: foreign_config_default_def)
  from foreign_strict_release_order [OF example_driver_new this t] t show ?thesis
    by (auto simp: completion_success_def)
qed

theorem foreign_shutdown_drains_witness:
  "wait_drained (fold foreign_step (map FAcknowledge [7])
     (fold foreign_step ([FSubmit (example_call 7) 0, FReceive] @ [FBeginStop (foreign_abort ''MUXIVA-STOP'' ''stop'')]) example_driver)) False 0 1 = Drained"
proof -
  let ?st = "fold foreign_step ([FSubmit (example_call 7) 0, FReceive] @ [FBeginStop (foreign_abort ''MUXIVA-STOP'' ''stop'')]) example_driver"
  have st: "?st = fail_locked (fold foreign_step [FSubmit (example_call 7) 0, FReceive] example_driver)
      (foreign_abort ''MUXIVA-STOP'' ''stop'')"
    unfolding fold_append comp_apply example_receive by (simp add: begin_stop_def example_driver_def)
  have "fd_stopping ?st" unfolding st by simp
  moreover have "set (bt_keys (fd_live ?st)) \<subseteq> set [7]"
    unfolding st example_receive
    by (subst fail_locked_live) (auto simp: dispatched_live_def bt_inv_def bt_keys_def)
  ultimately show ?thesis using foreign_shutdown_drains [OF example_driver_new] by blast
qed

lemma foreign_full_burns_sequence_witness:
  "\<exists>st. snd (try_submit (foreign_step (FSubmit (example_call 7) 0) example_driver) (example_call 8) 0) = Inr SubmitFull \<and>
     try_submit st (example_call 8) 1 = (st, Inl StrictSequenceGap)"
proof -
  let ?st = "foreign_step (FSubmit (example_call 7) 0) example_driver"
  have "snd (try_submit ?st (example_call 8) 0) = Inr SubmitFull"
    unfolding example_submit by (simp add: try_submit_def example_driver_defs)
  then obtain st' where t: "try_submit ?st (example_call 8) 0 = (st', Inr SubmitFull)"
    by (cases "try_submit ?st (example_call 8) 0") simp
  have "fc_ordering (fd_config ?st) = Strict" unfolding example_submit by (simp add: example_driver_defs)
  from foreign_full_burns_sequence [OF this _ t] t show ?thesis
    by (auto simp: foreign_command_new_def u64_max_def)
qed

lemma foreign_expire_accounting_witness:
  "fd_cancellation_total (fst (expire_deadlines
     (fold foreign_step [FSubmit (example_call 7) 0, FReceive] example_driver) 10000000000)) = 2"
proof -
  let ?st = "fold foreign_step [FSubmit (example_call 7) 0, FReceive] example_driver"
  have e: "expired_sequences ?st 10000000000 = [7]" "fd_cancellation_total ?st = 0"
    "uncancelled (dispatched_live ?st) = [7]"
    unfolding example_receive
    by (simp_all add: expired_sequences_def uncancelled_def dispatched_live_def example_driver_def)
  from foreign_expire_accounting [OF example_driver_new, of "[FSubmit (example_call 7) 0, FReceive]" 10000000000] e
  show ?thesis by (simp add: Let_def u64_max_def)
qed

end
