(* ===== verification/Registry.thy ===== *)
theory Registry
  imports Runner
begin

text \<open>
  The trusted node and edge-policy registries (\<open>muxiva-core/src/registry.rs\<close>) and the
  materialisation of a compiled graph through them (\<open>registered_runtime.rs\<close>). A factory is
  user code: its validation is a function of the configuration, as its contract demands, and
  its creation a function that may change a world \<open>'w\<close>; both may fail or panic. \<open>'n\<close> is
  the type of the created node objects.
\<close>

section \<open>Types\<close>

text \<open>\<open>NodeLanguage\<close> derives its order from the order of its variants.\<close>

fun language_index :: "node_language \<Rightarrow> nat" where
  "language_index LangRust = 0"
| "language_index LangCpp = 1"
| "language_index LangPython = 2"
| "language_index LangTypeScript = 3"

lemma language_index_inj [simp]: "language_index a = language_index b \<longleftrightarrow> a = b"
  by (cases a; cases b) simp_all

instantiation node_language :: linorder
begin

definition less_eq_node_language :: "node_language \<Rightarrow> node_language \<Rightarrow> bool" where
  "less_eq_node_language a b \<longleftrightarrow> language_index a \<le> language_index b"

definition less_node_language :: "node_language \<Rightarrow> node_language \<Rightarrow> bool" where
  "less_node_language a b \<longleftrightarrow> language_index a < language_index b"

instance
proof
  fix a b :: node_language
  show "a \<le> b \<Longrightarrow> b \<le> a \<Longrightarrow> a = b"
    using language_index_inj by (simp add: less_eq_node_language_def)
qed (auto simp: less_eq_node_language_def less_node_language_def)

end

record node_factory_error =
  fe_code :: string
  fe_message :: string

datatype 'a factory_outcome = FactoryOk 'a | FactoryErr node_factory_error | FactoryPanic

record ('n, 'w) node_factory =
  fa_validate_config :: "config_map \<Rightarrow> unit factory_outcome"
  fa_create :: "node_id \<Rightarrow> config_map \<Rightarrow> 'w \<Rightarrow> 'w \<times> 'n factory_outcome"

record ('n, 'w) node_registration =
  nr_language :: node_language
  nr_descriptor :: node_descriptor
  nr_version :: node_factory_version
  nr_factory :: "('n, 'w) node_factory"

record edge_policy_registration =
  pr_policy :: edge_policy_name
  pr_version :: string
  pr_supported_frame_types :: "frame_type list"

datatype registry_error =
    InvalidNodeDescriptor node_type_name graph_build_error
  | RegDuplicateNode node_type_name node_language node_factory_version
  | DuplicatePolicy edge_policy_name
  | UnknownNode node_type_name node_language node_factory_version
  | UnknownPolicy edge_policy_name

datatype node_creation_stage = StageValidateConfig | StageCreate

datatype node_create_error =
    CreateRegistry registry_error
  | CreateFactory node_type_name node_language node_factory_version node_id node_creation_stage node_factory_error
  | CreatePanicked node_type_name node_language node_factory_version node_id node_creation_stage

type_synonym node_registry_key = "node_type_name \<times> node_language \<times> node_factory_version"

type_synonym ('n, 'w) node_registry = "(node_registry_key, ('n, 'w) node_registration) btree"

type_synonym edge_policy_registry = "(edge_policy_name, edge_policy_registration) btree"

section \<open>The node registry\<close>

definition registration_key :: "('n, 'w) node_registration \<Rightarrow> node_registry_key" where
  "registration_key registration =
     (nd_node_type (nr_descriptor registration), nr_language registration, nr_version registration)"

definition registration_descriptor_for :: "('n, 'w) node_registration \<Rightarrow> node_id \<Rightarrow> node_descriptor" where
  "registration_descriptor_for self node_id = for_node_id (nr_descriptor self) node_id"

definition registry_register ::
  "('n, 'w) node_registry \<Rightarrow> ('n, 'w) node_registration \<Rightarrow> registry_error + ('n, 'w) node_registry" where
  "registry_register self registration =
     (let node_type = nd_node_type (nr_descriptor registration) in
      case add_node builder_new (nr_descriptor registration) of
        Inl source \<Rightarrow> Inl (InvalidNodeDescriptor node_type source)
      | Inr _ \<Rightarrow>
          let key = (node_type, nr_language registration, nr_version registration) in
          if bt_get self key \<noteq> None
          then Inl (RegDuplicateNode node_type (nr_language registration) (nr_version registration))
          else Inr (bt_insert key registration self))"

definition registry_resolve ::
  "('n, 'w) node_registry \<Rightarrow> node_type_name \<Rightarrow> node_language \<Rightarrow> node_factory_version \<Rightarrow>
     registry_error + ('n, 'w) node_registration" where
  "registry_resolve self node_type language version =
     ok_or (bt_get self (node_type, language, version)) (UnknownNode node_type language version)"

definition registry_descriptor_for ::
  "('n, 'w) node_registry \<Rightarrow> node_type_name \<Rightarrow> node_language \<Rightarrow> node_factory_version \<Rightarrow> node_id \<Rightarrow>
     registry_error + node_descriptor" where
  "registry_descriptor_for self node_type language version node_id =
     res_bind (registry_resolve self node_type language version)
       (\<lambda>registration. Inr (registration_descriptor_for registration node_id))"

text \<open>The question-mark operator converts a registry error with \<open>NodeCreateError::from\<close>.\<close>

definition registry_validate_config ::
  "('n, 'w) node_registry \<Rightarrow> node_type_name \<Rightarrow> node_language \<Rightarrow> node_factory_version \<Rightarrow> node_id \<Rightarrow>
     config_map \<Rightarrow> node_create_error + unit" where
  "registry_validate_config self node_type language version node_id config =
     (case registry_resolve self node_type language version of
        Inl e \<Rightarrow> Inl (CreateRegistry e)
      | Inr registration \<Rightarrow>
          (case fa_validate_config (nr_factory registration) config of
             FactoryOk _ \<Rightarrow> Inr ()
           | FactoryErr source \<Rightarrow>
               Inl (CreateFactory node_type language version node_id StageValidateConfig source)
           | FactoryPanic \<Rightarrow> Inl (CreatePanicked node_type language version node_id StageValidateConfig)))"

definition registry_create ::
  "('n, 'w) node_registry \<Rightarrow> node_type_name \<Rightarrow> node_language \<Rightarrow> node_factory_version \<Rightarrow> node_id \<Rightarrow>
     config_map \<Rightarrow> ('w, node_create_error, 'n) act" where
  "registry_create self node_type language version node_id config world =
     (case registry_resolve self node_type language version of
        Inl e \<Rightarrow> (world, Inl (CreateRegistry e))
      | Inr registration \<Rightarrow>
          (case registry_validate_config self node_type language version node_id config of
             Inl e \<Rightarrow> (world, Inl e)
           | Inr _ \<Rightarrow>
               (case fa_create (nr_factory registration) node_id config world of
                  (world', FactoryOk node) \<Rightarrow> (world', Inr node)
                | (world', FactoryErr source) \<Rightarrow>
                    (world', Inl (CreateFactory node_type language version node_id StageCreate source))
                | (world', FactoryPanic) \<Rightarrow>
                    (world', Inl (CreatePanicked node_type language version node_id StageCreate)))))"

definition registry_entries :: "('n, 'w) node_registry \<Rightarrow> ('n, 'w) node_registration list" where
  "registry_entries self = bt_values self"

section \<open>The edge-policy registry\<close>

definition policy_register ::
  "edge_policy_registry \<Rightarrow> edge_policy_registration \<Rightarrow> registry_error + edge_policy_registry" where
  "policy_register self registration =
     (if bt_get self (pr_policy registration) \<noteq> None then Inl (DuplicatePolicy (pr_policy registration))
      else Inr (bt_insert (pr_policy registration) registration self))"

definition policy_resolve ::
  "edge_policy_registry \<Rightarrow> edge_policy_name \<Rightarrow> registry_error + edge_policy_registration" where
  "policy_resolve self policy = ok_or (bt_get self policy) (UnknownPolicy policy)"

definition policy_entries :: "edge_policy_registry \<Rightarrow> edge_policy_registration list" where
  "policy_entries self = bt_values self"

section \<open>Materialisation\<close>

datatype graph_materialization_error =
    MissingFactorySelection node_id node_type_name
  | NodeCreation node_id node_create_error

definition materialize_node ::
  "('n, 'w) node_registry \<Rightarrow> node_definition \<Rightarrow> ('w, graph_materialization_error, 'n) act" where
  "materialize_node registry definition' world =
     (let descriptor = nf_descriptor definition'; node_id = nd_node_id descriptor in
      case nf_factory definition' of
        None \<Rightarrow> (world, Inl (MissingFactorySelection node_id (nd_node_type descriptor)))
      | Some selection \<Rightarrow>
          (case registry_create registry (nd_node_type descriptor) (nfs_language selection)
                  (nfs_version selection) node_id (nf_config definition') world of
             (world', Inl source) \<Rightarrow> (world', Inl (NodeCreation node_id source))
           | (world', Inr node) \<Rightarrow> (world', Inr node)))"

fun materialize_loop ::
  "('n, 'w) node_registry \<Rightarrow> node_definition list \<Rightarrow> (node_id, 'n) btree \<Rightarrow>
     ('w, graph_materialization_error, (node_id, 'n) btree) act" where
  "materialize_loop registry [] instances = se_return instances"
| "materialize_loop registry (definition' # definitions) instances =
     se_bind (materialize_node registry definition') (\<lambda>node.
       materialize_loop registry definitions
         (bt_insert (nd_node_id (nf_descriptor definition')) node instances))"

definition materialize_registered_nodes ::
  "graph_definition \<Rightarrow> ('n, 'w) node_registry \<Rightarrow> ('w, graph_materialization_error, (node_id, 'n) btree) act" where
  "materialize_registered_nodes graph registry = materialize_loop registry (gd_nodes graph) []"

section \<open>The contract of a registry\<close>

text \<open>Calling \<open>register\<close> for each element, with the errors reported and otherwise ignored.\<close>

definition register_each :: "('m \<Rightarrow> 'r \<Rightarrow> 'e + 'm) \<Rightarrow> 'r list \<Rightarrow> 'm \<Rightarrow> 'm" where
  "register_each register rs m = fold (\<lambda>r m. case register m r of Inl _ \<Rightarrow> m | Inr m' \<Rightarrow> m') rs m"

locale keyed_registry =
  fixes register :: "'m \<Rightarrow> 'r \<Rightarrow> 'e + 'm"
    and lookup :: "'m \<Rightarrow> 'k \<Rightarrow> 'r option"
    and key :: "'r \<Rightarrow> 'k"
    and valid_entry :: "'r \<Rightarrow> bool"
    and empty :: 'm
  assumes lookup_empty: "lookup empty k = None"
    and register_ok: "valid_entry r \<Longrightarrow> lookup m (key r) = None \<Longrightarrow>
      \<exists>m'. register m r = Inr m' \<and> lookup m' = (lookup m)(key r \<mapsto> r)"
    and register_refused: "\<not> valid_entry r \<or> lookup m (key r) \<noteq> None \<Longrightarrow> \<exists>e. register m r = Inl e"
begin

lemma register_lookup:
  "lookup (case register m r of Inl _ \<Rightarrow> m | Inr m' \<Rightarrow> m') k =
     (if lookup m k = None \<and> valid_entry r \<and> key r = k then Some r else lookup m k)"
proof (cases "valid_entry r \<and> lookup m (key r) = None")
  case True
  with register_ok [of r m] show ?thesis by auto
next
  case False
  with register_refused [of r m] show ?thesis by auto
qed

lemma register_each_lookup:
  "lookup (register_each register rs m) k =
     (case lookup m k of Some r \<Rightarrow> Some r
      | None \<Rightarrow> List.find (\<lambda>r. valid_entry r \<and> key r = k) rs)"
proof (induction rs arbitrary: m)
  case (Cons r rs)
  have "register_each register (r # rs) m =
      register_each register rs (case register m r of Inl _ \<Rightarrow> m | Inr m' \<Rightarrow> m')"
    by (simp add: register_each_def)
  then show ?case by (simp only: Cons.IH register_lookup) (simp split: option.splits)
qed (simp add: register_each_def split: option.splits)

lemma first_wins: "lookup (register_each register rs empty) k = List.find (\<lambda>r. valid_entry r \<and> key r = k) rs"
  by (simp add: register_each_lookup lookup_empty)

end

lemma register_each_inv:
  "P m \<Longrightarrow> (\<And>m r m'. P m \<Longrightarrow> register m r = Inr m' \<Longrightarrow> P m') \<Longrightarrow> P (register_each register rs m)"
  unfolding register_each_def by (induction rs arbitrary: m) (auto split: sum.splits)

text \<open>A single \<open>add_node\<close> on a new builder is the validation of the descriptor.\<close>

lemma add_node_new:
  "add_node builder_new d = res_bind (validate_node_descriptor d) (\<lambda>_. Inr
     (builder_new\<lparr>gb_nodes := [(nd_node_id d, \<lparr>nf_descriptor = d, nf_config = [], nf_factory = None\<rparr>)]\<rparr>))"
  by (simp add: add_node_def builder_new_def builder_with_graph_id_def Let_def)

interpretation node_reg: keyed_registry registry_register bt_get registration_key
  "\<lambda>r. validate_node_descriptor (nr_descriptor r) = Inr ()" "[]"
proof unfold_locales
  fix r :: "('n, 'w) node_registration" and m
  show "validate_node_descriptor (nr_descriptor r) = Inr () \<Longrightarrow> bt_get m (registration_key r) = None \<Longrightarrow>
      \<exists>m'. registry_register m r = Inr m' \<and> bt_get m' = (bt_get m)(registration_key r \<mapsto> r)"
    by (simp add: registry_register_def registration_key_def add_node_new bt_get_insert Let_def)
  show "validate_node_descriptor (nr_descriptor r) \<noteq> Inr () \<or> bt_get m (registration_key r) \<noteq> None \<Longrightarrow>
      \<exists>e. registry_register m r = Inl e"
    by (cases "validate_node_descriptor (nr_descriptor r)")
       (simp_all add: registry_register_def registration_key_def add_node_new Let_def)
qed simp

interpretation policy_reg: keyed_registry policy_register bt_get pr_policy "\<lambda>_. True" "[]"
  by unfold_locales (simp_all add: policy_register_def bt_get_insert)

lemma register_entries:
  assumes "registry_register m r = Inr m'"
    and "bt_inv m \<and> list_all (\<lambda>(k, r). registration_key r = k \<and> wf_node_descriptor (nr_descriptor r)) m"
  shows "bt_inv m' \<and> list_all (\<lambda>(k, r). registration_key r = k \<and> wf_node_descriptor (nr_descriptor r)) m'"
proof -
  from assms(1) have m': "m' = bt_insert (registration_key r) r m"
    and ok: "validate_node_descriptor (nr_descriptor r) = Inr ()"
    by (auto simp: registry_register_def registration_key_def add_node_new Let_def res_iff
        split: if_splits sum.splits)
  have "set (bt_insert k v m) \<subseteq> insert (k, v) (set m)" for k v and m :: "('n, 'w) node_registry"
    by (induction k v m rule: bt_insert.induct) auto
  then have "set m' \<subseteq> insert (registration_key r, r) (set m)" unfolding m' by blast
  with assms(2) wf_node_descriptor_valid [OF ok] bt_inv_insert [of m] show ?thesis
    by (auto simp: list_all_iff m')
qed

lemma wf_for_node_id: "wf_node_descriptor d \<Longrightarrow> wf_node_descriptor (for_node_id d i)"
  by (simp add: wf_node_descriptor_def for_node_id_def list.pred_map list.pred_True comp_def)

section \<open>Properties\<close>

text \<open>
  C25. The node registry is a partial function in which the first valid registration of a
  key wins: after any sequence of \<open>register\<close> calls, \<open>resolve\<close> returns exactly the first
  registration with the requested type, language and version whose descriptor is accepted,
  and reports an unknown node when there is none; the listed entries are sorted by their
  keys, each key occurs once, and every descriptor materialised for a node id is well formed.
\<close>

theorem registry_first_wins:
  fixes rs :: "('n, 'w) node_registration list"
  shows "let reg = register_each registry_register rs [] in
     registry_resolve reg t l v =
       (case List.find (\<lambda>r. validate_node_descriptor (nr_descriptor r) = Inr () \<and>
                            registration_key r = (t, l, v)) rs of
          Some r \<Rightarrow> Inr r | None \<Rightarrow> Inl (UnknownNode t l v)) \<and>
     sorted_wrt (<) (map registration_key (registry_entries reg)) \<and>
     list_all (\<lambda>r. wf_node_descriptor (registration_descriptor_for r i)) (registry_entries reg)"
proof -
  let ?reg = "register_each registry_register rs []"
  have inv: "bt_inv ?reg \<and> list_all (\<lambda>(k, r). registration_key r = k \<and> wf_node_descriptor (nr_descriptor r)) ?reg"
    by (rule register_each_inv) (auto dest: register_entries)
  then have "map registration_key (registry_entries ?reg) = map fst ?reg"
    by (auto simp: registry_entries_def bt_values_def list_all_iff)
  moreover have "wf_node_descriptor (for_node_id d i)" if "wf_node_descriptor d" for d
    using that by (rule wf_for_node_id)
  moreover have "sorted_wrt (<) (map fst ?reg)" using inv by (simp add: bt_inv_def)
  moreover have "list_all (\<lambda>r. wf_node_descriptor (nr_descriptor r)) (registry_entries ?reg)"
    using inv by (auto simp: registry_entries_def bt_values_def list_all_iff)
  ultimately show ?thesis
    using node_reg.first_wins [of rs "(t, l, v)"]
    by (simp add: registry_resolve_def ok_or_def registration_descriptor_for_def list_all_iff Let_def)
qed

lemma registry_create_Inr:
  "registry_create reg t l v i config w = (w', Inr n) \<longleftrightarrow>
     (\<exists>r u. bt_get reg (t, l, v) = Some r \<and> fa_validate_config (nr_factory r) config = FactoryOk u \<and>
        fa_create (nr_factory r) i config w = (w', FactoryOk n))"
  by (auto simp: registry_create_def registry_resolve_def registry_validate_config_def ok_or_def
      split: option.splits sum.splits prod.splits factory_outcome.splits)

definition node_ids :: "node_definition list \<Rightarrow> node_id list" where
  "node_ids ds = map (\<lambda>d. nd_node_id (nf_descriptor d)) ds"

lemma materialize_loop_Inr:
  "materialize_loop reg ds m w = (w', Inr m') \<Longrightarrow> set (bt_keys m') = set (bt_keys m) \<union> set (node_ids ds)"
proof (induction ds arbitrary: m w)
  case (Cons d ds)
  then obtain w1 n where "materialize_loop reg ds (bt_insert (nd_node_id (nf_descriptor d)) n m) w1 = (w', Inr m')"
    by (auto simp: se_bind_def split: prod.splits sum.splits)
  from Cons.IH [OF this] set_bt_insert [of "nd_node_id (nf_descriptor d)" n m] show ?case
    by (auto simp: bt_keys_def node_ids_def)
qed (simp add: se_return_def node_ids_def)

lemma materialize_loop_Inl:
  "materialize_loop reg ds m w = (w', Inl e) \<Longrightarrow>
     \<exists>pre d post w1 m1. ds = pre @ d # post \<and> materialize_loop reg pre m w = (w1, Inr m1) \<and>
       materialize_node reg d w1 = (w', Inl e)"
proof (induction ds arbitrary: m w)
  case (Cons d ds)
  obtain w1 r where node: "materialize_node reg d w = (w1, r)" by (rule prod.exhaust)
  show ?case
  proof (cases r)
    case (Inl e')
    with node Cons.prems have "materialize_node reg d w = (w', Inl e)" by (simp add: se_bind_def)
    then show ?thesis
      by (intro exI [of _ "[]"] exI [of _ d] exI [of _ ds] exI [of _ w] exI [of _ m])
         (simp add: se_return_def)
  next
    case (Inr n)
    with node Cons.prems
    have "materialize_loop reg ds (bt_insert (nd_node_id (nf_descriptor d)) n m) w1 = (w', Inl e)"
      by (simp add: se_bind_def)
    from Cons.IH [OF this] obtain pre d' post w2 m2 where
      "ds = pre @ d' # post"
      "materialize_loop reg pre (bt_insert (nd_node_id (nf_descriptor d)) n m) w1 = (w2, Inr m2)"
      "materialize_node reg d' w2 = (w', Inl e)"
      by blast
    with node Inr show ?thesis
      by (intro exI [of _ "d # pre"] exI [of _ d'] exI [of _ post] exI [of _ w2] exI [of _ m2])
         (simp add: se_bind_def)
  qed
qed (simp add: se_return_def)

lemma materialize_node_Inl:
  "materialize_node reg d w = (w', Inl e) \<Longrightarrow>
     (case nf_factory d of
        None \<Rightarrow> w' = w \<and> e = MissingFactorySelection (nd_node_id (nf_descriptor d)) (nd_node_type (nf_descriptor d))
      | Some selection \<Rightarrow>
          \<exists>source. e = NodeCreation (nd_node_id (nf_descriptor d)) source \<and>
            registry_create reg (nd_node_type (nf_descriptor d)) (nfs_language selection)
              (nfs_version selection) (nd_node_id (nf_descriptor d)) (nf_config d) w = (w', Inl source))"
  by (cases "nf_factory d") (simp_all add: materialize_node_def Let_def split: prod.splits sum.splits)

text \<open>Instances that match the nodes of the graph are never the reason to refuse a runner.\<close>

lemma fold_bs_insert_set: "set xs = set ys \<Longrightarrow> fold bs_insert xs [] = fold bs_insert ys ([] :: string list)"
  using fold_bs_insert [of "[]" xs] fold_bs_insert [of "[]" ys] by (intro strict_sorted_equal) auto

lemma validate_node_instances_same:
  assumes "set nodes = set (node_ids (gd_nodes g))"
  shows "validate_node_instances g nodes = Inr ()"
proof -
  have "List.find (\<lambda>i. i \<notin> set xs) xs = None" for xs :: "node_id list"
    by (simp add: find_None_iff)
  then show ?thesis
    using fold_bs_insert_set [OF assms] by (simp add: validate_node_instances_def node_ids_def Let_def)
qed

lemma try_fold_Inl: "try_fold f s xs = Inl e \<Longrightarrow> \<exists>u x. x \<in> set xs \<and> f u x = Inl e"
proof (induction xs arbitrary: s)
  case (Cons x xs)
  then show ?case by (cases "f s x") fastforce+
qed simp

lemma edge_is_enabled_Inl: "edge_is_enabled g d = Inl e \<Longrightarrow> \<exists>n. e = InvalidEnabledCondition (ed_edge_id d) n"
  by (cases "ed_enabled d") (auto simp: edge_is_enabled_def res_iff)

lemma enabled_edges_Inl: "enabled_edges g = Inl e \<Longrightarrow> \<exists>d n. e = InvalidEnabledCondition d n"
  unfolding enabled_edges_def
  by (drule try_fold_Inl) (auto simp: res_iff dest: edge_is_enabled_Inl)

lemma runner_refusals:
  assumes "set nodes = set (node_ids (gd_nodes g))"
    and "graph_runner_new g nodes policies world = Inl e"
  shows "e \<noteq> MissingNodeInstance i \<and> e \<noteq> UnknownNodeInstance i"
  using assms(2) validate_node_instances_same [OF assms(1)]
  by (auto simp: graph_runner_new_def res_iff validate_edge_policies_def Let_def
      dest!: enabled_edges_Inl split: option.splits)

text \<open>
  C26. Materialising a compiled graph creates one instance per node or stops at the first
  node that cannot be created. When it succeeds, the instances match the graph, so a runner
  over them is never refused for a missing or unknown instance; when it fails, every node
  before the failing one in id order was created, the error names that node and why it
  failed, and no factory of a later node has been called.
\<close>

theorem materialize_exact:
  fixes reg :: "('n, 'w) node_registry" and world :: 'x
  shows "case materialize_registered_nodes g reg w of
      (w', Inr instances) \<Rightarrow>
        set (bt_keys instances) = set (node_ids (gd_nodes g)) \<and>
        graph_runner_new g (bt_keys instances) policies world \<noteq>
          (Inl (MissingNodeInstance i) :: _ + ('v, 'x) graph_runner) \<and>
        graph_runner_new g (bt_keys instances) policies world \<noteq>
          (Inl (UnknownNodeInstance i) :: _ + ('v, 'x) graph_runner)
    | (w', Inl e) \<Rightarrow>
        \<exists>pre d post w1 created. gd_nodes g = pre @ d # post \<and>
          materialize_loop reg pre [] w = (w1, Inr created) \<and>
          (case nf_factory d of
             None \<Rightarrow> w' = w1 \<and>
               e = MissingFactorySelection (nd_node_id (nf_descriptor d)) (nd_node_type (nf_descriptor d))
           | Some selection \<Rightarrow>
               \<exists>source. e = NodeCreation (nd_node_id (nf_descriptor d)) source \<and>
                 registry_create reg (nd_node_type (nf_descriptor d)) (nfs_language selection)
                   (nfs_version selection) (nd_node_id (nf_descriptor d)) (nf_config d) w1 = (w', Inl source))"
proof -
  obtain w' r where run: "materialize_registered_nodes g reg w = (w', r)" by (rule prod.exhaust)
  note loop = run [unfolded materialize_registered_nodes_def]
  show ?thesis
  proof (cases r)
    case (Inl e)
    from materialize_loop_Inl [OF loop [unfolded Inl]] obtain pre d post w1 m1 where
      "gd_nodes g = pre @ d # post" "materialize_loop reg pre [] w = (w1, Inr m1)"
      "materialize_node reg d w1 = (w', Inl e)" by blast
    with materialize_node_Inl [of reg d w1 w' e] show ?thesis
      unfolding run Inl prod.case sum.case by blast
  next
    case (Inr m)
    have keys: "set (bt_keys m) = set (node_ids (gd_nodes g))"
      using materialize_loop_Inr [OF loop [unfolded Inr]] by (simp add: bt_keys_def)
    have "graph_runner_new g (bt_keys m) policies world \<noteq> (Inl (MissingNodeInstance i) :: _ + ('v, 'x) graph_runner)"
      "graph_runner_new g (bt_keys m) policies world \<noteq> (Inl (UnknownNodeInstance i) :: _ + ('v, 'x) graph_runner)"
      by (auto dest: runner_refusals [OF keys, of policies world _ i])
    with keys show ?thesis unfolding run Inr prod.case sum.case by (intro conjI)
  qed
qed

end
