(* ===== verification/Foreign_Node.thy ===== *)
theory Foreign_Node
  imports Registry Notifications
begin

text \<open>
  Language-hosted nodes behind the common registry contract
  (\<open>muxiva-core/src/foreign_registry.rs\<close>): the owned output of one foreign call, its
  application to the node context, and the adapters that make a foreign constructor a node
  factory and a foreign instance a node. The foreign instance is a record of functions on its
  state \<open>'i\<close>. The context's notification bus is passed beside the context.
\<close>

section \<open>Call outputs\<close>

record foreign_node_emission =
  fn_output_port :: port_name
  fn_frame :: frame

record foreign_node_call_output =
  fo_emissions :: "foreign_node_emission list"
  fo_signals :: "signal_frame list"
  fo_events :: "event_frame list"
  fo_next_tick :: "nat option"
  fo_metrics :: "node_metric_observation list"

definition call_output_new ::
  "foreign_node_emission list \<Rightarrow> signal_frame list \<Rightarrow> foreign_node_call_output" where
  "call_output_new emissions signals =
     \<lparr>fo_emissions = emissions, fo_signals = signals, fo_events = [], fo_next_tick = None, fo_metrics = []\<rparr>"

definition call_output_default :: foreign_node_call_output where
  "call_output_default =
     \<lparr>fo_emissions = [], fo_signals = [], fo_events = [], fo_next_tick = None, fo_metrics = []\<rparr>"

definition with_events :: "foreign_node_call_output \<Rightarrow> event_frame list \<Rightarrow> foreign_node_call_output" where
  "with_events self events = self\<lparr>fo_events := events\<rparr>"

definition with_next_tick :: "foreign_node_call_output \<Rightarrow> nat \<Rightarrow> foreign_node_call_output" where
  "with_next_tick self delay = self\<lparr>fo_next_tick := Some delay\<rparr>"

definition with_next_source_tick :: "foreign_node_call_output \<Rightarrow> nat \<Rightarrow> foreign_node_call_output" where
  "with_next_source_tick self delay = with_next_tick self delay"

definition with_signals :: "foreign_node_call_output \<Rightarrow> signal_frame list \<Rightarrow> foreign_node_call_output" where
  "with_signals self signals = self\<lparr>fo_signals := signals\<rparr>"

definition output_with_metrics ::
  "foreign_node_call_output \<Rightarrow> node_metric_observation list \<Rightarrow> foreign_node_call_output" where
  "output_with_metrics self metrics = self\<lparr>fo_metrics := metrics\<rparr>"

definition with_additional_emissions ::
  "foreign_node_call_output \<Rightarrow> foreign_node_emission list \<Rightarrow> foreign_node_call_output" where
  "with_additional_emissions self emissions = self\<lparr>fo_emissions := fo_emissions self @ emissions\<rparr>"

definition output_from_frame :: "port_name \<Rightarrow> frame \<Rightarrow> foreign_node_call_output" where
  "output_from_frame output_port frame =
     call_output_new [\<lparr>fn_output_port = output_port, fn_frame = frame\<rparr>] []"

section \<open>Applying an output\<close>

text \<open>\<open>NodeContext::publish_notification\<close>, with the bus's own error text.\<close>

fun bus_error_message :: "notification_bus_error \<Rightarrow> string" where
  "bus_error_message BusStopped = ''notification bus is stopped''"
| "bus_error_message (BusSpawn thread_name) =
     ''failed to start NotificationBus subscriber `'' @ thread_name @ ''`''"

type_synonym 'a context_act = "(node_context \<times> notification_bus, muxiva_error, 'a) act"

definition publish_notification :: "event_frame \<Rightarrow> publish_report context_act" where
  "publish_notification notification st =
     (case publish notification (snd st) of
        (bus, Inr report) \<Rightarrow> ((fst st, bus), Inr report)
      | (bus, Inl error) \<Rightarrow>
          ((fst st, bus),
           Inl (muxiva_error_new CatInternal ''MUXIVA-NOTIFICATION-BUS-PUBLISH'' (bus_error_message error))))"

definition emit_converted :: "foreign_node_emission \<Rightarrow> unit context_act" where
  "emit_converted emission st =
     (case emit (fst st) (fn_output_port emission) (fn_frame emission) of
        (cx, Inr _) \<Rightarrow> ((cx, snd st), Inr ())
      | (cx, Inl error) \<Rightarrow> ((cx, snd st), Inl (node_emission_error_to_muxiva error)))"

definition emit_signal_converted :: "signal_frame \<Rightarrow> unit context_act" where
  "emit_signal_converted signal st =
     (case emit_signal (fst st) signal of
        (cx, Inr _) \<Rightarrow> ((cx, snd st), Inr ())
      | (cx, Inl error) \<Rightarrow> ((cx, snd st), Inl (signal_emission_error_to_muxiva error)))"

definition context_only :: "(node_context \<Rightarrow> node_context) \<Rightarrow> unit context_act" where
  "context_only f st = ((f (fst st), snd st), Inr ())"

definition foreign_apply :: "foreign_node_call_output \<Rightarrow> unit context_act" where
  "foreign_apply output =
     se_bind (se_for emit_converted (fo_emissions output)) (\<lambda>_.
     se_bind (se_for emit_signal_converted (fo_signals output)) (\<lambda>_.
     se_bind (se_for (\<lambda>event. se_bind (publish_notification event) (\<lambda>_. se_return ())) (fo_events output)) (\<lambda>_.
     se_bind (se_for (\<lambda>metric. context_only (\<lambda>cx. observe_metric cx metric)) (fo_metrics output)) (\<lambda>_.
       case fo_next_tick output of
         None \<Rightarrow> se_return ()
       | Some delay \<Rightarrow> context_only (\<lambda>cx. schedule_next_tick cx delay)))))"

section \<open>Instances and constructors\<close>

record 'i foreign_node_instance =
  fi_on_prepare :: "'i \<Rightarrow> 'i \<times> (muxiva_error + foreign_node_call_output)"
  fi_on_process :: "frame option \<Rightarrow> port_name option \<Rightarrow> 'i \<Rightarrow> 'i \<times> (muxiva_error + foreign_node_call_output)"
  fi_on_signal :: "signal_frame \<Rightarrow> 'i \<Rightarrow> 'i \<times> (muxiva_error + foreign_node_call_output)"
  fi_on_finish :: "'i \<Rightarrow> 'i \<times> (muxiva_error + foreign_node_call_output)"
  fi_on_abort :: "abort_reason \<Rightarrow> 'i \<Rightarrow> 'i"

text \<open>A call of the instance and the application of what it returned.\<close>

definition foreign_call ::
  "('i \<Rightarrow> 'i \<times> (muxiva_error + foreign_node_call_output)) \<Rightarrow>
     ('i \<times> node_context \<times> notification_bus, muxiva_error, unit) act" where
  "foreign_call call st =
     (case st of (self, cx) \<Rightarrow>
        (case call self of
           (self, Inl e) \<Rightarrow> ((self, cx), Inl e)
         | (self, Inr output) \<Rightarrow>
             (case foreign_apply output cx of (cx, r) \<Rightarrow> ((self, cx), r))))"

definition adapter_on_prepare ::
  "'i foreign_node_instance \<Rightarrow> ('i \<times> node_context \<times> notification_bus, muxiva_error, unit) act" where
  "adapter_on_prepare fi = foreign_call (fi_on_prepare fi)"

definition adapter_on_process ::
  "'i foreign_node_instance \<Rightarrow> frame option \<Rightarrow>
     ('i \<times> node_context \<times> notification_bus, muxiva_error, unit) act" where
  "adapter_on_process fi input st =
     foreign_call (fi_on_process fi input (nc_input_port (fst (snd st)))) st"

definition adapter_on_signal ::
  "'i foreign_node_instance \<Rightarrow> signal_frame \<Rightarrow>
     ('i \<times> node_context \<times> notification_bus, muxiva_error, unit) act" where
  "adapter_on_signal fi signal = foreign_call (fi_on_signal fi signal)"

definition adapter_on_finish ::
  "'i foreign_node_instance \<Rightarrow> ('i \<times> node_context \<times> notification_bus, muxiva_error, unit) act" where
  "adapter_on_finish fi = foreign_call (fi_on_finish fi)"

definition adapter_on_abort :: "'i foreign_node_instance \<Rightarrow> abort_reason \<Rightarrow> 'i \<Rightarrow> 'i" where
  "adapter_on_abort fi reason self = fi_on_abort fi reason self"

text \<open>The default methods of \<open>ForeignNodeInstance\<close>, around the one a host must supply.\<close>

definition foreign_instance_default ::
  "(frame option \<Rightarrow> port_name option \<Rightarrow> 'i \<Rightarrow> 'i \<times> (muxiva_error + foreign_node_call_output)) \<Rightarrow>
     'i foreign_node_instance" where
  "foreign_instance_default on_process =
     \<lparr>fi_on_prepare = (\<lambda>self. (self, Inr call_output_default)), fi_on_process = on_process,
      fi_on_signal = (\<lambda>_ self. (self, Inr call_output_default)),
      fi_on_finish = (\<lambda>self. (self, Inr call_output_default)), fi_on_abort = (\<lambda>_ self. self)\<rparr>"

record ('i, 'w) foreign_node_constructor =
  fc_validate_config :: "config_map \<Rightarrow> unit factory_outcome"
  fc_create :: "node_id \<Rightarrow> config_map \<Rightarrow> 'w \<Rightarrow> 'w \<times> 'i factory_outcome"

text \<open>\<open>ForeignNodeAdapter\<close> wraps the instance; \<open>?\<close> passes the error on and a panic unwinds.\<close>

datatype 'i foreign_node_adapter = ForeignNodeAdapter 'i

definition foreign_node_factory_adapter ::
  "('i, 'w) foreign_node_constructor \<Rightarrow> ('i foreign_node_adapter, 'w) node_factory" where
  "foreign_node_factory_adapter constructor =
     \<lparr>fa_validate_config = fc_validate_config constructor,
      fa_create = (\<lambda>node_id config world.
        case fc_create constructor node_id config world of
          (world, FactoryOk fi) \<Rightarrow> (world, FactoryOk (ForeignNodeAdapter fi))
        | (world, FactoryErr e) \<Rightarrow> (world, FactoryErr e)
        | (world, FactoryPanic) \<Rightarrow> (world, FactoryPanic))\<rparr>"

section \<open>What an output does to the context\<close>

text \<open>
  Each loop of \<open>foreign_apply\<close> succeeds under one condition on the state it starts in and then
  has one effect; a loop that fails leaves a well-formed context.
\<close>

definition loop_spec ::
  "('a \<Rightarrow> unit context_act) \<Rightarrow> 'a list \<Rightarrow> (node_context \<times> notification_bus \<Rightarrow> bool) \<Rightarrow>
     (node_context \<times> notification_bus \<Rightarrow> node_context \<times> notification_bus) \<Rightarrow> bool" where
  "loop_spec f xs ok eff \<longleftrightarrow>
     (\<forall>st. wf_context (fst st) \<longrightarrow>
        (if ok st then se_for f xs st = (eff st, Inr ())
         else isl (snd (se_for f xs st))) \<and>
        wf_context (fst (fst (se_for f xs st))))"

lemma loop_specI:
  assumes "\<And>st. eff [] st = st" and "\<And>st. ok [] st"
    and "\<And>x st. wf_context (fst st) \<Longrightarrow> step_ok x st \<Longrightarrow> f x st = (step x st, Inr ())"
    and "\<And>x st. wf_context (fst st) \<Longrightarrow> \<not> step_ok x st \<Longrightarrow> isl (snd (f x st))"
    and wf: "\<And>x st. wf_context (fst st) \<Longrightarrow> wf_context (fst (fst (f x st)))"
    and "\<And>x xs st. step_ok x st \<Longrightarrow> ok (x # xs) st = ok xs (step x st)"
    and "\<And>x xs st. \<not> step_ok x st \<Longrightarrow> \<not> ok (x # xs) st"
    and "\<And>x xs st. step_ok x st \<Longrightarrow> eff (x # xs) st = eff xs (step x st)"
  shows "loop_spec f xs (ok xs) (eff xs)"
proof (induction xs)
  case Nil
  then show ?case using assms(1,2) by (simp add: loop_spec_def se_return_def)
next
  case (Cons x xs)
  show ?case
    unfolding loop_spec_def
  proof (intro allI impI)
    fix st :: "node_context \<times> notification_bus"
    assume st: "wf_context (fst st)"
    show "(if ok (x # xs) st then se_for f (x # xs) st = (eff (x # xs) st, Inr ())
           else isl (snd (se_for f (x # xs) st))) \<and>
        wf_context (fst (fst (se_for f (x # xs) st)))"
    proof (cases "step_ok x st")
      case True
      note fx = assms(3) [OF st True]
      have "wf_context (fst (step x st))" using wf [OF st, of x] fx by simp
      with Cons.IH have "if ok xs (step x st) then se_for f xs (step x st) = (eff xs (step x st), Inr ())
          else isl (snd (se_for f xs (step x st)))"
        "wf_context (fst (fst (se_for f xs (step x st))))"
        unfolding loop_spec_def by blast+
      with True assms(6,8) fx show ?thesis by (simp add: se_bind_def)
    next
      case False
      obtain st' r where "f x st = (st', r)" by (rule prod.exhaust)
      with assms(4) [OF st False] obtain e where fx: "f x st = (st', Inl e)" by (cases r) auto
      with wf [OF st, of x] False assms(7) show ?thesis by (simp add: se_bind_def)
    qed
  qed
qed

lemma emit_loop:
  "loop_spec emit_converted es
     (\<lambda>st. length (nc_emissions (fst st)) + length es \<le> nc_emission_limit (fst st) \<or> es = [])
     (\<lambda>st. ((fst st)\<lparr>nc_emissions := nc_emissions (fst st) @
        map (\<lambda>e. \<lparr>ne_output_port = fn_output_port e, ne_frame = fn_frame e\<rparr>) es\<rparr>, snd st))"
  by (rule loop_specI [where step_ok = "\<lambda>e st. length (nc_emissions (fst st)) < nc_emission_limit (fst st)" and
        step = "\<lambda>e st. ((fst st)\<lparr>nc_emissions := nc_emissions (fst st) @
          [\<lparr>ne_output_port = fn_output_port e, ne_frame = fn_frame e\<rparr>]\<rparr>, snd st)"])
     (auto simp: emit_converted_def emit_def wf_context_def)

lemma signal_loop:
  "loop_spec emit_signal_converted ss
     (\<lambda>st. ss = [] \<or> nc_has_signal_routes (fst st) \<and>
        list_all (\<lambda>s. sd_source (cf_data s) = nc_node_id (fst st)) ss \<and>
        length (nc_signals (fst st)) + length ss \<le> nc_emission_limit (fst st))
     (\<lambda>st. ((fst st)\<lparr>nc_signals := nc_signals (fst st) @ ss\<rparr>, snd st))"
  by (rule loop_specI [where step_ok = "\<lambda>s st. nc_has_signal_routes (fst st) \<and>
          sd_source (cf_data s) = nc_node_id (fst st) \<and> length (nc_signals (fst st)) < nc_emission_limit (fst st)" and
        step = "\<lambda>s st. ((fst st)\<lparr>nc_signals := nc_signals (fst st) @ [s]\<rparr>, snd st)"])
     (auto simp: emit_signal_converted_def emit_signal_def wf_context_def)

lemma event_loop:
  "loop_spec (\<lambda>event. se_bind (publish_notification event) (\<lambda>_. se_return ())) es
     (\<lambda>st. es = [] \<or> \<not> nb_stopped (snd st))
     (\<lambda>st. (fst st, fold (\<lambda>e bus. fst (publish e bus)) es (snd st)))"
proof (rule loop_specI [where step_ok = "\<lambda>e st. \<not> nb_stopped (snd st)" and
      step = "\<lambda>e st. (fst st, fst (publish e (snd st)))"])
  fix e st
  show "\<not> nb_stopped (snd st) \<Longrightarrow>
      se_bind (publish_notification e) (\<lambda>_. se_return ()) st = ((fst st, fst (publish e (snd st))), Inr ())"
    and "\<not> \<not> nb_stopped (snd st) \<Longrightarrow> isl (snd (se_bind (publish_notification e) (\<lambda>_. se_return ()) st))"
    and "wf_context (fst st) \<Longrightarrow> wf_context (fst (fst (se_bind (publish_notification e) (\<lambda>_. se_return ()) st)))"
    by (auto simp: publish_notification_def publish_def se_bind_def se_return_def split: prod.splits)
  fix es
  show "\<not> nb_stopped (snd st) \<Longrightarrow> (e # es = [] \<or> \<not> nb_stopped (snd st)) =
      (es = [] \<or> \<not> nb_stopped (snd (fst st, fst (publish e (snd st)))))"
    by (simp add: publish_def split: prod.splits)
qed auto

lemma metric_loop:
  "loop_spec (\<lambda>metric. context_only (\<lambda>cx. observe_metric cx metric)) ms (\<lambda>_. True)
     (\<lambda>st. ((fst st)\<lparr>nc_metric_observations := nc_metric_observations (fst st) @ ms\<rparr>, snd st))"
  by (rule loop_specI [where step_ok = "\<lambda>_ _. True" and
        step = "\<lambda>m st. ((fst st)\<lparr>nc_metric_observations := nc_metric_observations (fst st) @ [m]\<rparr>, snd st)"])
     (auto simp: context_only_def observe_metric_def wf_context_def)

text \<open>One stage of \<open>foreign_apply\<close>: the rest runs exactly when the loop succeeds.\<close>

lemma loop_stage:
  assumes "loop_spec f xs ok eff" and "wf_context (fst st)"
  shows "if ok st then wf_context (fst (eff st)) \<and> se_bind (se_for f xs) k st = k () (eff st)
         else isl (snd (se_bind (se_for f xs) k st)) \<and> wf_context (fst (fst (se_bind (se_for f xs) k st)))"
proof -
  obtain st' r where run: "se_for f xs st = (st', r)" by (rule prod.exhaust)
  from assms have "if ok st then se_for f xs st = (eff st, Inr ()) else isl (snd (se_for f xs st))"
    "wf_context (fst (fst (se_for f xs st)))"
    unfolding loop_spec_def by blast+
  with run show ?thesis by (cases r) (auto simp: se_bind_def split: if_splits)
qed

section \<open>Property\<close>

definition output_fits :: "foreign_node_call_output \<Rightarrow> node_context \<Rightarrow> notification_bus \<Rightarrow> bool" where
  "output_fits output cx bus \<longleftrightarrow>
     (fo_emissions output = [] \<or>
        length (nc_emissions cx) + length (fo_emissions output) \<le> nc_emission_limit cx) \<and>
     (fo_signals output = [] \<or>
        nc_has_signal_routes cx \<and> list_all (\<lambda>s. sd_source (cf_data s) = nc_node_id cx) (fo_signals output) \<and>
        length (nc_signals cx) + length (fo_signals output) \<le> nc_emission_limit cx) \<and>
     (fo_events output = [] \<or> \<not> nb_stopped bus)"

definition output_effect :: "foreign_node_call_output \<Rightarrow> node_context \<Rightarrow> node_context" where
  "output_effect output cx =
     cx\<lparr>nc_emissions := nc_emissions cx @
          map (\<lambda>e. \<lparr>ne_output_port = fn_output_port e, ne_frame = fn_frame e\<rparr>) (fo_emissions output),
        nc_signals := nc_signals cx @ fo_signals output,
        nc_metric_observations := nc_metric_observations cx @ fo_metrics output,
        nc_next_tick := (case fo_next_tick output of None \<Rightarrow> nc_next_tick cx | Some d \<Rightarrow> Some d)\<rparr>"

lemma foreign_apply_cases:
  assumes "wf_context cx"
  shows "if output_fits output cx bus
         then foreign_apply output (cx, bus) =
           ((output_effect output cx, fold (\<lambda>e bus. fst (publish e bus)) (fo_events output) bus), Inr ()) \<and>
           wf_context (output_effect output cx)
         else isl (snd (foreign_apply output (cx, bus))) \<and> wf_context (fst (fst (foreign_apply output (cx, bus))))"
proof -
  let ?k4 = "\<lambda>_. case fo_next_tick output of None \<Rightarrow> se_return ()
    | Some delay \<Rightarrow> context_only (\<lambda>cx. schedule_next_tick cx delay)"
  let ?k3 = "\<lambda>_. se_bind (se_for (\<lambda>metric. context_only (\<lambda>cx. observe_metric cx metric)) (fo_metrics output)) ?k4"
  let ?k2 = "\<lambda>_. se_bind (se_for (\<lambda>event. se_bind (publish_notification event) (\<lambda>_. se_return ())) (fo_events output)) ?k3"
  let ?k1 = "\<lambda>_. se_bind (se_for emit_signal_converted (fo_signals output)) ?k2"
  let ?s1 = "(cx\<lparr>nc_emissions := nc_emissions cx @
          map (\<lambda>e. \<lparr>ne_output_port = fn_output_port e, ne_frame = fn_frame e\<rparr>) (fo_emissions output)\<rparr>, bus)"
  let ?s2 = "((fst ?s1)\<lparr>nc_signals := nc_signals cx @ fo_signals output\<rparr>, bus)"
  let ?s3 = "(fst ?s2, fold (\<lambda>e bus. fst (publish e bus)) (fo_events output) bus)"
  note 1 = loop_stage [OF emit_loop, of "(cx, bus)" "fo_emissions output" ?k1]
    and 2 = loop_stage [OF signal_loop, of ?s1 "fo_signals output" ?k2]
    and 3 = loop_stage [OF event_loop, of ?s2 "fo_events output" ?k3]
    and 4 = loop_stage [OF metric_loop, of ?s3 "fo_metrics output" ?k4]
  show ?thesis
    using 1 2 3 4 assms
    by (auto simp: foreign_apply_def output_fits_def output_effect_def se_return_def context_only_def
        schedule_next_tick_def wf_context_def split: if_splits option.splits)
qed

lemma wf_context_new: "wf_context (with_routing_limits i config port limit routes)"
  by (simp add: wf_context_def with_routing_limits_def)

text \<open>
  C27. A processing call of a language-hosted node passes the host's error on unchanged.
  When the host returns an output, the call succeeds exactly when all its frames and signals
  fit the emission limit, its signals name the node and have somewhere to go, and the bus
  still accepts its events; then all frames, signals, metrics and the tick request are in the
  context and all events published, in the host's order. Otherwise the call fails with the
  context still within its limits.
\<close>

theorem foreign_process_exact:
  "let cx = with_routing_limits i config port limit routes in
   case fi_on_process fi input port self of
     (self', Inl e) \<Rightarrow> adapter_on_process fi input (self, cx, bus) = ((self', cx, bus), Inl e)
   | (self', Inr output) \<Rightarrow>
       if output_fits output cx bus
       then adapter_on_process fi input (self, cx, bus) =
         ((self', output_effect output cx, fold (\<lambda>e bus. fst (publish e bus)) (fo_events output) bus), Inr ())
       else \<exists>cx' bus' e. adapter_on_process fi input (self, cx, bus) = ((self', cx', bus'), Inl e) \<and>
         wf_context cx'"
proof -
  let ?cx = "with_routing_limits i config port limit routes"
  obtain self' r where call: "fi_on_process fi input port self = (self', r)" by (rule prod.exhaust)
  have port: "nc_input_port ?cx = port" by (simp add: with_routing_limits_def)
  show ?thesis
  proof (cases r)
    case (Inl e)
    with call port show ?thesis by (simp add: adapter_on_process_def foreign_call_def Let_def)
  next
    case (Inr out)
    obtain st q where st: "foreign_apply out (?cx, bus) = (st, q)" by (rule prod.exhaust)
    from foreign_apply_cases [OF wf_context_new, of out i config port limit routes bus]
    show ?thesis
      using call port Inr st
      by (cases q; cases st)
         (auto simp: adapter_on_process_def foreign_call_def Let_def split: if_splits)
  qed
qed

end
