(* ===== verification/Realtime.thy ===== *)
theory Realtime
  imports Frames
begin

text \<open>
  Realtime input profiles (\<open>muxiva-core/src/realtime.rs\<close>) and the coalescing of a compatible
  audio prefix before admission (\<open>audio_merge.rs\<close>). A \<open>Duration\<close> is its number of
  nanoseconds. A failed \<open>expect\<close> is the outcome \<open>None\<close>.
\<close>

section \<open>Profiles\<close>

datatype delivery_guarantee = Lossless | BestEffort

datatype delivery_ordering = StrictOrder | RelaxedOrder

datatype audio_overflow_policy =
    PropagateBackpressure | DropOldest | DropNewest | DropSilenceFirst | AbortSession

fun drops_frames :: "audio_overflow_policy \<Rightarrow> bool" where
  "drops_frames DropOldest = True"
| "drops_frames DropNewest = True"
| "drops_frames DropSilenceFirst = True"
| "drops_frames PropagateBackpressure = False"
| "drops_frames AbortSession = False"

type_synonym duration = nat

record audio_duration_range =
  dr_min :: duration
  dr_max :: duration

record realtime_contract =
  rc_latency_budget :: duration
  rc_delivery_guarantee :: delivery_guarantee
  rc_permits_audio :: bool
  rc_accepted_audio_duration :: "audio_duration_range option"
  rc_ordering :: delivery_ordering
  rc_upstream_can_pause :: bool
  rc_permits_trusted_vad_silence_drop :: bool

record runtime_input_tuning =
  rt_max_frames :: usize
  rt_max_bytes :: usize
  rt_max_buffered_media_duration :: duration
  rt_target_merge_duration :: "duration option"
  rt_max_merge_duration :: "duration option"
  rt_max_in_flight :: usize
  rt_deadline :: duration
  rt_overflow_policy :: audio_overflow_policy

record realtime_input_profile =
  rp_contract :: realtime_contract
  rp_tuning :: runtime_input_tuning

datatype realtime_profile_error =
    ZeroLatencyBudget
  | LatencyBudgetUnbounded
  | AudioRangeRequired
  | AudioRangeForbidden
  | InvalidAudioRange
  | RtZeroCapacity
  | CapacityUnbounded
  | ZeroMediaDurationLimit
  | MediaDurationLimitUnbounded
  | MergeDurationRequired
  | MergeDurationForbidden
  | InvalidMergeDuration
  | ZeroDeadline
  | DeadlineUnbounded
  | DeadlineExceedsLatencyBudget
  | LosslessDrop
  | StrictOrderingDrop
  | SilenceDropNotPermitted
  | UnpausableBackpressureOnly

fun profile_error_code :: "realtime_profile_error \<Rightarrow> string" where
  "profile_error_code ZeroLatencyBudget = ''MUXIVA-RT-LATENCY-ZERO''"
| "profile_error_code LatencyBudgetUnbounded = ''MUXIVA-RT-LATENCY-UNBOUNDED''"
| "profile_error_code AudioRangeRequired = ''MUXIVA-RT-AUDIO-RANGE-REQUIRED''"
| "profile_error_code AudioRangeForbidden = ''MUXIVA-RT-AUDIO-RANGE-FORBIDDEN''"
| "profile_error_code InvalidAudioRange = ''MUXIVA-RT-AUDIO-RANGE''"
| "profile_error_code RtZeroCapacity = ''MUXIVA-RT-CAPACITY-ZERO''"
| "profile_error_code CapacityUnbounded = ''MUXIVA-RT-CAPACITY-UNBOUNDED''"
| "profile_error_code ZeroMediaDurationLimit = ''MUXIVA-RT-MEDIA-LIMIT-ZERO''"
| "profile_error_code MediaDurationLimitUnbounded = ''MUXIVA-RT-MEDIA-LIMIT-UNBOUNDED''"
| "profile_error_code MergeDurationRequired = ''MUXIVA-RT-MERGE-REQUIRED''"
| "profile_error_code MergeDurationForbidden = ''MUXIVA-RT-MERGE-FORBIDDEN''"
| "profile_error_code InvalidMergeDuration = ''MUXIVA-RT-MERGE-RANGE''"
| "profile_error_code ZeroDeadline = ''MUXIVA-RT-DEADLINE-ZERO''"
| "profile_error_code DeadlineUnbounded = ''MUXIVA-RT-DEADLINE-UNBOUNDED''"
| "profile_error_code DeadlineExceedsLatencyBudget = ''MUXIVA-RT-DEADLINE-BUDGET''"
| "profile_error_code LosslessDrop = ''MUXIVA-RT-LOSSLESS-DROP''"
| "profile_error_code StrictOrderingDrop = ''MUXIVA-RT-STRICT-DROP''"
| "profile_error_code SilenceDropNotPermitted = ''MUXIVA-RT-SILENCE-DROP''"
| "profile_error_code UnpausableBackpressureOnly = ''MUXIVA-RT-UNPAUSABLE-BACKPRESSURE''"

section \<open>Validation\<close>

definition MAX_REALTIME_DURATION :: duration where
  "MAX_REALTIME_DURATION = 60 * 60 * 1000000000"

definition MAX_FRAMES :: usize where
  "MAX_FRAMES = 1000000"

definition MAX_BYTES :: usize where
  "MAX_BYTES = 1099511627776"

definition check_audio_range :: "realtime_contract \<Rightarrow> realtime_profile_error + unit" where
  "check_audio_range contract =
     (case (rc_permits_audio contract, rc_accepted_audio_duration contract) of
        (True, None) \<Rightarrow> Inl AudioRangeRequired
      | (False, Some _) \<Rightarrow> Inl AudioRangeForbidden
      | (True, Some rng) \<Rightarrow>
          if dr_min rng = 0 \<or> dr_max rng = 0 \<or> dr_max rng < dr_min rng then Inl InvalidAudioRange else Inr ()
      | (False, None) \<Rightarrow> Inr ())"

definition check_capacity :: "runtime_input_tuning \<Rightarrow> realtime_profile_error + unit" where
  "check_capacity tuning =
     (if rt_max_frames tuning = 0 \<or> rt_max_bytes tuning = 0 \<or> rt_max_in_flight tuning = 0
      then Inl RtZeroCapacity
      else if MAX_FRAMES < rt_max_frames tuning \<or> MAX_BYTES < rt_max_bytes tuning \<or>
              rt_max_frames tuning < rt_max_in_flight tuning
      then Inl CapacityUnbounded
      else if rt_max_buffered_media_duration tuning = 0 then Inl ZeroMediaDurationLimit
      else if MAX_REALTIME_DURATION < rt_max_buffered_media_duration tuning
      then Inl MediaDurationLimitUnbounded
      else Inr ())"

text \<open>\<open>None\<close> is the panic of \<open>accepted_audio_duration.expect(..)\<close>.\<close>

definition check_merge ::
  "realtime_contract \<Rightarrow> runtime_input_tuning \<Rightarrow> (realtime_profile_error + unit) option" where
  "check_merge contract tuning =
     (case (rc_permits_audio contract, rt_target_merge_duration tuning, rt_max_merge_duration tuning) of
        (True, None, _) \<Rightarrow> Some (Inl MergeDurationRequired)
      | (True, Some _, None) \<Rightarrow> Some (Inl MergeDurationRequired)
      | (False, None, None) \<Rightarrow> Some (Inr ())
      | (False, _, _) \<Rightarrow> Some (Inl MergeDurationForbidden)
      | (True, Some target, Some maximum) \<Rightarrow>
          (case rc_accepted_audio_duration contract of
             None \<Rightarrow> None
           | Some rng \<Rightarrow>
               Some (if target = 0 \<or> maximum = 0 \<or> maximum < target \<or> target < dr_min rng \<or>
                        dr_max rng < maximum \<or> rt_max_buffered_media_duration tuning < maximum
                     then Inl InvalidMergeDuration else Inr ())))"

definition check_policy ::
  "realtime_contract \<Rightarrow> runtime_input_tuning \<Rightarrow> realtime_profile_error + unit" where
  "check_policy contract tuning =
     (if rt_deadline tuning = 0 then Inl ZeroDeadline
      else if MAX_REALTIME_DURATION < rt_deadline tuning then Inl DeadlineUnbounded
      else if rc_latency_budget contract < rt_deadline tuning then Inl DeadlineExceedsLatencyBudget
      else if rc_delivery_guarantee contract = Lossless \<and> drops_frames (rt_overflow_policy tuning)
      then Inl LosslessDrop
      else if rc_ordering contract = StrictOrder \<and> drops_frames (rt_overflow_policy tuning)
      then Inl StrictOrderingDrop
      else if rt_overflow_policy tuning = DropSilenceFirst \<and>
              (rc_delivery_guarantee contract \<noteq> BestEffort \<or> \<not> rc_permits_audio contract \<or>
               \<not> rc_permits_trusted_vad_silence_drop contract)
      then Inl SilenceDropNotPermitted
      else if \<not> rc_upstream_can_pause contract \<and> rt_overflow_policy tuning = PropagateBackpressure
      then Inl UnpausableBackpressureOnly
      else Inr ())"

definition profile_validate :: "realtime_input_profile \<Rightarrow> (realtime_profile_error + unit) option" where
  "profile_validate self =
     (let contract = rp_contract self; tuning = rp_tuning self in
      if rc_latency_budget contract = 0 then Some (Inl ZeroLatencyBudget)
      else if MAX_REALTIME_DURATION < rc_latency_budget contract then Some (Inl LatencyBudgetUnbounded)
      else
        case res_bind (check_audio_range contract) (\<lambda>_. check_capacity tuning) of
          Inl e \<Rightarrow> Some (Inl e)
        | Inr _ \<Rightarrow>
            (case check_merge contract tuning of
               None \<Rightarrow> None
             | Some (Inl e) \<Rightarrow> Some (Inl e)
             | Some (Inr _) \<Rightarrow> Some (check_policy contract tuning)))"

definition realtime_profile_default :: realtime_input_profile where
  "realtime_profile_default =
     \<lparr>rp_contract = \<lparr>rc_latency_budget = 250000000, rc_delivery_guarantee = Lossless,
        rc_permits_audio = False, rc_accepted_audio_duration = None, rc_ordering = StrictOrder,
        rc_upstream_can_pause = True, rc_permits_trusted_vad_silence_drop = False\<rparr>,
      rp_tuning = \<lparr>rt_max_frames = 8, rt_max_bytes = 1048576,
        rt_max_buffered_media_duration = 250000000, rt_target_merge_duration = None,
        rt_max_merge_duration = None, rt_max_in_flight = 1, rt_deadline = 250000000,
        rt_overflow_policy = PropagateBackpressure\<rparr>\<rparr>"

section \<open>Merging a prefix\<close>

record merged_audio_frame =
  mf_frame :: frame
  mf_source_count :: usize

definition merge_arithmetic_error :: muxiva_error where
  "merge_arithmetic_error =
     validation_error ''MUXIVA-RT-AUDIO-MERGE-ARITHMETIC'' ''audio merge arithmetic overflowed''"

text \<open>The module's own copy; the rate of validated audio is never zero, so the divisions are defined.\<close>

definition prefix_duration_ns :: "u64 \<Rightarrow> u32 \<Rightarrow> muxiva_error + u64" where
  "prefix_duration_ns samples rate =
     (let whole_seconds = samples div rate; remaining_samples = samples mod rate in
      ok_or (Option.bind (checked_mul64 whole_seconds 1000000000) (\<lambda>whole.
             Option.bind (checked_mul64 remaining_samples 1000000000) (\<lambda>fraction.
               checked_add64 whole (fraction div rate)))) merge_arithmetic_error)"

definition sample_boundary_timestamp :: "timestamp \<Rightarrow> u64 \<Rightarrow> u32 \<Rightarrow> muxiva_error + timestamp" where
  "sample_boundary_timestamp start samples rate =
     res_bind (prefix_duration_ns samples rate) (\<lambda>offset.
     res_bind (ok_or (i64_try_from offset) merge_arithmetic_error) (\<lambda>nanos.
       ok_or (timestamp_checked_add start nanos) merge_arithmetic_error))"

definition compatible_with_previous :: "frame \<Rightarrow> frame \<Rightarrow> timestamp \<Rightarrow> bool" where
  "compatible_with_previous previous next expected_timestamp =
     (case (as_audio previous, as_audio next) of
        (Some previous_audio, Some next_audio) \<Rightarrow>
          (let ph = header previous; nh = header next;
               pd = cf_data previous_audio; nd = cf_data next_audio in
           fh_stream_id ph = fh_stream_id nh \<and>
           fh_trace_id ph = fh_trace_id nh \<and>
           fh_clock_domain ph = fh_clock_domain nh \<and>
           sequence_checked_next (fh_sequence_id ph) = Some (fh_sequence_id nh) \<and>
           fh_timestamp nh = expected_timestamp \<and>
           ad_sample_rate_hz pd = ad_sample_rate_hz nd \<and>
           ad_channels pd = ad_channels nd \<and>
           ad_sample_format pd = ad_sample_format nd \<and>
           ad_layout pd = ad_layout nd)
      | _ \<Rightarrow> False)"

text \<open>The loop over the frames, with \<open>source_count\<close> and \<open>samples_per_channel\<close> so far.\<close>

fun merge_scan ::
  "frame list \<Rightarrow> audio_data concrete_frame \<Rightarrow> duration \<Rightarrow> duration \<Rightarrow> frame list \<Rightarrow> usize \<Rightarrow> u64 \<Rightarrow>
     muxiva_error + usize \<times> u64" where
  "merge_scan frames first target maximum [] source_count samples = Inr (source_count, samples)"
| "merge_scan frames first target maximum (frame # rest) source_count samples =
     (case as_audio frame of
        None \<Rightarrow> Inr (source_count, samples)
      | Some audio \<Rightarrow>
          res_bind (sample_boundary_timestamp (fh_timestamp (cf_header first)) samples
                      (ad_sample_rate_hz (cf_data first))) (\<lambda>expected_timestamp.
          if 0 < source_count \<and>
             \<not> compatible_with_previous (frames ! (source_count - 1)) frame expected_timestamp
          then Inr (source_count, samples)
          else
            res_bind (ok_or (checked_add64 samples (ad_samples_per_channel (cf_data audio)))
                        merge_arithmetic_error) (\<lambda>next_samples.
            res_bind (prefix_duration_ns next_samples (ad_sample_rate_hz (cf_data first))) (\<lambda>next_duration.
              if maximum < next_duration then Inr (source_count, samples)
              else if target \<le> next_duration then Inr (source_count + 1, next_samples)
              else merge_scan frames first target maximum rest (source_count + 1) next_samples))))"

definition merge_audio_prefix ::
  "frame list \<Rightarrow> duration \<Rightarrow> duration \<Rightarrow> ('s \<Rightarrow> 's \<times> frame_id) \<Rightarrow> transform_origin \<Rightarrow>
     ('s, muxiva_error, merged_audio_frame option) act" where
  "merge_audio_prefix frames target maximum next_frame_id origin id_source =
     (if target = 0 \<or> maximum = 0 \<or> maximum < target
      then (id_source, Inl (validation_error ''MUXIVA-RT-AUDIO-MERGE-DURATION''
              ''audio merge target must be non-zero and no greater than its maximum''))
      else
        case (case frames of [] \<Rightarrow> None | frame # _ \<Rightarrow> as_audio frame) of
          None \<Rightarrow> (id_source, Inr None)
        | Some first \<Rightarrow>
            (case res_bind (merge_scan frames first target maximum (take 1024 frames) 0 0)
                    (\<lambda>(source_count, samples).
                     res_bind (prefix_duration_ns samples (ad_sample_rate_hz (cf_data first)))
                       (\<lambda>duration. Inr (source_count, duration))) of
               Inl e \<Rightarrow> (id_source, Inl e)
             | Inr (source_count, duration) \<Rightarrow>
                 if source_count < 2 \<or> duration < target then (id_source, Inr None)
                 else
                   (case next_frame_id id_source of
                      (id_source, new_id) \<Rightarrow>
                        (case merge_audio (take source_count frames) new_id origin of
                           Inl e \<Rightarrow> (id_source, Inl e)
                         | Inr frame \<Rightarrow>
                             (id_source, Inr (Some \<lparr>mf_frame = frame, mf_source_count = source_count\<rparr>))))))"

section \<open>Properties\<close>

lemma drops_frames_iff: "drops_frames p \<longleftrightarrow> p = DropOldest \<or> p = DropNewest \<or> p = DropSilenceFirst"
  by (cases p) simp_all

lemmas profile_checks = profile_validate_def check_audio_range_def check_capacity_def check_merge_def
  check_policy_def

lemma check_policy_Inr:
  "check_policy c t = Inr () \<longleftrightarrow>
     0 < rt_deadline t \<and> rt_deadline t \<le> MAX_REALTIME_DURATION \<and> rt_deadline t \<le> rc_latency_budget c \<and>
     (drops_frames (rt_overflow_policy t) \<longrightarrow>
        rc_delivery_guarantee c = BestEffort \<and> rc_ordering c = RelaxedOrder) \<and>
     (rt_overflow_policy t = DropSilenceFirst \<longrightarrow>
        rc_permits_audio c \<and> rc_permits_trusted_vad_silence_drop c) \<and>
     (rt_overflow_policy t = PropagateBackpressure \<longrightarrow> rc_upstream_can_pause c)"
  by (cases "rc_delivery_guarantee c"; cases "rc_ordering c"; cases "rt_overflow_policy t")
     (auto simp: check_policy_def not_less)

lemma check_capacity_Inr:
  "check_capacity t = Inr () \<longleftrightarrow>
     0 < rt_max_frames t \<and> rt_max_frames t \<le> MAX_FRAMES \<and> 0 < rt_max_bytes t \<and> rt_max_bytes t \<le> MAX_BYTES \<and>
     0 < rt_max_in_flight t \<and> rt_max_in_flight t \<le> rt_max_frames t \<and>
     0 < rt_max_buffered_media_duration t \<and> rt_max_buffered_media_duration t \<le> MAX_REALTIME_DURATION"
  by (auto simp: check_capacity_def not_less)

text \<open>The two parts of the validation that concern audio, together.\<close>

definition audio_shape_ok :: "realtime_contract \<Rightarrow> runtime_input_tuning \<Rightarrow> bool" where
  "audio_shape_ok c t \<longleftrightarrow>
     (case (rc_accepted_audio_duration c, rt_target_merge_duration t, rt_max_merge_duration t) of
        (None, None, None) \<Rightarrow> \<not> rc_permits_audio c
      | (Some rng, Some target, Some maximum) \<Rightarrow>
          rc_permits_audio c \<and> 0 < dr_min rng \<and> dr_min rng \<le> target \<and> target \<le> maximum \<and>
          maximum \<le> dr_max rng \<and> maximum \<le> rt_max_buffered_media_duration t
      | _ \<Rightarrow> False)"

lemma check_audio:
  assumes "check_audio_range c = Inr ()"
  shows "check_merge c t \<noteq> None \<and> (check_merge c t = Some (Inr ()) \<longleftrightarrow> audio_shape_ok c t)"
  using assms
  by (cases "rc_accepted_audio_duration c"; cases "rt_target_merge_duration t"; cases "rt_max_merge_duration t")
     (auto simp: check_audio_range_def check_merge_def audio_shape_ok_def not_less split: if_splits bool.splits)

lemma audio_shape_range: "audio_shape_ok c t \<Longrightarrow> check_audio_range c = Inr ()"
  by (auto simp: check_audio_range_def audio_shape_ok_def split: option.splits)

text \<open>
  C28. Validating a realtime input profile never panics and accepts exactly the profiles whose
  choices fit their declaration: a bounded non-zero latency budget and a deadline within it;
  bounded non-zero capacities with no more work in flight than frames; merge durations exactly
  when audio is permitted, inside the accepted range and the buffer limit; dropping policies
  only for best-effort, relaxed inputs, dropping silence only where trusted silence may be
  dropped, and backpressure only where the upstream can pause.
\<close>

theorem profile_validate_exact:
  "let c = rp_contract p; t = rp_tuning p in
   profile_validate p \<noteq> None \<and>
   (profile_validate p = Some (Inr ()) \<longleftrightarrow>
      0 < rc_latency_budget c \<and> rc_latency_budget c \<le> MAX_REALTIME_DURATION \<and>
      0 < rt_deadline t \<and> rt_deadline t \<le> rc_latency_budget c \<and>
      0 < rt_max_frames t \<and> rt_max_frames t \<le> MAX_FRAMES \<and>
      0 < rt_max_bytes t \<and> rt_max_bytes t \<le> MAX_BYTES \<and>
      0 < rt_max_in_flight t \<and> rt_max_in_flight t \<le> rt_max_frames t \<and>
      0 < rt_max_buffered_media_duration t \<and> rt_max_buffered_media_duration t \<le> MAX_REALTIME_DURATION \<and>
      audio_shape_ok c t \<and>
      (drops_frames (rt_overflow_policy t) \<longrightarrow>
         rc_delivery_guarantee c = BestEffort \<and> rc_ordering c = RelaxedOrder) \<and>
      (rt_overflow_policy t = DropSilenceFirst \<longrightarrow>
         rc_permits_audio c \<and> rc_permits_trusted_vad_silence_drop c) \<and>
      (rt_overflow_policy t = PropagateBackpressure \<longrightarrow> rc_upstream_can_pause c))"
proof -
  let ?c = "rp_contract p" and ?t = "rp_tuning p"
  have "profile_validate p \<noteq> None"
    using check_audio [of ?c ?t]
    by (auto simp: profile_validate_def Let_def res_iff split: option.splits sum.splits)
  moreover have "profile_validate p = Some (Inr ()) \<longleftrightarrow>
      0 < rc_latency_budget ?c \<and> rc_latency_budget ?c \<le> MAX_REALTIME_DURATION \<and>
      check_audio_range ?c = Inr () \<and> check_capacity ?t = Inr () \<and>
      check_merge ?c ?t = Some (Inr ()) \<and> check_policy ?c ?t = Inr ()"
    by (auto simp: profile_validate_def Let_def res_iff not_less split: option.splits sum.splits)
  moreover have "check_audio_range ?c = Inr () \<and> check_merge ?c ?t = Some (Inr ()) \<longleftrightarrow> audio_shape_ok ?c ?t"
    using check_audio [of ?c ?t] audio_shape_range [of ?c ?t] by blast
  ultimately show ?thesis
    unfolding Let_def check_capacity_Inr check_policy_Inr by (meson order_trans)
qed

theorem profile_validate_exact_witness: "profile_validate realtime_profile_default = Some (Inr ())"
  using profile_validate_exact [of realtime_profile_default]
  by (simp add: realtime_profile_default_def audio_shape_ok_def MAX_REALTIME_DURATION_def MAX_FRAMES_def
      MAX_BYTES_def Let_def)

section \<open>The prefix that is merged\<close>

text \<open>The two copies of the duration computation differ only in the error they report.\<close>

lemma prefix_duration_ns_same: "prefix_duration_ns n r = Inr d \<longleftrightarrow> duration_ns_for_samples n r = Inr d"
  by (simp add: prefix_duration_ns_def duration_ns_for_samples_def Let_def ok_or_Inr)

definition prefix_ns :: "audio_frame list \<Rightarrow> nat" where
  "prefix_ns as = sum_list (map samples_of as) * 1000000000 div ad_sample_rate_hz (cf_data (as ! 0))"

text \<open>The \<open>i\<close>-th frame continues the audio frames \<open>as\<close> before it, at the sample boundary where they end.\<close>

definition continues :: "frame list \<Rightarrow> timestamp \<Rightarrow> u32 \<Rightarrow> audio_frame list \<Rightarrow> nat \<Rightarrow> bool" where
  "continues frames start rate as i \<longleftrightarrow>
     (\<exists>t. sample_boundary_timestamp start (sum_list (map samples_of (take i as))) rate = Inr t \<and>
        compatible_with_previous (frames ! (i - 1)) (frames ! i) t)"

text \<open>The audio frames \<open>as\<close> are a compatible prefix of the queue.\<close>

definition compatible_prefix :: "frame list \<Rightarrow> audio_frame list \<Rightarrow> bool" where
  "compatible_prefix frames as \<longleftrightarrow>
     take (length as) frames = map FAudio as \<and>
     (\<forall>i. 0 < i \<and> i < length as \<longrightarrow>
        continues frames (fh_timestamp (cf_header (as ! 0))) (ad_sample_rate_hz (cf_data (as ! 0))) as i)"

text \<open>What the scan has established when it has consumed the audio frames \<open>as\<close>.\<close>

definition scanned ::
  "frame list \<Rightarrow> timestamp \<Rightarrow> u32 \<Rightarrow> duration \<Rightarrow> duration \<Rightarrow> nat \<Rightarrow> u64 \<Rightarrow> audio_frame list \<Rightarrow> bool" where
  "scanned frames start rate target maximum n samples as \<longleftrightarrow>
     (\<forall>i. 0 < i \<and> i < n \<longrightarrow> continues frames start rate as i) \<and>
     n = length as \<and> take n frames = map FAudio as \<and> samples = sum_list (map samples_of as) \<and>
     samples * 1000000000 div rate \<le> maximum \<and>
     (\<forall>k < n. sum_list (map samples_of (take k as)) * 1000000000 div rate < target)"

lemma scanned_snoc:
  assumes "scanned frames start rate target maximum n samples as" and "drop n frames = FAudio a # rest"
    and "samples * 1000000000 div rate < target" and "(samples + samples_of a) * 1000000000 div rate \<le> maximum"
    and "0 < n \<Longrightarrow> continues frames start rate as n"
  shows "scanned frames start rate target maximum (n + 1) (samples + samples_of a) (as @ [a])"
proof -
  have "n < length frames" using assms(2) by (metis drop_all leI list.distinct(1))
  moreover have "frames ! n = FAudio a" using assms(2) by (metis \<open>n < length frames\<close> nth_via_drop)
  ultimately have "take (n + 1) frames = map FAudio (as @ [a])"
    using assms(1) by (auto simp: scanned_def take_Suc_conv_app_nth)
  moreover have "continues frames start rate (as @ [a]) i" if "0 < i" "i < n + 1" for i
    using assms(1,5) that by (cases "i = n") (auto simp: scanned_def continues_def)
  ultimately show ?thesis using assms by (auto simp: scanned_def less_Suc_eq)
qed

lemma merge_scan_scanned:
  assumes "merge_scan frames first target maximum rest n samples = Inr (n', samples')"
    and "0 < ad_sample_rate_hz (cf_data first)" and "ad_sample_rate_hz (cf_data first) \<le> u32_max"
    and "scanned frames (fh_timestamp (cf_header first)) (ad_sample_rate_hz (cf_data first)) target maximum n samples as"
    and "samples * 1000000000 div ad_sample_rate_hz (cf_data first) < target"
    and "\<exists>more. drop n frames = rest @ more"
  shows "\<exists>bs. scanned frames (fh_timestamp (cf_header first)) (ad_sample_rate_hz (cf_data first)) target maximum n' samples' bs \<and> n' \<le> n + length rest"
  using assms
proof (induction rest arbitrary: n samples as)
  case Nil
  then show ?case by auto
next
  case (Cons f rest)
  let ?rate = "ad_sample_rate_hz (cf_data first)" and ?start = "fh_timestamp (cf_header first)"
  show ?case
  proof (cases "n' = n \<and> samples' = samples")
    case True
    with Cons.prems(4) show ?thesis by auto
  next
    case False
    with Cons.prems(1) obtain a where a: "f = FAudio a"
      by (cases "as_audio f") (auto simp: as_audio_Some)
    from False Cons.prems(1) obtain d where d: "prefix_duration_ns (samples + samples_of a) ?rate = Inr d"
      "d \<le> maximum" "if target \<le> d then (n', samples') = (n + 1, samples + samples_of a)
        else merge_scan frames first target maximum rest (n + 1) (samples + samples_of a) = Inr (n', samples')"
      unfolding a by (auto simp: res_iff split: if_splits)
    have cont: "continues frames ?start ?rate as n" if pos: "0 < n"
    proof -
      obtain t where t: "sample_boundary_timestamp ?start samples ?rate = Inr t" "compatible_with_previous (frames ! (n - 1)) f t"
        using False Cons.prems(1) pos unfolding a by (auto simp: res_iff split: if_splits)
      have "frames ! n = f" using Cons.prems(6) by (metis append_Cons drop_all leI list.distinct(1) nth_via_drop)
      with t Cons.prems(4) show ?thesis by (auto simp: continues_def scanned_def)
    qed
    from d(1) Cons.prems(2,3) have dur: "d = (samples + samples_of a) * 1000000000 div ?rate"
      by (simp add: prefix_duration_ns_same duration_ns_for_samples_Inr)
    obtain more where more: "drop n frames = FAudio a # rest @ more" using Cons.prems(6) a by auto
    note snoc = scanned_snoc [OF Cons.prems(4) more Cons.prems(5) d(2) [unfolded dur] cont]
    show ?thesis
    proof (cases "target \<le> d")
      case True
      with d(3) snoc show ?thesis by auto
    next
      case short: False
      with d(3) have "merge_scan frames first target maximum rest (n + 1) (samples + samples_of a) = Inr (n', samples')"
        by simp
      moreover have "(samples + samples_of a) * 1000000000 div ?rate < target" using short dur by linarith
      moreover have "\<exists>more. drop (n + 1) frames = rest @ more"
        using more by (metis Suc_eq_plus1 drop_Suc list.sel(3) tl_drop)
      ultimately have "\<exists>bs. scanned frames ?start ?rate target maximum n' samples' bs \<and> n' \<le> n + 1 + length rest"
        using Cons.IH [OF _ Cons.prems(2,3) snoc] by blast
      then show ?thesis by auto
    qed
  qed
qed

lemma merge_audio_prefix_Some:
  assumes "merge_audio_prefix frames target maximum next_frame_id origin s = (s', Inr (Some m))"
  obtains first rest samples d new_id where
    "frames = FAudio first # rest" "0 < target" "target \<le> maximum"
    "merge_scan frames first target maximum (take 1024 frames) 0 0 = Inr (mf_source_count m, samples)"
    "prefix_duration_ns samples (ad_sample_rate_hz (cf_data first)) = Inr d" "target \<le> d" "2 \<le> mf_source_count m"
    "next_frame_id s = (s', new_id)"
    "merge_audio (take (mf_source_count m) frames) new_id origin = Inr (mf_frame m)"
proof -
  have args: "\<not> (target = 0 \<or> maximum = 0 \<or> maximum < target)"
  proof
    assume "target = 0 \<or> maximum = 0 \<or> maximum < target"
    with assms show False by (simp add: merge_audio_prefix_def)
  qed
  obtain first rest where frames: "frames = FAudio first # rest"
    using assms args by (cases frames) (auto simp: merge_audio_prefix_def as_audio_Some split: option.splits)
  define scan where "scan = merge_scan frames first target maximum (take 1024 frames) 0 0"
  have run: "(case res_bind scan (\<lambda>(n, samples).
        res_bind (prefix_duration_ns samples (ad_sample_rate_hz (cf_data first))) (\<lambda>d. Inr (n, d))) of
      Inl e \<Rightarrow> (s, Inl e)
    | Inr (n, d) \<Rightarrow>
        if n < 2 \<or> d < target then (s, Inr None)
        else (case next_frame_id s of (s, new_id) \<Rightarrow>
          (case merge_audio (take n frames) new_id origin of
             Inl e \<Rightarrow> (s, Inl e)
           | Inr frame \<Rightarrow> (s, Inr (Some \<lparr>mf_frame = frame, mf_source_count = n\<rparr>))))) = (s', Inr (Some m))"
    using assms args unfolding merge_audio_prefix_def scan_def frames by simp
  obtain n samples where scan: "scan = Inr (n, samples)" using run by (cases scan) auto
  obtain d where d: "prefix_duration_ns samples (ad_sample_rate_hz (cf_data first)) = Inr d"
    using run scan by (cases "prefix_duration_ns samples (ad_sample_rate_hz (cf_data first))") auto
  obtain s1 new_id where new: "next_frame_id s = (s1, new_id)" by (rule prod.exhaust)
  show thesis
    using run scan d new args frames unfolding scan_def
    by (intro that [of first rest samples d new_id]) (auto split: if_splits sum.splits)
qed

text \<open>The merged prefix: what the scan established of it.\<close>

lemma merge_audio_prefix_merged:
  assumes wf: "list_all wf_frame frames"
    and run: "merge_audio_prefix frames target maximum next_frame_id origin s = (s', Inr (Some m))"
  obtains as where "compatible_prefix frames as" "length as = mf_source_count m" "2 \<le> length as" "length as \<le> 1024"
    "next_frame_id s = (s', fh_frame_id (header (mf_frame m)))"
    "merge_audio (map FAudio as) (fh_frame_id (header (mf_frame m))) origin = Inr (mf_frame m)"
    "target \<le> prefix_ns as" "prefix_ns as \<le> maximum"
    "\<forall>k. 0 < k \<and> k < length as \<longrightarrow> prefix_ns (take k as) < target"
proof -
  let ?n = "mf_source_count m"
  obtain first rest samples d new_id where
      frames: "frames = FAudio first # rest" and bounds: "0 < target" "target \<le> maximum"
    and scan: "merge_scan frames first target maximum (take 1024 frames) 0 0 = Inr (?n, samples)"
    and d: "prefix_duration_ns samples (ad_sample_rate_hz (cf_data first)) = Inr d" "target \<le> d" "2 \<le> ?n"
    and new: "next_frame_id s = (s', new_id)" "merge_audio (take ?n frames) new_id origin = Inr (mf_frame m)"
    by (rule merge_audio_prefix_Some [OF run])
  let ?rate = "ad_sample_rate_hz (cf_data first)" and ?start = "fh_timestamp (cf_header first)"
  have rate: "0 < ?rate" "?rate \<le> u32_max"
    using wf frames by (auto simp: wf_frame_def wf_audio_def u32_max_def)
  have start: "scanned frames ?start ?rate target maximum 0 0 []" using bounds by (simp add: scanned_def)
  have "\<exists>more. drop 0 frames = take 1024 frames @ more" by (metis append_take_drop_id drop0)
  from merge_scan_scanned [OF scan rate start _ this] bounds obtain as where
    as: "scanned frames ?start ?rate target maximum ?n samples as" "?n \<le> 1024" by auto
  have first: "take k as ! 0 = first" if "0 < k" "0 < length as" for k
    using as(1) that frames by (cases as) (auto simp: scanned_def take_Cons' split: if_splits nat.splits)
  have id: "fh_frame_id (header (mf_frame m)) = new_id"
  proof -
    have "list_all wf_frame (take ?n frames)" using wf by (auto simp: list_all_iff dest: in_set_takeD)
    then show ?thesis by (rule merge_audio_Inr [OF _ new(2)]) simp
  qed
  have head: "as ! 0 = first" using first [of "length as"] as(1) d(3) by (cases as) (auto simp: scanned_def)
  have "d = samples * 1000000000 div ?rate"
    using d(1) rate by (simp add: prefix_duration_ns_same duration_ns_for_samples_Inr)
  with as new d(2,3) first id head show thesis
    by (intro that [of as]) (auto simp: scanned_def prefix_ns_def compatible_prefix_def)
qed

text \<open>
  The scan does not miss a prefix: if the first frame alone is too short and some compatible
  prefix of at most 1024 frames lasts at least the target and at most the maximum, the scan ends
  with two or more frames that reach the target.
\<close>

lemma take_samples_mono: "j \<le> k \<Longrightarrow> sum_list (map samples_of (take j as)) \<le> sum_list (map samples_of (take k as))"
proof -
  assume "j \<le> k"
  then have "take k as = take j as @ take (k - j) (drop j as)" by (metis le_add_diff_inverse take_add)
  then show ?thesis by simp
qed

lemma merge_scan_reaches:
  fixes rate :: nat
  assumes "merge_scan frames first target maximum rest n samples = Inr (n', samples')"
    and "0 < ad_sample_rate_hz (cf_data first)" and "ad_sample_rate_hz (cf_data first) \<le> u32_max"
    and "rate = ad_sample_rate_hz (cf_data first)" and "n < length as" and "rest = drop n (take 1024 frames)"
    and "samples = sum_list (map samples_of (take n as))" and "length as \<le> 1024"
    and "take (length as) frames = map FAudio as"
    and "\<forall>i. 0 < i \<and> i < length as \<longrightarrow> continues frames (fh_timestamp (cf_header first)) rate as i"
    and "target \<le> sum_list (map samples_of as) * 1000000000 div rate"
    and "sum_list (map samples_of as) * 1000000000 div rate \<le> maximum"
    and "sum_list (map samples_of (take 1 as)) * 1000000000 div rate < target"
  shows "2 \<le> n' \<and> target \<le> samples' * 1000000000 div rate"
  using assms
proof (induction rest arbitrary: n samples)
  case Nil
  from Nil.prems(5,9) have "length as \<le> length frames" by (metis length_map length_take min.bounded_iff order_refl)
  with Nil.prems(5,6,8) show ?case by auto
next
  case (Cons f rest)
  note p = Cons.prems
  have len: "length as \<le> length frames" using p(9) by (metis length_map length_take min.bounded_iff order_refl)
  have f: "f = FAudio (as ! n)"
  proof -
    have "f = take 1024 frames ! n" using p(6) by (metis nth_via_drop)
    also have "\<dots> = take (length as) frames ! n" using p(5,8) by simp
    finally show ?thesis using p(5,9) by simp
  qed
  have rest: "rest = drop (Suc n) (take 1024 frames)" using p(6) by (metis drop_Suc list.sel(3) tl_drop)
  let ?next = "sum_list (map samples_of (take (Suc n) as))"
  have next': "samples + samples_of (as ! n) = ?next" using p(5,7) by (simp add: take_Suc_conv_app_nth)
  have whole: "?next * 1000000000 div rate \<le> maximum"
  proof -
    have "?next \<le> sum_list (map samples_of as)" using take_samples_mono [of "Suc n" "length as" as] p(5) by simp
    then have "?next * 1000000000 div rate \<le> sum_list (map samples_of as) * 1000000000 div rate"
      by (intro div_le_mono mult_le_mono1)
    with p(12) show ?thesis by linarith
  qed
  have frame: "frames ! n = f" using f p(5,9) by (metis nth_map nth_take)
  have cont: "\<exists>t. sample_boundary_timestamp (fh_timestamp (cf_header first)) samples rate = Inr t \<and>
      compatible_with_previous (frames ! (n - 1)) f t" if "0 < n"
    using p(10) that p(5) frame by (auto simp: continues_def p(7))
  obtain t where t: "sample_boundary_timestamp (fh_timestamp (cf_header first)) samples rate = Inr t"
    using p(1) unfolding f p(4) by (auto simp: res_iff)
  have compatible: "\<not> (0 < n \<and> \<not> compatible_with_previous (frames ! (n - 1)) (FAudio (as ! n)) t)"
    using cont t f by auto
  have "checked_add64 samples (samples_of (as ! n)) = Some ?next"
    using p(1) compatible t unfolding f p(4) next' [symmetric]
    by (cases "checked_add64 samples (samples_of (as ! n))") (auto simp: checked_add64_def ok_or_def split: if_splits)
  with p(1) compatible t have step: "res_bind (prefix_duration_ns ?next rate) (\<lambda>d.
      if maximum < d then Inr (n, samples) else if target \<le> d then Inr (n + 1, ?next)
      else merge_scan frames first target maximum rest (n + 1) ?next) = Inr (n', samples')"
    unfolding f p(4) by (cases "n = 0") (simp_all add: ok_or_def cong: if_cong)
  then obtain d where d: "prefix_duration_ns ?next rate = Inr d"
    "(if maximum < d then Inr (n, samples) else if target \<le> d then Inr (n + 1, ?next)
      else merge_scan frames first target maximum rest (n + 1) ?next) = Inr (n', samples')"
    by (cases "prefix_duration_ns ?next rate") simp_all
  have dur: "d = ?next * 1000000000 div rate"
    using d(1) p(2-4) by (simp add: prefix_duration_ns_same duration_ns_for_samples_Inr)
  show ?case
  proof (cases "target \<le> d")
    case True
    with d(2) whole dur have "n' = n + 1" "samples' = ?next" by auto
    moreover from True p(13) dur have "n \<noteq> 0" by (cases n) auto
    ultimately show ?thesis using True dur by simp
  next
    case False
    with d(2) whole dur have "merge_scan frames first target maximum rest (n + 1) ?next = Inr (n', samples')" by auto
    moreover have "n + 1 < length as" using False p(5,11) dur by (cases "Suc n = length as") auto
    ultimately show ?thesis using Cons.IH [OF _ p(2-4) _ _ _ p(8-13)] rest by simp
  qed
qed

lemma merge_audio_prefix_none:
  assumes wf: "list_all wf_frame frames"
    and run: "merge_audio_prefix frames target maximum next_frame_id origin s = (s', Inr None)"
    and as: "compatible_prefix frames as" "2 \<le> length as" "length as \<le> 1024" "prefix_ns (take 1 as) < target"
  shows "prefix_ns as < target \<or> maximum < prefix_ns as"
proof (rule ccontr)
  assume "\<not> ?thesis"
  then have ns: "target \<le> prefix_ns as" "prefix_ns as \<le> maximum" by simp_all
  from as(1,2) obtain first rest where frames: "frames = FAudio first # rest" and first: "as ! 0 = first" "take 1 as = [first]"
    by (cases as; cases frames) (auto simp: compatible_prefix_def)
  let ?rate = "ad_sample_rate_hz (cf_data first)"
  have rate: "0 < ?rate" "?rate \<le> u32_max"
    using wf frames by (auto simp: wf_frame_def wf_audio_def u32_max_def)
  have args: "\<not> (target = 0 \<or> maximum = 0 \<or> maximum < target)" using as(4) ns by auto
  obtain n samples d where scan: "merge_scan frames first target maximum (take 1024 frames) 0 0 = Inr (n, samples)"
    and d: "prefix_duration_ns samples ?rate = Inr d" "n < 2 \<or> d < target"
    using run args by (auto simp: merge_audio_prefix_def frames as_audio_Some res_iff split: if_splits sum.splits prod.splits)
  have ns': "target \<le> sum_list (map samples_of as) * 1000000000 div ?rate"
    "sum_list (map samples_of as) * 1000000000 div ?rate \<le> maximum"
    "sum_list (map samples_of (take 1 as)) * 1000000000 div ?rate < target"
    using ns as(4) first by (simp_all add: prefix_ns_def)
  have pre: "take (length as) frames = map FAudio as"
    "\<forall>i. 0 < i \<and> i < length as \<longrightarrow> continues frames (fh_timestamp (cf_header first)) ?rate as i"
    using as(1) first(1) by (simp_all add: compatible_prefix_def)
  have "2 \<le> n \<and> target \<le> samples * 1000000000 div ?rate"
    by (rule merge_scan_reaches [OF scan rate refl _ _ _ as(3) pre ns']) (use as(2) in auto)
  moreover have "d = samples * 1000000000 div ?rate"
    using d(1) rate by (simp add: prefix_duration_ns_same duration_ns_for_samples_Inr)
  ultimately show False using d(2) by simp
qed

text \<open>
  The first frame with which the target is reached ends the merged prefix, so no shorter prefix
  reaches the target.
\<close>

lemma merge_audio_prefix_shortest:
  assumes "list_all wf_frame frames"
    and "merge_audio_prefix frames target maximum next_frame_id origin s = (s', Inr (Some m))"
  shows "\<exists>as. take (mf_source_count m) frames = map FAudio as \<and>
     (\<forall>k. 0 < k \<and> k < length as \<longrightarrow> prefix_ns (take k as) < target)"
  by (rule merge_audio_prefix_merged [OF assms]) (auto simp: compatible_prefix_def)

text \<open>
  C29. A merge joins a compatible prefix of two to 1024 audio frames that lasts at least the
  target and at most the maximum, into \<open>Frame::merge_audio\<close> of these frames under one id drawn
  from the source. If nothing is merged, no id is drawn and no prefix was passed over: unless
  the first frame alone reaches the target, no compatible prefix of at most 1024 frames lasts
  at least the target and at most the maximum. If an error is reported, either no id was drawn
  or exactly one, for a merge that failed with that error.
\<close>

theorem merge_audio_prefix_exact:
  assumes "list_all wf_frame frames"
    and "merge_audio_prefix frames target maximum next_frame_id origin s = (s', result)"
  shows "case result of
      Inr (Some m) \<Rightarrow>
        \<exists>as. compatible_prefix frames as \<and> length as = mf_source_count m \<and> 2 \<le> length as \<and> length as \<le> 1024 \<and>
          next_frame_id s = (s', fh_frame_id (header (mf_frame m))) \<and>
          merge_audio (map FAudio as) (fh_frame_id (header (mf_frame m))) origin = Inr (mf_frame m) \<and>
          target \<le> prefix_ns as \<and> prefix_ns as \<le> maximum
    | Inr None \<Rightarrow>
        s' = s \<and>
        (\<forall>as. compatible_prefix frames as \<and> 2 \<le> length as \<and> length as \<le> 1024 \<and> prefix_ns (take 1 as) < target \<longrightarrow>
           prefix_ns as < target \<or> maximum < prefix_ns as)
    | Inl e \<Rightarrow> s' = s \<or> (\<exists>n i. next_frame_id s = (s', i) \<and> merge_audio (take n frames) i origin = Inl e)"
proof (cases "\<exists>m. result = Inr (Some m)")
  case True
  then obtain m where m: "result = Inr (Some m)" by blast
  obtain as where "compatible_prefix frames as" "length as = mf_source_count m" "2 \<le> length as" "length as \<le> 1024"
    "next_frame_id s = (s', fh_frame_id (header (mf_frame m)))"
    "merge_audio (map FAudio as) (fh_frame_id (header (mf_frame m))) origin = Inr (mf_frame m)"
    "target \<le> prefix_ns as" "prefix_ns as \<le> maximum"
    by (rule merge_audio_prefix_merged [OF assms(1) assms(2) [unfolded m]])
  then show ?thesis unfolding m sum.case option.case by (intro exI [of _ as] conjI)
next
  case False
  have "prefix_ns as < target \<or> maximum < prefix_ns as"
    if none: "result = Inr None" and as: "compatible_prefix frames as" "2 \<le> length as" "length as \<le> 1024"
      "prefix_ns (take 1 as) < target" for as
    using merge_audio_prefix_none [OF assms(1) assms(2) [unfolded none] as] .
  moreover have "s' = s" if "result = Inr None"
    using assms(2) that by (auto simp: merge_audio_prefix_def split: if_splits option.splits sum.splits prod.splits)
  moreover have "s' = s \<or> (\<exists>n i. next_frame_id s = (s', i) \<and> merge_audio (take n frames) i origin = Inl e)"
    if "result = Inl e" for e
    using assms(2) that by (auto simp: merge_audio_prefix_def split: if_splits option.splits sum.splits prod.splits)
  ultimately show ?thesis using False by (auto split: sum.split option.split)
qed

lemma example_scan:
  "\<exists>a rest. example_parents = FAudio a # rest \<and> ad_sample_rate_hz (cf_data a) = 4 \<and>
     merge_scan example_parents a 1000000000 1000000000 example_parents 0 0 = Inr (2, 4)"
  unfolding example_parents_def
  by (simp add: sample_boundary_timestamp_def prefix_duration_ns_def compatible_with_previous_def
      timestamp_checked_add_def sequence_checked_next_def arith_defs numeral_2_eq_2 [symmetric] Let_def
      del: One_nat_def)

lemma example_prefix:
  "\<exists>m. merge_audio_prefix example_parents 1000000000 1000000000 (\<lambda>s. (Suc s, ''m'')) example_origin (0::nat) =
     (1, Inr (Some m))"
proof -
  obtain f where f: "merge_audio example_parents ''m'' example_origin = Inr f"
    using example_merge(2) by (cases "merge_audio example_parents ''m'' example_origin") auto
  obtain a rest where a: "example_parents = FAudio a # rest" "ad_sample_rate_hz (cf_data a) = 4"
    "merge_scan example_parents a 1000000000 1000000000 example_parents 0 0 = Inr (2, 4)"
    using example_scan by blast
  have len: "length example_parents = 2" by (simp add: example_parents_def)
  have "prefix_duration_ns 4 4 = Inr 1000000000" by (simp add: prefix_duration_ns_def arith_defs)
  moreover have "(case example_parents of [] \<Rightarrow> None | frame # _ \<Rightarrow> as_audio frame) = Some a" by (simp add: a(1))
  moreover have "take 1024 example_parents = example_parents" "take 2 example_parents = example_parents"
    using len by simp_all
  ultimately show ?thesis using f a(2,3) by (simp add: merge_audio_prefix_def)
qed

theorem merge_audio_prefix_exact_witness:
  "\<exists>m as. merge_audio_prefix example_parents 1000000000 1000000000 (\<lambda>s. (Suc s, ''m'')) example_origin (0::nat) =
     (1, Inr (Some m)) \<and> compatible_prefix example_parents as \<and> length as = mf_source_count m \<and> 1000000000 \<le> prefix_ns as"
proof -
  obtain m where m: "merge_audio_prefix example_parents 1000000000 1000000000 (\<lambda>s. (Suc s, ''m''))
      example_origin (0::nat) = (1, Inr (Some m))"
    using example_prefix by blast
  with merge_audio_prefix_exact [OF example_merge(1) m] show ?thesis by auto
qed

end
