(* ===== verification/Flow.thy ===== *)
theory Flow
  imports Realtime Descriptors
begin

text \<open>
  The adaptive flow controller of one input port (\<open>muxiva-core/src/flow.rs\<close>). Its rates and
  predictions are \<open>f64\<close> values; the arithmetic is a record of operations on an arbitrary type
  \<open>'f\<close>, so every lemma holds for IEEE arithmetic with any rounding. Counters and durations
  are exact. The clock is user code: each reading of it is an argument.
\<close>

section \<open>Floating-point operations\<close>

record 'f f64_ops =
  f_zero :: 'f
  f_quarter :: 'f
  f_half :: 'f
  f_three_quarters :: 'f
  f_one :: 'f
  f_epsilon :: 'f
  f_add :: "'f \<Rightarrow> 'f \<Rightarrow> 'f"
  f_sub :: "'f \<Rightarrow> 'f \<Rightarrow> 'f"
  f_mul :: "'f \<Rightarrow> 'f \<Rightarrow> 'f"
  f_div :: "'f \<Rightarrow> 'f \<Rightarrow> 'f"
  f_max :: "'f \<Rightarrow> 'f \<Rightarrow> 'f"
  f_min :: "'f \<Rightarrow> 'f \<Rightarrow> 'f"
  f_eq :: "'f \<Rightarrow> 'f \<Rightarrow> bool"
  f_lt :: "'f \<Rightarrow> 'f \<Rightarrow> bool"
  f_le :: "'f \<Rightarrow> 'f \<Rightarrow> bool"
  f_is_finite :: "'f \<Rightarrow> bool"
  f_of_usize :: "usize \<Rightarrow> 'f"
  f_as_secs :: "duration \<Rightarrow> 'f"
  f_from_secs :: "'f \<Rightarrow> duration"

section \<open>Types\<close>

text \<open>\<open>Duration::MAX\<close> in nanoseconds.\<close>

definition duration_max :: duration where
  [arith_defs]: "duration_max = 18446744073709551615999999999"

definition duration_checked_add :: "duration \<Rightarrow> duration \<Rightarrow> duration option" where
  [arith_defs]: "duration_checked_add a b = (if a + b \<le> duration_max then Some (a + b) else None)"

definition duration_checked_sub :: "duration \<Rightarrow> duration \<Rightarrow> duration option" where
  [arith_defs]: "duration_checked_sub a b = (if b \<le> a then Some (a - b) else None)"

record input_port_key =
  ik_node_id :: node_id
  ik_port :: port_name

datatype flow_state = FlowNormal | FlowPressure | FlowCritical

record measurement =
  me_bytes :: usize
  me_media_duration :: duration

record flow_snapshot =
  fs_key :: input_port_key
  fs_state :: flow_state
  fs_queued_frames :: usize
  fs_queued_bytes :: usize
  fs_queued_media_duration :: duration
  fs_in_flight :: usize
  fs_input_media_duration_total :: duration
  fs_completed_media_duration_total :: duration
  fs_service_time_ema :: duration
  fs_predicted_latency :: duration
  fs_predicted_time_to_saturation :: "duration option"
  fs_dropped_frames_total :: u64
  fs_dropped_bytes_total :: u64
  fs_dropped_media_duration_total :: duration

datatype flow_action =
    KeepNormalBatch
  | SetBatchTarget duration
  | LimitAdmissions usize
  | ResumeAdmissions
  | EmitPressure
  | EmitResume
  | ApplyOverflow audio_overflow_policy
  | FlowAbortSession

datatype flow_signal_observation = SignalPressure | SignalResume

datatype trusted_vad_decision = VadSilence | VadSpeech

datatype overflow_decision =
    DecidePropagateBackpressure
  | DecideDropOldest
  | DecideDropNewest
  | DecideDropTrustedSilence
  | DecideAbortSession

datatype flow_drop_reason =
    FrameLimit | ByteLimit | MediaDurationLimit | TrustedVadSilence | PressureShedding | DeadlineExpired

record flow_update =
  fu_snapshot :: flow_snapshot
  fu_actions :: "flow_action list"

datatype flow_error =
    InvalidProfile realtime_profile_error
  | ClockMovedBackwards
  | CounterOverflow
  | AdmissionWithoutQueuedFrame
  | CompletionWithoutAdmission
  | DropWithoutQueuedFrame
  | LosslessDropForbidden

text \<open>The identity of a controller (\<open>Arc<()>\<close> compared by pointer) is a number.\<close>

record flow_work =
  fw_controller :: nat
  fw_admission_id :: u64
  fw_measurement :: measurement
  fw_started_at :: duration

record 'f rates =
  ra_frames_per_sec :: 'f
  ra_bytes_per_sec :: 'f
  ra_media_per_wall :: 'f

record 'f flow_controller =
  fl_key :: input_port_key
  fl_profile :: realtime_input_profile
  fl_identity :: nat
  fl_next_admission_id :: u64
  fl_active_admissions :: "u64 list"
  fl_state :: flow_state
  fl_queued_frames :: usize
  fl_queued_bytes :: usize
  fl_queued_media :: duration
  fl_in_flight :: usize
  fl_in_flight_bytes :: usize
  fl_in_flight_media :: duration
  fl_input_media_total :: duration
  fl_completed_media_total :: duration
  fl_input_rate :: "'f rates"
  fl_completion_rate :: "'f rates"
  fl_last_input_at :: "duration option"
  fl_service_time_ema_secs :: 'f
  fl_healthy_samples :: nat
  fl_signals :: "flow_signal_observation list"
  fl_dropped_frames :: u64
  fl_dropped_bytes :: u64
  fl_dropped_media :: duration

record flow_prediction =
  fp_latency :: duration
  fp_time_to_saturation :: "duration option"

definition RESUME_SAMPLES :: nat where
  "RESUME_SAMPLES = 3"

definition SIGNAL_HISTORY_LIMIT :: nat where
  "SIGNAL_HISTORY_LIMIT = 64"

section \<open>Rates and predictions\<close>

definition ema :: "'f f64_ops \<Rightarrow> 'f \<Rightarrow> 'f \<Rightarrow> 'f" where
  "ema F current sample =
     (if f_eq F current (f_zero F) then sample
      else f_add F (f_mul F (f_quarter F) sample) (f_mul F (f_sub F (f_one F) (f_quarter F)) current))"

definition rates_default :: "'f f64_ops \<Rightarrow> 'f rates" where
  "rates_default F =
     \<lparr>ra_frames_per_sec = f_zero F, ra_bytes_per_sec = f_zero F, ra_media_per_wall = f_zero F\<rparr>"

definition rates_observe :: "'f f64_ops \<Rightarrow> 'f rates \<Rightarrow> measurement \<Rightarrow> duration \<Rightarrow> 'f rates" where
  "rates_observe F self m elapsed =
     (let seconds = f_as_secs F elapsed in
      \<lparr>ra_frames_per_sec = ema F (ra_frames_per_sec self) (f_div F (f_one F) seconds),
       ra_bytes_per_sec = ema F (ra_bytes_per_sec self) (f_div F (f_of_usize F (me_bytes m)) seconds),
       ra_media_per_wall =
         ema F (ra_media_per_wall self) (f_div F (f_as_secs F (me_media_duration m)) seconds)\<rparr>)"

definition consider_saturation :: "'f f64_ops \<Rightarrow> 'f option \<Rightarrow> 'f \<Rightarrow> 'f \<Rightarrow> 'f option" where
  "consider_saturation F current remaining net_rate =
     (if f_le F net_rate (f_epsilon F) then current
      else
        let candidate = f_div F remaining net_rate in
        Some (case current of None \<Rightarrow> candidate | Some val \<Rightarrow> f_min F val candidate))"

definition flow_ratio :: "'f f64_ops \<Rightarrow> usize \<Rightarrow> usize \<Rightarrow> 'f" where
  "flow_ratio F val limit = f_div F (f_of_usize F val) (f_of_usize F limit)"

definition duration_ratio :: "'f f64_ops \<Rightarrow> duration \<Rightarrow> duration \<Rightarrow> 'f" where
  "duration_ratio F val limit = f_div F (f_as_secs F val) (f_as_secs F limit)"

definition duration_from_secs :: "'f f64_ops \<Rightarrow> 'f \<Rightarrow> duration" where
  "duration_from_secs F seconds =
     (if \<not> f_is_finite F seconds \<or> f_le F (f_as_secs F duration_max) seconds then duration_max
      else if f_le F seconds (f_zero F) then 0
      else f_from_secs F seconds)"

definition predict :: "'f f64_ops \<Rightarrow> 'f flow_controller \<Rightarrow> flow_prediction" where
  "predict F self =
     (let tuning = rp_tuning (fl_profile self);
          backlog_media = min (fl_queued_media self + fl_in_flight_media self) duration_max;
          backlog_frames = sat_add64 (fl_queued_frames self) (fl_in_flight self);
          latency_secs =
            (if backlog_media \<noteq> 0 \<and> f_lt F (f_epsilon F) (ra_media_per_wall (fl_completion_rate self))
             then f_add F (f_div F (f_as_secs F backlog_media) (ra_media_per_wall (fl_completion_rate self)))
                    (fl_service_time_ema_secs self)
             else if 0 < backlog_frames \<and> f_lt F (f_zero F) (fl_service_time_ema_secs self)
             then f_div F (f_mul F (f_of_usize F backlog_frames) (fl_service_time_ema_secs self))
                    (f_of_usize F (rt_max_in_flight tuning))
             else f_zero F);
          s1 = consider_saturation F None (f_of_usize F (rt_max_frames tuning - fl_queued_frames self))
                 (f_sub F (ra_frames_per_sec (fl_input_rate self)) (ra_frames_per_sec (fl_completion_rate self)));
          s2 = consider_saturation F s1 (f_of_usize F (rt_max_bytes tuning - fl_queued_bytes self))
                 (f_sub F (ra_bytes_per_sec (fl_input_rate self)) (ra_bytes_per_sec (fl_completion_rate self)));
          s3 = consider_saturation F s2
                 (f_as_secs F (rt_max_buffered_media_duration tuning - fl_queued_media self))
                 (f_sub F (ra_media_per_wall (fl_input_rate self)) (ra_media_per_wall (fl_completion_rate self)))
      in \<lparr>fp_latency = duration_from_secs F latency_secs,
          fp_time_to_saturation = map_option (duration_from_secs F) s3\<rparr>)"

definition snapshot_with_prediction ::
  "'f f64_ops \<Rightarrow> 'f flow_controller \<Rightarrow> flow_prediction \<Rightarrow> flow_snapshot" where
  "snapshot_with_prediction F self prediction =
     \<lparr>fs_key = fl_key self, fs_state = fl_state self, fs_queued_frames = fl_queued_frames self,
      fs_queued_bytes = fl_queued_bytes self, fs_queued_media_duration = fl_queued_media self,
      fs_in_flight = fl_in_flight self, fs_input_media_duration_total = fl_input_media_total self,
      fs_completed_media_duration_total = fl_completed_media_total self,
      fs_service_time_ema = duration_from_secs F (fl_service_time_ema_secs self),
      fs_predicted_latency = fp_latency prediction,
      fs_predicted_time_to_saturation = fp_time_to_saturation prediction,
      fs_dropped_frames_total = fl_dropped_frames self, fs_dropped_bytes_total = fl_dropped_bytes self,
      fs_dropped_media_duration_total = fl_dropped_media self\<rparr>"

definition flow_snapshot_of :: "'f f64_ops \<Rightarrow> 'f flow_controller \<Rightarrow> flow_snapshot" where
  "flow_snapshot_of F self = snapshot_with_prediction F self (predict F self)"

section \<open>Evaluation\<close>

definition desired_state :: "'f f64_ops \<Rightarrow> 'f flow_controller \<Rightarrow> flow_prediction \<Rightarrow> flow_state" where
  "desired_state F self prediction =
     (let tuning = rp_tuning (fl_profile self); contract = rp_contract (fl_profile self);
          frame_ratio = flow_ratio F (fl_queued_frames self) (rt_max_frames tuning);
          byte_ratio = flow_ratio F (fl_queued_bytes self) (rt_max_bytes tuning);
          media_ratio = duration_ratio F (fl_queued_media self) (rt_max_buffered_media_duration tuning);
          capacity_ratio = f_max F (f_max F frame_ratio byte_ratio) media_ratio;
          latency_ratio = duration_ratio F (fp_latency prediction) (rc_latency_budget contract);
          hard_limit = f_le F (f_one F) frame_ratio \<or> f_le F (f_one F) byte_ratio \<or> f_le F (f_one F) media_ratio;
          saturates_within = (\<lambda>d. case fp_time_to_saturation prediction of None \<Rightarrow> False | Some t \<Rightarrow> t \<le> d)
      in if hard_limit \<or> f_le F (f_one F) latency_ratio \<or> saturates_within (rt_deadline tuning div 2)
         then FlowCritical
         else if f_le F (f_three_quarters F) capacity_ratio \<or> f_le F (f_three_quarters F) latency_ratio \<or>
                 saturates_within (rt_deadline tuning)
         then FlowPressure
         else FlowNormal)"

definition flow_healthy :: "'f f64_ops \<Rightarrow> 'f flow_controller \<Rightarrow> flow_prediction \<Rightarrow> bool" where
  "flow_healthy F self prediction =
     (let tuning = rp_tuning (fl_profile self); contract = rp_contract (fl_profile self);
          frame_ratio = flow_ratio F (fl_queued_frames self) (rt_max_frames tuning);
          byte_ratio = flow_ratio F (fl_queued_bytes self) (rt_max_bytes tuning);
          media_ratio = duration_ratio F (fl_queued_media self) (rt_max_buffered_media_duration tuning);
          capacity_ratio = f_max F (f_max F frame_ratio byte_ratio) media_ratio;
          latency_ratio = duration_ratio F (fp_latency prediction) (rc_latency_budget contract)
      in f_lt F capacity_ratio (f_half F) \<and> f_lt F latency_ratio (f_half F) \<and>
         (case fp_time_to_saturation prediction of
            None \<Rightarrow> True | Some t \<Rightarrow> min (rt_deadline tuning * 2) duration_max < t))"

text \<open>The state machine: \<open>match (self.state, desired)\<close>.\<close>

definition flow_transition ::
  "flow_state \<Rightarrow> nat \<Rightarrow> flow_state \<Rightarrow> bool \<Rightarrow> flow_state \<times> nat" where
  "flow_transition state healthy_samples desired healthy =
     (case (state, desired) of
        (FlowNormal, next) \<Rightarrow> (next, healthy_samples)
      | (FlowPressure, FlowCritical) \<Rightarrow> (FlowCritical, healthy_samples)
      | (_, FlowNormal) \<Rightarrow>
          if healthy
          then (let samples = min (healthy_samples + 1) 255 in
                if RESUME_SAMPLES \<le> samples then (FlowNormal, 0) else (state, samples))
          else (state, 0)
      | _ \<Rightarrow> (state, 0))"

definition record_signal :: "'f flow_controller \<Rightarrow> flow_signal_observation \<Rightarrow> 'f flow_controller" where
  "record_signal self signal =
     (if \<not> rc_upstream_can_pause (rp_contract (fl_profile self)) then self
      else
        let signals = (if length (fl_signals self) = SIGNAL_HISTORY_LIMIT then tl (fl_signals self)
                       else fl_signals self) in
        self\<lparr>fl_signals := signals @ [signal]\<rparr>)"

definition flow_actions ::
  "runtime_input_tuning \<Rightarrow> flow_state \<Rightarrow> bool \<Rightarrow> bool \<Rightarrow> flow_action list" where
  "flow_actions tuning state emit_resume emit_pressure =
     (case state of
        FlowNormal \<Rightarrow> [KeepNormalBatch, ResumeAdmissions] @ (if emit_resume then [EmitResume] else [])
      | FlowPressure \<Rightarrow>
          (case rt_max_merge_duration tuning of None \<Rightarrow> [] | Some maximum \<Rightarrow> [SetBatchTarget maximum]) @
          [LimitAdmissions (max (rt_max_in_flight tuning div 2) 1)] @
          (if emit_pressure then [EmitPressure] else [])
      | FlowCritical \<Rightarrow>
          [LimitAdmissions 0] @ (if emit_pressure then [EmitPressure] else []) @
          (case rt_overflow_policy tuning of
             AbortSession \<Rightarrow> [FlowAbortSession] | policy \<Rightarrow> [ApplyOverflow policy]))"

definition evaluate :: "'f f64_ops \<Rightarrow> 'f flow_controller \<Rightarrow> 'f flow_controller \<times> flow_update" where
  "evaluate F self =
     (let prediction = predict F self;
          previous = fl_state self;
          (state, samples) = flow_transition previous (fl_healthy_samples self)
             (desired_state F self prediction) (flow_healthy F self prediction);
          self = self\<lparr>fl_state := state, fl_healthy_samples := samples\<rparr>;
          emit_resume = previous \<noteq> state \<and> state = FlowNormal;
          emit_pressure = previous = FlowNormal \<and> state \<noteq> FlowNormal;
          self = (if emit_resume then record_signal self SignalResume
                  else if emit_pressure then record_signal self SignalPressure else self)
      in (self, \<lparr>fu_snapshot = snapshot_with_prediction F self prediction,
                 fu_actions = flow_actions (rp_tuning (fl_profile self)) state emit_resume emit_pressure\<rparr>))"

section \<open>Observations\<close>

type_synonym ('f, 'a) flow_act = "('f flow_controller, flow_error, 'a) act"

definition flow_controller_new ::
  "'f f64_ops \<Rightarrow> input_port_key \<Rightarrow> realtime_input_profile \<Rightarrow> nat \<Rightarrow>
     (flow_error + 'f flow_controller) option" where
  "flow_controller_new F key profile identity =
     (case profile_validate profile of
        None \<Rightarrow> None
      | Some (Inl e) \<Rightarrow> Some (Inl (InvalidProfile e))
      | Some (Inr _) \<Rightarrow> Some (Inr
          \<lparr>fl_key = key, fl_profile = profile, fl_identity = identity, fl_next_admission_id = 0,
           fl_active_admissions = [], fl_state = FlowNormal, fl_queued_frames = 0, fl_queued_bytes = 0,
           fl_queued_media = 0, fl_in_flight = 0, fl_in_flight_bytes = 0, fl_in_flight_media = 0,
           fl_input_media_total = 0, fl_completed_media_total = 0, fl_input_rate = rates_default F,
           fl_completion_rate = rates_default F, fl_last_input_at = None,
           fl_service_time_ema_secs = f_zero F, fl_healthy_samples = 0, fl_signals = [],
           fl_dropped_frames = 0, fl_dropped_bytes = 0, fl_dropped_media = 0\<rparr>))"

text \<open>An assignment \<open>self.field = self.field.checked_op(..).ok_or(..)?\<close>.\<close>

definition flow_assign ::
  "('f flow_controller \<Rightarrow> 'b option) \<Rightarrow> flow_error \<Rightarrow> ('b \<Rightarrow> 'f flow_controller \<Rightarrow> 'f flow_controller) \<Rightarrow>
     ('f, unit) flow_act" where
  "flow_assign val e store self =
     (case val self of None \<Rightarrow> (self, Inl e) | Some v \<Rightarrow> (store v self, Inr ()))"

definition flow_modify :: "('f flow_controller \<Rightarrow> 'f flow_controller) \<Rightarrow> ('f, unit) flow_act" where
  "flow_modify f self = (f self, Inr ())"

definition flow_evaluate :: "'f f64_ops \<Rightarrow> ('f, flow_update) flow_act" where
  "flow_evaluate F self = (case evaluate F self of (self, update) \<Rightarrow> (self, Inr update))"

definition observe_input :: "'f f64_ops \<Rightarrow> measurement \<Rightarrow> duration \<Rightarrow> ('f, unit) flow_act" where
  "observe_input F m now self =
     (case fl_last_input_at self of
        None \<Rightarrow> (self, Inr ())
      | Some previous \<Rightarrow>
          (case duration_checked_sub now previous of
             None \<Rightarrow> (self, Inl ClockMovedBackwards)
           | Some elapsed \<Rightarrow>
               (if elapsed = 0 then self
                else self\<lparr>fl_input_rate := rates_observe F (fl_input_rate self) m elapsed\<rparr>, Inr ())))"

definition record_enqueue :: "'f f64_ops \<Rightarrow> measurement \<Rightarrow> duration \<Rightarrow> ('f, flow_update) flow_act" where
  "record_enqueue F m now =
     se_bind (observe_input F m now) (\<lambda>_.
     se_bind (flow_modify (\<lambda>self. self\<lparr>fl_last_input_at := Some now\<rparr>)) (\<lambda>_.
     se_bind (flow_assign (\<lambda>self. checked_add64 (fl_queued_frames self) 1) CounterOverflow
                (\<lambda>v self. self\<lparr>fl_queued_frames := v\<rparr>)) (\<lambda>_.
     se_bind (flow_assign (\<lambda>self. checked_add64 (fl_queued_bytes self) (me_bytes m)) CounterOverflow
                (\<lambda>v self. self\<lparr>fl_queued_bytes := v\<rparr>)) (\<lambda>_.
     se_bind (flow_assign (\<lambda>self. duration_checked_add (fl_queued_media self) (me_media_duration m))
                CounterOverflow (\<lambda>v self. self\<lparr>fl_queued_media := v\<rparr>)) (\<lambda>_.
     se_bind (flow_assign (\<lambda>self. duration_checked_add (fl_input_media_total self) (me_media_duration m))
                CounterOverflow (\<lambda>v self. self\<lparr>fl_input_media_total := v\<rparr>)) (\<lambda>_.
       flow_evaluate F))))))"

definition unqueue :: "measurement \<Rightarrow> 'f flow_controller \<Rightarrow> 'f flow_controller" where
  "unqueue m self =
     self\<lparr>fl_queued_frames := fl_queued_frames self - 1,
          fl_queued_bytes := fl_queued_bytes self - me_bytes m,
          fl_queued_media := fl_queued_media self - me_media_duration m\<rparr>"

definition not_queued :: "measurement \<Rightarrow> 'f flow_controller \<Rightarrow> bool" where
  "not_queued m self \<longleftrightarrow>
     fl_queued_frames self = 0 \<or> fl_queued_bytes self < me_bytes m \<or> fl_queued_media self < me_media_duration m"

definition record_admission ::
  "'f f64_ops \<Rightarrow> measurement \<Rightarrow> duration \<Rightarrow> ('f, flow_work \<times> flow_update) flow_act" where
  "record_admission F m now self =
     (if not_queued m self then (self, Inl AdmissionWithoutQueuedFrame)
      else
        let admission_id = fl_next_admission_id self in
        se_bind (flow_assign (\<lambda>self. checked_add64 (fl_next_admission_id self) 1) CounterOverflow
                   (\<lambda>v self. self\<lparr>fl_next_admission_id := v\<rparr>)) (\<lambda>_.
        se_bind (flow_modify (unqueue m)) (\<lambda>_.
        se_bind (flow_assign (\<lambda>self. checked_add64 (fl_in_flight self) 1) CounterOverflow
                   (\<lambda>v self. self\<lparr>fl_in_flight := v\<rparr>)) (\<lambda>_.
        se_bind (flow_assign (\<lambda>self. checked_add64 (fl_in_flight_bytes self) (me_bytes m)) CounterOverflow
                   (\<lambda>v self. self\<lparr>fl_in_flight_bytes := v\<rparr>)) (\<lambda>_.
        se_bind (flow_assign (\<lambda>self. duration_checked_add (fl_in_flight_media self) (me_media_duration m))
                   CounterOverflow (\<lambda>v self. self\<lparr>fl_in_flight_media := v\<rparr>)) (\<lambda>_.
        se_bind (flow_assign (\<lambda>self. if admission_id \<in> set (fl_active_admissions self) then None
                                      else Some (bs_insert admission_id (fl_active_admissions self)))
                   CounterOverflow (\<lambda>v self. self\<lparr>fl_active_admissions := v\<rparr>)) (\<lambda>_.
        se_bind (flow_evaluate F) (\<lambda>update self.
          (self, Inr (\<lparr>fw_controller = fl_identity self, fw_admission_id = admission_id,
                       fw_measurement = m, fw_started_at = now\<rparr>, update)))))))))
        self)"

text \<open>
  \<open>a || !b.remove(..) || c\<close> removes the admission as soon as the controller matches, whatever
  the later conditions say.
\<close>

definition record_completion :: "'f f64_ops \<Rightarrow> flow_work \<Rightarrow> duration \<Rightarrow> ('f, flow_update) flow_act" where
  "record_completion F work now self =
     (let m = fw_measurement work in
      if fl_identity self \<noteq> fw_controller work then (self, Inl CompletionWithoutAdmission)
      else if fw_admission_id work \<notin> set (fl_active_admissions self)
      then (self, Inl CompletionWithoutAdmission)
      else
        let self = self\<lparr>fl_active_admissions :=
              filter (\<lambda>i. i \<noteq> fw_admission_id work) (fl_active_admissions self)\<rparr> in
        if fl_in_flight self = 0 \<or> fl_in_flight_bytes self < me_bytes m \<or>
           fl_in_flight_media self < me_media_duration m
        then (self, Inl CompletionWithoutAdmission)
        else
          (case duration_checked_sub now (fw_started_at work) of
             None \<Rightarrow> (self, Inl ClockMovedBackwards)
           | Some service_time \<Rightarrow>
               se_bind (flow_modify (\<lambda>self.
                  if service_time = 0 then self
                  else self\<lparr>fl_completion_rate := rates_observe F (fl_completion_rate self) m service_time,
                            fl_service_time_ema_secs :=
                              ema F (fl_service_time_ema_secs self) (f_as_secs F service_time)\<rparr>)) (\<lambda>_.
               se_bind (flow_modify (\<lambda>self.
                  self\<lparr>fl_in_flight := fl_in_flight self - 1,
                       fl_in_flight_bytes := fl_in_flight_bytes self - me_bytes m,
                       fl_in_flight_media := fl_in_flight_media self - me_media_duration m\<rparr>)) (\<lambda>_.
               se_bind (flow_assign (\<lambda>self. duration_checked_add (fl_completed_media_total self) (me_media_duration m))
                          CounterOverflow (\<lambda>v self. self\<lparr>fl_completed_media_total := v\<rparr>)) (\<lambda>_.
                 flow_evaluate F))) self))"

definition record_drop :: "'f f64_ops \<Rightarrow> measurement \<Rightarrow> flow_drop_reason \<Rightarrow> ('f, flow_update) flow_act" where
  "record_drop F m reason self =
     (if rc_delivery_guarantee (rp_contract (fl_profile self)) = Lossless
      then (self, Inl LosslessDropForbidden)
      else if not_queued m self then (self, Inl DropWithoutQueuedFrame)
      else
        se_bind (flow_modify (unqueue m)) (\<lambda>_.
        se_bind (flow_assign (\<lambda>self. checked_add64 (fl_dropped_frames self) 1) CounterOverflow
                   (\<lambda>v self. self\<lparr>fl_dropped_frames := v\<rparr>)) (\<lambda>_.
        se_bind (flow_assign (\<lambda>self. checked_add64 (fl_dropped_bytes self) (me_bytes m)) CounterOverflow
                   (\<lambda>v self. self\<lparr>fl_dropped_bytes := v\<rparr>)) (\<lambda>_.
        se_bind (flow_assign (\<lambda>self. duration_checked_add (fl_dropped_media self) (me_media_duration m))
                   CounterOverflow (\<lambda>v self. self\<lparr>fl_dropped_media := v\<rparr>)) (\<lambda>_.
          flow_evaluate F)))) self)"

text \<open>The \<open>debug_assert\<close> of \<open>decide_overflow\<close> holds for every constructed controller.\<close>

definition decide_overflow :: "'f flow_controller \<Rightarrow> trusted_vad_decision option \<Rightarrow> overflow_decision" where
  "decide_overflow self vad =
     (case rt_overflow_policy (rp_tuning (fl_profile self)) of
        PropagateBackpressure \<Rightarrow> DecidePropagateBackpressure
      | DropOldest \<Rightarrow> DecideDropOldest
      | DropNewest \<Rightarrow> DecideDropNewest
      | DropSilenceFirst \<Rightarrow>
          (if vad = Some VadSilence then DecideDropTrustedSilence
           else if rc_upstream_can_pause (rp_contract (fl_profile self)) then DecidePropagateBackpressure
           else DecideAbortSession)
      | AbortSession \<Rightarrow> DecideAbortSession)"

definition flow_sample :: "'f f64_ops \<Rightarrow> duration \<Rightarrow> 'f flow_controller \<Rightarrow> 'f flow_controller \<times> flow_update" where
  "flow_sample F now self =
     (let idle = (case fl_last_input_at self of
                    None \<Rightarrow> False
                  | Some last_input \<Rightarrow>
                      min (rt_deadline (rp_tuning (fl_profile self)) * 2) duration_max \<le> now - last_input) in
      evaluate F (if idle then self\<lparr>fl_input_rate := rates_default F\<rparr> else self))"

definition overflow_may_drop :: "realtime_input_profile \<Rightarrow> bool" where
  "overflow_may_drop profile \<longleftrightarrow>
     rc_delivery_guarantee (rp_contract profile) \<noteq> Lossless \<and>
     drops_frames (rt_overflow_policy (rp_tuning profile))"

end
