(* ===== verification/Flow_Correct.thy ===== *)
theory Flow_Correct
  imports Flow Complex_Main
begin

text \<open>
  Correctness of the adaptive flow controller: its accounts of queued, admitted, completed
  and dropped frames, and its state machine with the signals it emits. The locale
  \<open>machine_invariant\<close> states what a predicate on the state machine needs to hold after every
  call; it is interpreted for the invariant of the state machine and for the identity and
  profile of the controller.
\<close>

section \<open>A controller and the work it has handed out\<close>

text \<open>
  One evaluation of a controller: its state before, the state its measurements ask for,
  whether they are healthy, and its state after. Every successful call ends with one, on the
  counters and rates it has just updated; a failed call makes none.
\<close>

record flow_evaluation =
  fe_before :: flow_state
  fe_desired :: flow_state
  fe_healthy :: bool
  fe_after :: flow_state

text \<open>
  The evaluation a successful call on \<open>s\<close> that returned with \<open>s'\<close> has made: an evaluation
  writes the state, the count of healthy evaluations and the signals, which neither
  \<open>desired_state\<close> nor \<open>flow_healthy\<close> reads (\<open>evaluate_measures\<close> below).
\<close>

definition evaluation :: "'f f64_ops \<Rightarrow> 'f flow_controller \<Rightarrow> 'f flow_controller \<Rightarrow> flow_evaluation" where
  "evaluation F s s' =
     \<lparr>fe_before = fl_state s, fe_desired = desired_state F s' (predict F s'),
      fe_healthy = flow_healthy F s' (predict F s'), fe_after = fl_state s'\<rparr>"

text \<open>
  The environment of a controller: the \<open>FlowWork\<close> values not yet consumed, whether a call has
  reported an overflow or a clock that went backwards, the measurements of the frames
  enqueued, completed and dropped so far, and the evaluations made. A \<open>FlowWork\<close> is consumed
  by the completion that takes it, whatever that returns.
\<close>

record 'f flow_system =
  fy_flow :: "'f flow_controller"
  fy_works :: "flow_work list"
  fy_failed :: bool
  fy_in :: "measurement list"
  fy_done :: "measurement list"
  fy_drop :: "measurement list"
  fy_evals :: "flow_evaluation list"

datatype flow_op =
    FEnqueue measurement duration
  | FAdmit measurement duration
  | FComplete nat duration
  | FDrop measurement flow_drop_reason
  | FSample duration

definition fatal :: "flow_error \<Rightarrow> bool" where
  "fatal e \<longleftrightarrow> e = ClockMovedBackwards \<or> e = CounterOverflow"

fun flow_step :: "'f f64_ops \<Rightarrow> flow_op \<Rightarrow> 'f flow_system \<Rightarrow> 'f flow_system" where
  "flow_step F (FEnqueue m now) y =
     (case record_enqueue F m now (fy_flow y) of
        (s, Inr _) \<Rightarrow> y\<lparr>fy_flow := s, fy_in := fy_in y @ [m],
                         fy_evals := fy_evals y @ [evaluation F (fy_flow y) s]\<rparr>
      | (s, Inl e) \<Rightarrow> y\<lparr>fy_flow := s, fy_failed := fy_failed y \<or> fatal e\<rparr>)"
| "flow_step F (FAdmit m now) y =
     (case record_admission F m now (fy_flow y) of
        (s, Inr (work, _)) \<Rightarrow> y\<lparr>fy_flow := s, fy_works := fy_works y @ [work],
                                 fy_evals := fy_evals y @ [evaluation F (fy_flow y) s]\<rparr>
      | (s, Inl e) \<Rightarrow> y\<lparr>fy_flow := s, fy_failed := fy_failed y \<or> fatal e\<rparr>)"
| "flow_step F (FComplete n now) y =
     (if length (fy_works y) \<le> n then y
      else
        let work = fy_works y ! n;
            y = y\<lparr>fy_works := take n (fy_works y) @ drop (Suc n) (fy_works y)\<rparr> in
        case record_completion F work now (fy_flow y) of
          (s, Inr _) \<Rightarrow> y\<lparr>fy_flow := s, fy_done := fy_done y @ [fw_measurement work],
                           fy_evals := fy_evals y @ [evaluation F (fy_flow y) s]\<rparr>
        | (s, Inl e) \<Rightarrow> y\<lparr>fy_flow := s, fy_failed := fy_failed y \<or> fatal e\<rparr>)"
| "flow_step F (FDrop m reason) y =
     (case record_drop F m reason (fy_flow y) of
        (s, Inr _) \<Rightarrow> y\<lparr>fy_flow := s, fy_drop := fy_drop y @ [m],
                         fy_evals := fy_evals y @ [evaluation F (fy_flow y) s]\<rparr>
      | (s, Inl e) \<Rightarrow> y\<lparr>fy_flow := s, fy_failed := fy_failed y \<or> fatal e\<rparr>)"
| "flow_step F (FSample now) y =
     (let s = fst (flow_sample F now (fy_flow y)) in
      y\<lparr>fy_flow := s, fy_evals := fy_evals y @ [evaluation F (fy_flow y) s]\<rparr>)"

section \<open>What each call does\<close>

text \<open>The part of a controller that only \<open>evaluate\<close> changes.\<close>

definition machine ::
  "'f flow_controller \<Rightarrow> realtime_input_profile \<times> nat \<times> flow_state \<times> nat \<times> flow_signal_observation list" where
  "machine s = (fl_profile s, fl_identity s, fl_state s, fl_healthy_samples s, fl_signals s)"

lemma evaluate_counters [simp]:
  "fl_profile (fst (evaluate F s)) = fl_profile s" "fl_identity (fst (evaluate F s)) = fl_identity s"
  "fl_next_admission_id (fst (evaluate F s)) = fl_next_admission_id s"
  "fl_active_admissions (fst (evaluate F s)) = fl_active_admissions s"
  "fl_queued_frames (fst (evaluate F s)) = fl_queued_frames s"
  "fl_queued_bytes (fst (evaluate F s)) = fl_queued_bytes s"
  "fl_queued_media (fst (evaluate F s)) = fl_queued_media s"
  "fl_in_flight (fst (evaluate F s)) = fl_in_flight s"
  "fl_in_flight_bytes (fst (evaluate F s)) = fl_in_flight_bytes s"
  "fl_in_flight_media (fst (evaluate F s)) = fl_in_flight_media s"
  "fl_input_media_total (fst (evaluate F s)) = fl_input_media_total s"
  "fl_completed_media_total (fst (evaluate F s)) = fl_completed_media_total s"
  "fl_dropped_frames (fst (evaluate F s)) = fl_dropped_frames s"
  "fl_dropped_bytes (fst (evaluate F s)) = fl_dropped_bytes s"
  "fl_dropped_media (fst (evaluate F s)) = fl_dropped_media s"
  by (simp_all add: evaluate_def record_signal_def Let_def split: prod.splits)

lemma flow_evaluate_eq: "flow_evaluate F s = (fst (evaluate F s), Inr (snd (evaluate F s)))"
  by (simp add: flow_evaluate_def split: prod.splits)

lemmas flow_calls = se_bind_def flow_assign_def flow_modify_def flow_evaluate_eq unqueue_def not_queued_def
  machine_def fatal_def Let_def

text \<open>
  The accounts of a controller are what its counters say about the frames it has seen. Each
  call either changes them as announced, or leaves them, or reports a fatal error.
\<close>

record accounts =
  ac_next :: u64
  ac_active :: "u64 list"
  ac_queued :: "usize \<times> usize \<times> duration"
  ac_in_flight :: "usize \<times> usize \<times> duration"
  ac_dropped :: "u64 \<times> u64 \<times> duration"
  ac_input_media :: duration
  ac_completed_media :: duration

definition accounts_of :: "'f flow_controller \<Rightarrow> accounts" where
  "accounts_of s =
     \<lparr>ac_next = fl_next_admission_id s, ac_active = fl_active_admissions s,
      ac_queued = (fl_queued_frames s, fl_queued_bytes s, fl_queued_media s),
      ac_in_flight = (fl_in_flight s, fl_in_flight_bytes s, fl_in_flight_media s),
      ac_dropped = (fl_dropped_frames s, fl_dropped_bytes s, fl_dropped_media s),
      ac_input_media = fl_input_media_total s, ac_completed_media = fl_completed_media_total s\<rparr>"

definition plus_frame :: "nat \<times> nat \<times> nat \<Rightarrow> measurement \<Rightarrow> nat \<times> nat \<times> nat" where
  "plus_frame t m = (case t of (n, b, d) \<Rightarrow> (n + 1, b + me_bytes m, d + me_media_duration m))"

definition minus_frame :: "nat \<times> nat \<times> nat \<Rightarrow> measurement \<Rightarrow> nat \<times> nat \<times> nat" where
  "minus_frame t m = (case t of (n, b, d) \<Rightarrow> (n - 1, b - me_bytes m, d - me_media_duration m))"

definition has_frame :: "nat \<times> nat \<times> nat \<Rightarrow> measurement \<Rightarrow> bool" where
  "has_frame t m \<longleftrightarrow> (case t of (n, b, d) \<Rightarrow> 0 < n \<and> me_bytes m \<le> b \<and> me_media_duration m \<le> d)"

lemmas account_defs = accounts_of_def plus_frame_def minus_frame_def has_frame_def

lemma evaluate_accounts [simp]: "accounts_of (fst (evaluate F s)) = accounts_of s"
  by (simp add: accounts_of_def)

lemma record_enqueue_accounts:
  "case record_enqueue F m now s of
     (s', Inr _) \<Rightarrow> accounts_of s' =
       (accounts_of s)\<lparr>ac_queued := plus_frame (ac_queued (accounts_of s)) m,
         ac_input_media := fl_input_media_total s + me_media_duration m\<rparr>
   | (s', Inl e) \<Rightarrow> fatal e"
  unfolding record_enqueue_def observe_input_def flow_calls
  by (simp add: account_defs duration_checked_add_def checked_add64_def split: option.splits)

lemma record_admission_accounts:
  "case record_admission F m now s of
     (s', Inr (work, _)) \<Rightarrow> has_frame (ac_queued (accounts_of s)) m \<and>
       fl_next_admission_id s \<notin> set (fl_active_admissions s) \<and>
       work = \<lparr>fw_controller = fl_identity s, fw_admission_id = fl_next_admission_id s,
               fw_measurement = m, fw_started_at = now\<rparr> \<and>
       accounts_of s' =
         (accounts_of s)\<lparr>ac_next := fl_next_admission_id s + 1,
           ac_active := bs_insert (fl_next_admission_id s) (fl_active_admissions s),
           ac_queued := minus_frame (ac_queued (accounts_of s)) m,
           ac_in_flight := plus_frame (ac_in_flight (accounts_of s)) m\<rparr>
   | (s', Inl e) \<Rightarrow> fatal e \<or> e = AdmissionWithoutQueuedFrame \<and> s' = s"
  unfolding record_admission_def flow_calls
  by (simp add: account_defs duration_checked_add_def checked_add64_def not_less not_le split: option.splits)

lemma record_completion_accounts:
  "case record_completion F w now s of
     (s', Inr _) \<Rightarrow> accounts_of s' =
       (accounts_of s)\<lparr>ac_active := filter (\<lambda>i. i \<noteq> fw_admission_id w) (fl_active_admissions s),
         ac_in_flight := minus_frame (ac_in_flight (accounts_of s)) (fw_measurement w),
         ac_completed_media := fl_completed_media_total s + me_media_duration (fw_measurement w)\<rparr>
   | (s', Inl e) \<Rightarrow> fatal e \<or> e = CompletionWithoutAdmission \<and>
       (fl_identity s \<noteq> fw_controller w \<or> fw_admission_id w \<notin> set (fl_active_admissions s) \<or>
        \<not> has_frame (ac_in_flight (accounts_of s)) (fw_measurement w))"
  unfolding record_completion_def flow_calls
  by (auto simp: account_defs duration_checked_add_def not_less not_le split: option.splits)

lemma record_drop_accounts:
  "case record_drop F m reason s of
     (s', Inr _) \<Rightarrow> has_frame (ac_queued (accounts_of s)) m \<and>
       rc_delivery_guarantee (rp_contract (fl_profile s)) = BestEffort \<and>
       accounts_of s' =
         (accounts_of s)\<lparr>ac_queued := minus_frame (ac_queued (accounts_of s)) m,
           ac_dropped := plus_frame (ac_dropped (accounts_of s)) m\<rparr>
   | (s', Inl e) \<Rightarrow> fatal e \<or> (e = LosslessDropForbidden \<or> e = DropWithoutQueuedFrame) \<and> s' = s"
  unfolding record_drop_def flow_calls
  by (cases "rc_delivery_guarantee (rp_contract (fl_profile s))")
     (auto simp: account_defs duration_checked_add_def checked_add64_def not_less not_le split: option.splits)

section \<open>Invariants of the state machine\<close>

text \<open>
  Every call on a controller either evaluates it once, after updates that leave its machine
  part alone, or fails and leaves that part as it was.
\<close>

definition evaluates :: "'f f64_ops \<Rightarrow> 'f flow_controller \<Rightarrow> 'f flow_controller \<Rightarrow> bool" where
  "evaluates F s s' \<longleftrightarrow> (\<exists>c. machine c = machine s \<and> s' = fst (evaluate F c))"

lemma evaluatesI: "machine c = machine s \<Longrightarrow> evaluates F s (fst (evaluate F c))"
  by (auto simp: evaluates_def)

lemmas call_defs = se_bind_def flow_assign_def flow_modify_def flow_evaluate_eq unqueue_def not_queued_def Let_def

lemma record_enqueue_evaluates:
  "case record_enqueue F m now s of (s', Inr _) \<Rightarrow> evaluates F s s' | (s', Inl _) \<Rightarrow> machine s' = machine s"
  unfolding record_enqueue_def observe_input_def call_defs
  by (simp add: evaluatesI machine_def split: option.splits)

lemma record_admission_evaluates:
  "case record_admission F m now s of (s', Inr _) \<Rightarrow> evaluates F s s' | (s', Inl _) \<Rightarrow> machine s' = machine s"
  unfolding record_admission_def call_defs
  by (simp add: evaluatesI machine_def split: option.splits)

lemma record_completion_evaluates:
  "case record_completion F w now s of (s', Inr _) \<Rightarrow> evaluates F s s' | (s', Inl _) \<Rightarrow> machine s' = machine s"
  unfolding record_completion_def call_defs
  by (simp add: evaluatesI machine_def split: option.splits)

lemma record_drop_evaluates:
  "case record_drop F m reason s of (s', Inr _) \<Rightarrow> evaluates F s s' | (s', Inl _) \<Rightarrow> machine s' = machine s"
  unfolding record_drop_def call_defs
  by (simp add: evaluatesI machine_def split: option.splits)

lemma flow_sample_evaluates: "evaluates F s (fst (flow_sample F now s))"
  unfolding flow_sample_def Let_def by (rule evaluatesI) (simp add: machine_def)

lemma flow_step_evaluates:
  "(\<exists>c. machine c = machine (fy_flow y) \<and> fy_flow (flow_step F a y) = fst (evaluate F c) \<and>
      fy_evals (flow_step F a y) = fy_evals y @ [evaluation F (fy_flow y) (fst (evaluate F c))]) \<or>
   machine (fy_flow (flow_step F a y)) = machine (fy_flow y) \<and> fy_evals (flow_step F a y) = fy_evals y"
proof (cases a)
  case (FEnqueue m now)
  with record_enqueue_evaluates [where F = F and m = m and now = now and s = "fy_flow y"] show ?thesis
    by (auto simp: evaluates_def split: prod.splits sum.splits)
next
  case (FAdmit m now)
  with record_admission_evaluates [where F = F and m = m and now = now and s = "fy_flow y"] show ?thesis
    by (auto simp: evaluates_def split: prod.splits sum.splits)
next
  case (FComplete n now)
  with record_completion_evaluates [where F = F and w = "fy_works y ! n" and now = now and s = "fy_flow y"] show ?thesis
    by (auto simp: evaluates_def Let_def split: prod.splits sum.splits)
next
  case (FDrop m reason)
  with record_drop_evaluates [where F = F and m = m and reason = reason and s = "fy_flow y"] show ?thesis
    by (auto simp: evaluates_def split: prod.splits sum.splits)
next
  case (FSample now)
  with flow_sample_evaluates [where s = "fy_flow y" and now = now and F = F] show ?thesis by (auto simp: evaluates_def Let_def)
qed

text \<open>
  A predicate on the machine part of a controller that \<open>evaluate\<close> keeps holds after every
  call, failed ones included.
\<close>

locale machine_invariant =
  fixes F :: "'f f64_ops"
    and P :: "'f flow_controller \<Rightarrow> bool"
  assumes same: "machine s = machine t \<Longrightarrow> P s = P t"
    and eval: "P s \<Longrightarrow> P (fst (evaluate F s))"
begin

lemma keep_step: "P (fy_flow y) \<Longrightarrow> P (fy_flow (flow_step F a y))"
  using flow_step_evaluates [where y = y and F = F and a = a] same eval by metis

lemma keep_run: "P (fy_flow y) \<Longrightarrow> P (fy_flow (fold (flow_step F) ops y))"
  by (induction ops arbitrary: y) (simp_all add: keep_step)

end

text \<open>Signals alternate, and the last one tells whether the controller is in its normal state.\<close>

definition machine_ok :: "'f flow_controller \<Rightarrow> bool" where
  "machine_ok s \<longleftrightarrow>
     fl_healthy_samples s < RESUME_SAMPLES \<and> (fl_state s = FlowNormal \<longrightarrow> fl_healthy_samples s = 0) \<and>
     length (fl_signals s) \<le> SIGNAL_HISTORY_LIMIT \<and> successively (\<noteq>) (fl_signals s) \<and>
     (fl_signals s \<noteq> [] \<longrightarrow> (last (fl_signals s) = SignalPressure \<longleftrightarrow> fl_state s \<noteq> FlowNormal)) \<and>
     (if rc_upstream_can_pause (rp_contract (fl_profile s)) then fl_signals s = [] \<longrightarrow> fl_state s = FlowNormal
      else fl_signals s = [])"

lemma flow_transition_cases:
  assumes "flow_transition st n want healthy = (st', n')" and "n < RESUME_SAMPLES"
    and "st = FlowNormal \<Longrightarrow> n = 0"
  shows "n' < RESUME_SAMPLES \<and> (st' = FlowNormal \<longrightarrow> n' = 0) \<and>
    (st = FlowCritical \<longrightarrow> st' \<noteq> FlowPressure) \<and>
    (st \<noteq> FlowNormal \<longrightarrow> (st' = FlowNormal \<longleftrightarrow> want = FlowNormal \<and> healthy \<and> n = 2))"
  using assms by (cases st; cases want) (auto simp: flow_transition_def RESUME_SAMPLES_def Let_def split: if_splits)

lemma successively_tl: "successively P xs \<Longrightarrow> successively P (tl xs)"
  by (cases xs) (auto simp: successively_Cons)

lemma record_signal_ok:
  assumes "length (fl_signals s) \<le> SIGNAL_HISTORY_LIMIT" and "successively (\<noteq>) (fl_signals s)"
    and "fl_signals s = [] \<or> last (fl_signals s) \<noteq> sig"
  shows "length (fl_signals (record_signal s sig)) \<le> SIGNAL_HISTORY_LIMIT \<and>
    successively (\<noteq>) (fl_signals (record_signal s sig)) \<and>
    (if rc_upstream_can_pause (rp_contract (fl_profile s))
     then fl_signals (record_signal s sig) \<noteq> [] \<and> last (fl_signals (record_signal s sig)) = sig
     else fl_signals (record_signal s sig) = fl_signals s)"
  using assms
  by (auto simp: record_signal_def SIGNAL_HISTORY_LIMIT_def successively_append_iff Let_def last_tl
      dest: successively_tl split: if_splits)

lemma record_signal_fields [simp]:
  "fl_state (record_signal s sig) = fl_state s" "fl_healthy_samples (record_signal s sig) = fl_healthy_samples s"
  "fl_profile (record_signal s sig) = fl_profile s"
  by (simp_all add: record_signal_def Let_def)

lemma machine_ok_evaluate:
  assumes "machine_ok s"
  shows "machine_ok (fst (evaluate F s))"
proof -
  let ?p = "predict F s"
  obtain st n where t: "flow_transition (fl_state s) (fl_healthy_samples s) (desired_state F s ?p)
      (flow_healthy F s ?p) = (st, n)" by (rule prod.exhaust)
  note tr = flow_transition_cases [OF t]
  let ?s = "s\<lparr>fl_state := st, fl_healthy_samples := n\<rparr>"
  show ?thesis
  proof (cases "fl_state s \<noteq> st \<and> st = FlowNormal \<or> fl_state s = FlowNormal \<and> st \<noteq> FlowNormal")
    case False
    then have "fst (evaluate F s) = ?s" by (auto simp: evaluate_def t Let_def)
    with False assms tr show ?thesis by (auto simp: machine_ok_def)
  next
    case True
    define sig where "sig = (if st = FlowNormal then SignalResume else SignalPressure)"
    have ev: "fst (evaluate F s) = record_signal ?s sig"
      using True by (auto simp: evaluate_def t Let_def sig_def)
    have "fl_signals s = [] \<or> last (fl_signals s) \<noteq> sig"
      using assms True by (auto simp: machine_ok_def sig_def)
    with assms have "length (fl_signals (record_signal ?s sig)) \<le> SIGNAL_HISTORY_LIMIT \<and>
        successively (\<noteq>) (fl_signals (record_signal ?s sig)) \<and>
        (if rc_upstream_can_pause (rp_contract (fl_profile s))
         then fl_signals (record_signal ?s sig) \<noteq> [] \<and> last (fl_signals (record_signal ?s sig)) = sig
         else fl_signals (record_signal ?s sig) = fl_signals s)"
      using record_signal_ok [of ?s sig] by (simp add: machine_ok_def)
    with assms tr True show ?thesis
      unfolding ev by (auto simp: machine_ok_def sig_def split: if_splits)
  qed
qed

interpretation flow_machine: machine_invariant F machine_ok
proof unfold_locales
  fix s t :: "'a flow_controller"
  assume "machine s = machine t"
  then show "machine_ok s = machine_ok t" by (simp add: machine_ok_def machine_def)
qed (rule machine_ok_evaluate)

interpretation flow_identity: machine_invariant F "\<lambda>s. fl_identity s = i \<and> fl_profile s = p"
  by unfold_locales (simp_all add: machine_def)

section \<open>The evaluations of a controller\<close>

lemma record_signal_update: "\<exists>ys. record_signal s sig = s\<lparr>fl_signals := ys\<rparr>"
  by (auto simp: record_signal_def Let_def intro: exI [of _ "fl_signals s"])

lemma measures_unread:
  "predict F (s\<lparr>fl_state := st, fl_healthy_samples := n\<rparr>) = predict F s"
  "desired_state F (s\<lparr>fl_state := st, fl_healthy_samples := n\<rparr>) q = desired_state F s q"
  "flow_healthy F (s\<lparr>fl_state := st, fl_healthy_samples := n\<rparr>) q = flow_healthy F s q"
  "predict F (s\<lparr>fl_signals := ys\<rparr>) = predict F s"
  "desired_state F (s\<lparr>fl_signals := ys\<rparr>) q = desired_state F s q"
  "flow_healthy F (s\<lparr>fl_signals := ys\<rparr>) q = flow_healthy F s q"
  by (simp_all add: predict_def desired_state_def flow_healthy_def Let_def)

lemma signals_unread:
  "predict F (record_signal s sig) = predict F s"
  "desired_state F (record_signal s sig) q = desired_state F s q"
  "flow_healthy F (record_signal s sig) q = flow_healthy F s q"
  using record_signal_update [of s sig] by (auto simp: measures_unread)

lemma evaluate_measures [simp]:
  "desired_state F (fst (evaluate F s)) (predict F (fst (evaluate F s))) = desired_state F s (predict F s)"
  "flow_healthy F (fst (evaluate F s)) (predict F (fst (evaluate F s))) = flow_healthy F s (predict F s)"
  by (simp_all add: evaluate_def Let_def measures_unread signals_unread split: prod.splits)

text \<open>
  An evaluation is calm when it asks for the normal state with healthy measurements; it
  escalates when it finds a controller under pressure and asks for the critical state. The
  signal of an evaluation is the one it records when upstream can pause.
\<close>

definition eval_calm :: "flow_evaluation \<Rightarrow> bool" where
  "eval_calm e \<longleftrightarrow> fe_desired e = FlowNormal \<and> fe_healthy e"

definition eval_escalates :: "flow_evaluation \<Rightarrow> bool" where
  "eval_escalates e \<longleftrightarrow> fe_before e = FlowPressure \<and> fe_desired e = FlowCritical"

definition eval_signal :: "flow_evaluation \<Rightarrow> flow_signal_observation list" where
  "eval_signal e =
     (if fe_before e = FlowNormal \<and> fe_after e \<noteq> FlowNormal then [SignalPressure]
      else if fe_before e \<noteq> FlowNormal \<and> fe_after e = FlowNormal then [SignalResume] else [])"

text \<open>
  What evaluation \<open>e\<close> does after the evaluations \<open>pre\<close>: it starts in the state the last one
  left; in the normal state it moves where the measurements ask; under pressure it moves to
  critical exactly when they ask for that; and it leaves pressure for the normal state only
  if it is calm and the evaluations just before it, back from it without a gap, hold two more
  calm ones and nothing else but at most one escalation, all of them made outside the normal
  state. Conversely a third calm evaluation in a row always ends in the normal state.
\<close>

definition hysteresis :: "flow_evaluation list \<Rightarrow> flow_evaluation \<Rightarrow> bool" where
  "hysteresis pre e \<longleftrightarrow>
     fe_before e = (if pre = [] then FlowNormal else fe_after (last pre)) \<and>
     (fe_before e = FlowNormal \<longrightarrow> fe_after e = fe_desired e) \<and>
     (fe_before e = FlowPressure \<longrightarrow> (fe_after e = FlowCritical \<longleftrightarrow> eval_escalates e)) \<and>
     (fe_before e = FlowCritical \<longrightarrow> fe_after e \<noteq> FlowPressure) \<and>
     (fe_before e \<noteq> FlowNormal \<and> fe_after e = FlowNormal \<longrightarrow>
        eval_calm e \<and>
        (\<exists>old hs. pre = old @ hs \<and> length (filter eval_calm hs) = 2 \<and> length hs \<le> 3 \<and>
           (\<forall>h \<in> set hs. fe_before h \<noteq> FlowNormal \<and> (eval_calm h \<or> eval_escalates h)))) \<and>
     ((\<exists>old a b. pre = old @ [a, b] \<and> eval_calm a \<and> eval_calm b) \<and> eval_calm e \<longrightarrow> fe_after e = FlowNormal)"

text \<open>
  The counter of healthy evaluations is the number of calm ones in the current stretch, and no
  smaller than the number of calm ones at the end of the history.
\<close>

definition stretch :: "flow_evaluation list \<Rightarrow> flow_state \<Rightarrow> nat \<Rightarrow> flow_evaluation list \<Rightarrow> bool" where
  "stretch hs st n es \<longleftrightarrow>
     (\<exists>old. es = old @ hs) \<and> length (filter eval_calm hs) = n \<and>
     length hs \<le> n + (if st = FlowCritical then 1 else 0) \<and>
     (\<forall>h \<in> set hs. fe_before h \<noteq> FlowNormal \<and> (eval_calm h \<or> eval_escalates h))"

definition history_ok :: "flow_evaluation list \<Rightarrow> flow_state \<Rightarrow> nat \<Rightarrow> bool" where
  "history_ok es st n \<longleftrightarrow>
     st = (if es = [] then FlowNormal else fe_after (last es)) \<and>
     (\<exists>hs. stretch hs st n es) \<and>
     (st = FlowNormal \<or> length (takeWhile eval_calm (rev es)) \<le> n) \<and>
     (\<forall>pre e post. es = pre @ e # post \<longrightarrow> hysteresis pre e)"

lemma calm_not_escalates: "eval_calm e \<Longrightarrow> \<not> eval_escalates e"
  by (simp add: eval_calm_def eval_escalates_def)

lemma stretch_snoc:
  assumes "stretch hs st n es" and "st \<noteq> FlowNormal" and "fe_before e = st" and "n < RESUME_SAMPLES"
    and "flow_transition st n (fe_desired e) (fe_healthy e) = (fe_after e, n')"
  shows "\<exists>hs. stretch hs (fe_after e) n' (es @ [e])"
proof (cases "fe_after e = FlowNormal \<or> \<not> (eval_calm e \<or> eval_escalates e)")
  case True
  with assms have "n' = 0"
    by (cases st; cases "fe_desired e")
       (auto simp: flow_transition_def eval_calm_def eval_escalates_def Let_def split: if_splits)
  then have "stretch [] (fe_after e) n' (es @ [e])" by (simp add: stretch_def)
  then show ?thesis by blast
next
  case False
  with assms have "stretch (hs @ [e]) (fe_after e) n' (es @ [e])"
    by (cases st; cases "fe_desired e")
       (auto simp: flow_transition_def stretch_def eval_calm_def eval_escalates_def RESUME_SAMPLES_def Let_def
          split: if_splits)
  then show ?thesis by blast
qed

lemma hysteresis_next:
  assumes "history_ok es st n" and "n < RESUME_SAMPLES" and "st = FlowNormal \<Longrightarrow> n = 0"
    and e: "fe_before e = st" and t: "flow_transition st n (fe_desired e) (fe_healthy e) = (fe_after e, n')"
  shows "hysteresis es e"
proof -
  obtain hs where hs: "stretch hs st n es" using assms(1) by (auto simp: history_ok_def)
  note moves = flow_transition_cases [OF t assms(2,3)]
  have leave: "eval_calm e \<and> (\<exists>old hs. es = old @ hs \<and> length (filter eval_calm hs) = 2 \<and> length hs \<le> 3 \<and>
           (\<forall>h \<in> set hs. fe_before h \<noteq> FlowNormal \<and> (eval_calm h \<or> eval_escalates h)))"
    if "st \<noteq> FlowNormal" "fe_after e = FlowNormal"
  proof -
    from that moves have "n = 2" and "eval_calm e" by (simp_all add: eval_calm_def)
    moreover from hs obtain old where "es = old @ hs" by (auto simp: stretch_def)
    ultimately show ?thesis
      using hs by (intro conjI exI [of _ old] exI [of _ hs]) (auto simp: stretch_def split: if_splits)
  qed
  have third: "fe_after e = FlowNormal" if "es = old @ [a, b]" "eval_calm a" "eval_calm b" "eval_calm e" for old a b
  proof (cases "st = FlowNormal")
    case True
    with t that(4) show ?thesis by (simp add: flow_transition_def eval_calm_def)
  next
    case False
    with assms(1) that have "2 \<le> n" by (simp add: history_ok_def)
    with assms(2) have "n = 2" by (simp add: RESUME_SAMPLES_def)
    with False moves that(4) show ?thesis by (simp add: eval_calm_def)
  qed
  have "(st = FlowNormal \<longrightarrow> fe_after e = fe_desired e) \<and>
    (st = FlowPressure \<longrightarrow> (fe_after e = FlowCritical \<longleftrightarrow> eval_escalates e))"
    using t e by (cases st; cases "fe_desired e")
      (auto simp: flow_transition_def eval_escalates_def Let_def split: if_splits)
  with moves e leave third assms(1) show ?thesis unfolding hysteresis_def by (auto simp: history_ok_def)
qed

lemma history_snoc:
  assumes "history_ok es st n" and "n < RESUME_SAMPLES" and "st = FlowNormal \<Longrightarrow> n = 0"
    and e: "fe_before e = st" and t: "flow_transition st n (fe_desired e) (fe_healthy e) = (fe_after e, n')"
  shows "history_ok (es @ [e]) (fe_after e) n'"
proof -
  obtain hs where hs: "stretch hs st n es" using assms(1) by (auto simp: history_ok_def)
  have "\<exists>hs. stretch hs (fe_after e) n' (es @ [e])"
  proof (cases "st = FlowNormal")
    case True
    with t assms(3) have "n' = 0" by (simp add: flow_transition_def)
    then have "stretch [] (fe_after e) n' (es @ [e])" by (simp add: stretch_def)
    then show ?thesis by blast
  next
    case False
    then show ?thesis using stretch_snoc [OF hs False e assms(2) t] by simp
  qed
  moreover have "fe_after e = FlowNormal \<or> length (takeWhile eval_calm (rev (es @ [e]))) \<le> n'"
  proof (cases "eval_calm e \<and> st \<noteq> FlowNormal \<and> fe_after e \<noteq> FlowNormal")
    case True
    with assms(1) t have "length (takeWhile eval_calm (rev es)) \<le> n" "n' = n + 1"
      using assms(2) by (cases st; auto simp: history_ok_def flow_transition_def eval_calm_def Let_def
          RESUME_SAMPLES_def split: if_splits)+
    with True show ?thesis by simp
  next
    case False
    with t show ?thesis by (auto simp: flow_transition_def eval_calm_def)
  qed
  moreover have "hysteresis pre x" if "es @ [e] = pre @ x # post" for pre x post
    using that assms(1) hysteresis_next [OF assms]
    by (cases post rule: rev_cases) (auto simp: history_ok_def)
  ultimately show ?thesis by (simp add: history_ok_def)
qed

text \<open>The signals kept are the last 64 of those the evaluations have recorded.\<close>

definition evals_ok :: "'f flow_system \<Rightarrow> bool" where
  "evals_ok y \<longleftrightarrow>
     (let s = fy_flow y; sigs = concat (map eval_signal (fy_evals y)) in
      machine_ok s \<and> history_ok (fy_evals y) (fl_state s) (fl_healthy_samples s) \<and>
      fl_signals s = (if rc_upstream_can_pause (rp_contract (fl_profile s))
                      then drop (length sigs - SIGNAL_HISTORY_LIMIT) sigs else []))"

lemma evaluate_fields:
  "flow_transition (fl_state s) (fl_healthy_samples s) (desired_state F s (predict F s))
     (flow_healthy F s (predict F s)) = (fl_state (fst (evaluate F s)), fl_healthy_samples (fst (evaluate F s)))"
  by (simp add: evaluate_def Let_def split: prod.splits)

lemma last_n_snoc:
  assumes "xs = drop (length ys - k) ys" and "0 < k"
  shows "(if length xs = k then tl xs else xs) @ [x] = drop (length (ys @ [x]) - k) (ys @ [x])"
  using assms by (auto simp: Suc_diff_le not_less tl_drop drop_Suc not_le)

lemma eval_signal_cases: "eval_signal e = [] \<or> (\<exists>x. eval_signal e = [x])"
  by (simp add: eval_signal_def)

lemma evaluate_signals:
  "fl_signals (fst (evaluate F s)) =
    (if rc_upstream_can_pause (rp_contract (fl_profile s)) \<and> eval_signal (evaluation F s (fst (evaluate F s))) \<noteq> []
     then (if length (fl_signals s) = SIGNAL_HISTORY_LIMIT then tl (fl_signals s) else fl_signals s) @
       eval_signal (evaluation F s (fst (evaluate F s)))
     else fl_signals s)"
  by (auto simp: evaluate_def evaluation_def eval_signal_def record_signal_def Let_def split: prod.splits)

lemma evals_ok_step:
  assumes "evals_ok y"
  shows "evals_ok (flow_step F a y)"
proof -
  have ok: "machine_ok (fy_flow (flow_step F a y))"
    using assms by (intro flow_machine.keep_step) (simp add: evals_ok_def Let_def)
  consider (eval) c where "machine c = machine (fy_flow y)" "fy_flow (flow_step F a y) = fst (evaluate F c)"
      "fy_evals (flow_step F a y) = fy_evals y @ [evaluation F (fy_flow y) (fst (evaluate F c))]"
    | (same) "machine (fy_flow (flow_step F a y)) = machine (fy_flow y)" "fy_evals (flow_step F a y) = fy_evals y"
    using flow_step_evaluates [where y = y and F = F and a = a] by blast
  then show ?thesis
  proof cases
    case same
    with assms show ?thesis by (auto simp: evals_ok_def Let_def machine_def machine_ok_def)
  next
    case eval
    let ?e = "evaluation F c (fst (evaluate F c))"
    from eval(1) have e: "evaluation F (fy_flow y) (fst (evaluate F c)) = ?e"
      and c: "fl_state c = fl_state (fy_flow y)" "fl_healthy_samples c = fl_healthy_samples (fy_flow y)"
        "fl_signals c = fl_signals (fy_flow y)" "fl_profile c = fl_profile (fy_flow y)"
      by (simp_all add: machine_def evaluation_def)
    have "history_ok (fy_evals y @ [?e]) (fe_after ?e) (fl_healthy_samples (fst (evaluate F c)))"
    proof (rule history_snoc)
      show "history_ok (fy_evals y) (fl_state c) (fl_healthy_samples c)"
        and "fl_healthy_samples c < RESUME_SAMPLES" and "fl_state c = FlowNormal \<Longrightarrow> fl_healthy_samples c = 0"
        using assms by (simp_all add: c evals_ok_def machine_ok_def Let_def)
    qed (simp_all add: evaluation_def evaluate_fields)
    moreover have "fl_signals (fst (evaluate F c)) =
        (let sigs = concat (map eval_signal (fy_evals y @ [?e])) in
         if rc_upstream_can_pause (rp_contract (fl_profile c))
         then drop (length sigs - SIGNAL_HISTORY_LIMIT) sigs else [])"
    proof -
      let ?sigs = "concat (map eval_signal (fy_evals y))"
      have old: "fl_signals c = (if rc_upstream_can_pause (rp_contract (fl_profile c))
                      then drop (length ?sigs - SIGNAL_HISTORY_LIMIT) ?sigs else [])"
        using assms by (simp add: c evals_ok_def Let_def)
      consider "eval_signal ?e = []" | x where "eval_signal ?e = [x]"
        using eval_signal_cases [of ?e] by blast
      then show ?thesis
      proof cases
        case 1
        with old show ?thesis by (simp add: evaluate_signals Let_def)
      next
        case 2
        with old last_n_snoc [of "fl_signals c" ?sigs SIGNAL_HISTORY_LIMIT x] show ?thesis
          by (simp add: evaluate_signals Let_def SIGNAL_HISTORY_LIMIT_def)
      qed
    qed
    ultimately show ?thesis
      using ok c by (simp add: evals_ok_def eval(2,3) e evaluation_def Let_def)
  qed
qed

interpretation flow_evals: guarded_system "flow_step F" evals_ok
  by unfold_locales (rule evals_ok_step)

section \<open>Invariants of the accounts\<close>

definition totals :: "measurement list \<Rightarrow> nat \<times> nat \<times> nat" where
  "totals ms = (length ms, sum_list (map me_bytes ms), sum_list (map me_media_duration ms))"

definition triple_add :: "nat \<times> nat \<times> nat \<Rightarrow> nat \<times> nat \<times> nat \<Rightarrow> nat \<times> nat \<times> nat" where
  "triple_add s t = (case (s, t) of ((a, b, c), (x, y, z)) \<Rightarrow> (a + x, b + y, c + z))"

text \<open>
  Every enqueued frame is queued, in flight, completed or dropped; what is in flight is
  exactly the work handed out and not yet returned, under distinct admission ids.
\<close>

definition accounts_ok :: "'f flow_system \<Rightarrow> bool" where
  "accounts_ok y \<longleftrightarrow>
     (let a = accounts_of (fy_flow y); ws = fy_works y in
      totals (fy_in y) = triple_add (ac_queued a)
        (triple_add (ac_in_flight a) (triple_add (totals (fy_done y)) (ac_dropped a))) \<and>
      ac_in_flight a = totals (map fw_measurement ws) \<and> ac_dropped a = totals (fy_drop y) \<and>
      ac_input_media a = snd (snd (totals (fy_in y))) \<and>
      ac_completed_media a = snd (snd (totals (fy_done y))) \<and>
      distinct (map fw_admission_id ws) \<and> set (ac_active a) = set (map fw_admission_id ws) \<and>
      list_all (\<lambda>w. fw_controller w = fl_identity (fy_flow y) \<and> fw_admission_id w < ac_next a) ws)"

definition flow_inv :: "'f flow_system \<Rightarrow> bool" where
  "flow_inv y \<longleftrightarrow> fy_failed y \<or> accounts_ok y"

lemma accounts_ok_evals [simp]: "accounts_ok (y\<lparr>fy_evals := es\<rparr>) = accounts_ok y"
  by (simp add: accounts_ok_def)

lemma totals_snoc: "totals (ms @ [m]) = plus_frame (totals ms) m"
  by (simp add: totals_def plus_frame_def)

lemma totals_remove:
  assumes "n < length ms"
  shows "totals ms = plus_frame (totals (take n ms @ drop (Suc n) ms)) (ms ! n)"
    and "has_frame (totals ms) (ms ! n)"
    and "minus_frame (totals ms) (ms ! n) = totals (take n ms @ drop (Suc n) ms)"
proof -
  have "ms = take n ms @ ms ! n # drop (Suc n) ms" by (rule id_take_nth_drop [OF assms])
  then have len: "length ms = Suc (length (take n ms @ drop (Suc n) ms))"
    and sums: "sum_list (map f ms) = f (ms ! n) + sum_list (map f (take n ms @ drop (Suc n) ms))" for f :: "measurement \<Rightarrow> nat"
    by (metis add_Suc_right length_append list.size(4) add.right_neutral)
       (metis (no_types, lifting) \<open>ms = _\<close> add.left_commute list.simps(9) map_append sum_list.Cons sum_list_append)
  then show "totals ms = plus_frame (totals (take n ms @ drop (Suc n) ms)) (ms ! n)"
    unfolding totals_def plus_frame_def by (simp only: prod.case sums) simp
  then show "has_frame (totals ms) (ms ! n)"
    and "minus_frame (totals ms) (ms ! n) = totals (take n ms @ drop (Suc n) ms)"
    by (simp_all add: has_frame_def minus_frame_def plus_frame_def split: prod.splits)
qed

lemma plus_frame_media [simp]: "snd (snd (plus_frame t m)) = snd (snd t) + me_media_duration m"
  by (simp add: plus_frame_def split: prod.splits)

lemma triple_moves:
  "triple_add (plus_frame s m) t = plus_frame (triple_add s t) m"
  "has_frame s m \<Longrightarrow> triple_add (minus_frame s m) (triple_add (plus_frame t m) u) = triple_add s (triple_add t u)"
  "has_frame s m \<Longrightarrow> triple_add (minus_frame s m) (triple_add t (triple_add u (plus_frame v m))) =
     triple_add s (triple_add t (triple_add u v))"
  "has_frame s m \<Longrightarrow> triple_add q (triple_add (minus_frame s m) (triple_add (plus_frame t m) u)) =
     triple_add q (triple_add s (triple_add t u))"
  by (auto simp: triple_add_def plus_frame_def minus_frame_def has_frame_def split: prod.splits)

lemma flow_step_identity: "fl_identity (fy_flow (flow_step F a y)) = fl_identity (fy_flow y)"
  using flow_identity.keep_step [of y "fl_identity (fy_flow y)" "fl_profile (fy_flow y)" F a] by simp

lemma accounts_fields:
  "ac_next (accounts_of s) = fl_next_admission_id s" "ac_active (accounts_of s) = fl_active_admissions s"
  "ac_input_media (accounts_of s) = fl_input_media_total s"
  "ac_completed_media (accounts_of s) = fl_completed_media_total s"
  by (simp_all add: accounts_of_def)

lemma flow_inv_enqueue:
  assumes "accounts_ok y"
  shows "flow_inv (flow_step F (FEnqueue m now) y)"
proof -
  obtain s r where run: "record_enqueue F m now (fy_flow y) = (s, r)" by (rule prod.exhaust)
  have acc: "case r of Inl e \<Rightarrow> fatal e | Inr _ \<Rightarrow> accounts_of s =
       (accounts_of (fy_flow y))\<lparr>ac_queued := plus_frame (ac_queued (accounts_of (fy_flow y))) m,
         ac_input_media := fl_input_media_total (fy_flow y) + me_media_duration m\<rparr>"
    using record_enqueue_accounts [where F = F and m = m and now = now and s = "fy_flow y"] run by simp
  have id: "fl_identity s = fl_identity (fy_flow y)"
    using flow_step_identity [of F "FEnqueue m now" y] run by (cases r) simp_all
  show ?thesis
  proof (cases r)
    case (Inl e)
    with run acc show ?thesis by (simp add: flow_inv_def)
  next
    case (Inr u)
    with acc have "accounts_of s =
       (accounts_of (fy_flow y))\<lparr>ac_queued := plus_frame (ac_queued (accounts_of (fy_flow y))) m,
         ac_input_media := fl_input_media_total (fy_flow y) + me_media_duration m\<rparr>" by simp
    then have "accounts_ok (y\<lparr>fy_flow := s, fy_in := fy_in y @ [m]\<rparr>)"
      using assms id unfolding accounts_ok_def Let_def
      by (simp add: totals_snoc triple_moves(1) accounts_fields)
    with run Inr show ?thesis by (simp add: flow_inv_def)
  qed
qed

lemma flow_inv_admit:
  assumes "accounts_ok y"
  shows "flow_inv (flow_step F (FAdmit m now) y)"
proof -
  obtain s r where run: "record_admission F m now (fy_flow y) = (s, r)" by (rule prod.exhaust)
  note acc = record_admission_accounts [where F = F and m = m and now = now and s = "fy_flow y", unfolded run prod.case]
  have id: "fl_identity s = fl_identity (fy_flow y)"
    using flow_step_identity [of F "FAdmit m now" y] run by (cases r) (auto split: prod.splits)
  show ?thesis
  proof (cases r)
    case (Inl e)
    with run acc assms show ?thesis by (auto simp: flow_inv_def accounts_ok_def)
  next
    case (Inr wu)
    obtain w u where wu: "wu = (w, u)" by (rule prod.exhaust)
    with acc Inr have fit: "has_frame (ac_queued (accounts_of (fy_flow y))) m"
      and w: "w = \<lparr>fw_controller = fl_identity (fy_flow y), fw_admission_id = fl_next_admission_id (fy_flow y),
               fw_measurement = m, fw_started_at = now\<rparr>"
      and s: "accounts_of s = (accounts_of (fy_flow y))\<lparr>ac_next := fl_next_admission_id (fy_flow y) + 1,
           ac_active := bs_insert (fl_next_admission_id (fy_flow y)) (fl_active_admissions (fy_flow y)),
           ac_queued := minus_frame (ac_queued (accounts_of (fy_flow y))) m,
           ac_in_flight := plus_frame (ac_in_flight (accounts_of (fy_flow y))) m\<rparr>"
      by simp_all
    have step: "flow_step F (FAdmit m now) y =
        y\<lparr>fy_flow := s, fy_works := fy_works y @ [w], fy_evals := fy_evals y @ [evaluation F (fy_flow y) s]\<rparr>"
      using run Inr wu by simp
    have "accounts_ok (y\<lparr>fy_flow := s, fy_works := fy_works y @ [w]\<rparr>)"
      using assms id unfolding accounts_ok_def Let_def
      by (simp add: s w totals_snoc triple_moves(2) [OF fit] accounts_fields) (fastforce simp: list_all_iff)
    with step show ?thesis by (simp add: flow_inv_def)
  qed
qed

lemma flow_inv_drop:
  assumes "accounts_ok y"
  shows "flow_inv (flow_step F (FDrop m reason) y)"
proof -
  obtain s r where run: "record_drop F m reason (fy_flow y) = (s, r)" by (rule prod.exhaust)
  note acc = record_drop_accounts [where F = F and m = m and reason = reason and s = "fy_flow y", unfolded run prod.case]
  have id: "fl_identity s = fl_identity (fy_flow y)"
    using flow_step_identity [of F "FDrop m reason" y] run by (cases r) simp_all
  show ?thesis
  proof (cases r)
    case (Inl e)
    with run acc assms show ?thesis by (auto simp: flow_inv_def accounts_ok_def)
  next
    case (Inr u)
    with acc have fit: "has_frame (ac_queued (accounts_of (fy_flow y))) m"
      and s: "accounts_of s = (accounts_of (fy_flow y))\<lparr>
         ac_queued := minus_frame (ac_queued (accounts_of (fy_flow y))) m,
         ac_dropped := plus_frame (ac_dropped (accounts_of (fy_flow y))) m\<rparr>"
      by simp_all
    have "accounts_ok (y\<lparr>fy_flow := s, fy_drop := fy_drop y @ [m]\<rparr>)"
      using assms id unfolding accounts_ok_def Let_def
      by (simp add: s totals_snoc triple_moves(3) [OF fit] accounts_fields)
    with run Inr show ?thesis by (simp add: flow_inv_def)
  qed
qed

lemma flow_inv_complete:
  assumes "accounts_ok y" and n: "n < length (fy_works y)"
  shows "flow_inv (flow_step F (FComplete n now) y) \<and>
    (\<forall>s. record_completion F (fy_works y ! n) now (fy_flow y) \<noteq> (s, Inl CompletionWithoutAdmission))"
proof -
  let ?w = "fy_works y ! n" and ?ws = "take n (fy_works y) @ drop (Suc n) (fy_works y)"
  let ?a = "accounts_of (fy_flow y)"
  obtain s r where run: "record_completion F ?w now (fy_flow y) = (s, r)" by (rule prod.exhaust)
  note acc = record_completion_accounts [where F = F and w = ?w and now = now and s = "fy_flow y", unfolded run prod.case]
  have split: "fy_works y = take n (fy_works y) @ ?w # drop (Suc n) (fy_works y)" by (rule id_take_nth_drop [OF n])
  have w: "?w \<in> set (fy_works y)" using n by simp
  have tot: "ac_in_flight ?a = totals (map fw_measurement (fy_works y))" using assms(1) by (simp add: accounts_ok_def Let_def)
  have ms: "map fw_measurement ?ws = take n (map fw_measurement (fy_works y)) @ drop (Suc n) (map fw_measurement (fy_works y))"
    by (simp add: take_map drop_map)
  have fit: "has_frame (ac_in_flight ?a) (fw_measurement ?w)"
    and minus: "minus_frame (ac_in_flight ?a) (fw_measurement ?w) = totals (map fw_measurement ?ws)"
    using totals_remove(2,3) [of n "map fw_measurement (fy_works y)"] n unfolding tot ms by simp_all
  have "fl_identity (fy_flow y) = fw_controller ?w \<and> fw_admission_id ?w \<in> set (fl_active_admissions (fy_flow y))"
    using assms(1) w by (auto simp: accounts_ok_def Let_def accounts_fields list_all_iff)
  with acc fit have ok: "r \<noteq> Inl CompletionWithoutAdmission" by (cases r) (auto simp: fatal_def)
  have id: "fl_identity s = fl_identity (fy_flow y)"
    using flow_step_identity [of F "FComplete n now" y] run n by (cases r) (simp_all add: Let_def)
  have "flow_inv (flow_step F (FComplete n now) y)"
  proof (cases r)
    case (Inl e)
    with run acc ok n show ?thesis by (auto simp: flow_inv_def Let_def)
  next
    case (Inr u)
    with acc have s: "accounts_of s = ?a\<lparr>
         ac_active := filter (\<lambda>i. i \<noteq> fw_admission_id ?w) (fl_active_admissions (fy_flow y)),
         ac_in_flight := minus_frame (ac_in_flight ?a) (fw_measurement ?w),
         ac_completed_media := fl_completed_media_total (fy_flow y) + me_media_duration (fw_measurement ?w)\<rparr>"
      by simp
    have dis: "distinct (map fw_admission_id (take n (fy_works y) @ ?w # drop (Suc n) (fy_works y)))"
      using assms(1) split by (simp add: accounts_ok_def Let_def)
    have ids: "set (map fw_admission_id (fy_works y)) = insert (fw_admission_id ?w) (set (map fw_admission_id ?ws))"
      by (subst split) auto
    have "accounts_ok (y\<lparr>fy_works := ?ws, fy_flow := s, fy_done := fy_done y @ [fw_measurement ?w]\<rparr>)"
      unfolding accounts_ok_def Let_def
    proof (intro conjI)
      let ?y = "y\<lparr>fy_works := ?ws, fy_flow := s, fy_done := fy_done y @ [fw_measurement ?w]\<rparr>"
      show "totals (fy_in ?y) = triple_add (ac_queued (accounts_of (fy_flow ?y)))
          (triple_add (ac_in_flight (accounts_of (fy_flow ?y)))
            (triple_add (totals (fy_done ?y)) (ac_dropped (accounts_of (fy_flow ?y)))))"
        using assms(1) by (simp add: s totals_snoc triple_moves(4) [OF fit [unfolded tot]] accounts_ok_def Let_def)
      show "ac_in_flight (accounts_of (fy_flow ?y)) = totals (map fw_measurement (fy_works ?y))"
        using minus by (simp add: s)
      show "set (ac_active (accounts_of (fy_flow ?y))) = set (map fw_admission_id (fy_works ?y))"
      proof -
        have "set (fl_active_admissions (fy_flow y)) = insert (fw_admission_id ?w) (set (map fw_admission_id ?ws))"
          using assms(1) ids by (simp add: accounts_ok_def Let_def accounts_fields)
        moreover have "fw_admission_id ?w \<notin> set (map fw_admission_id ?ws)" using dis by auto
        ultimately show ?thesis by (simp add: s) blast
      qed
      show "list_all (\<lambda>w. fw_controller w = fl_identity (fy_flow ?y) \<and>
          fw_admission_id w < ac_next (accounts_of (fy_flow ?y))) (fy_works ?y)"
        using assms(1) id
        by (auto simp: s accounts_ok_def Let_def list_all_iff dest: in_set_takeD in_set_dropD)
    qed (use assms(1) dis in \<open>auto simp: s totals_snoc accounts_ok_def Let_def accounts_fields\<close>)
    with run Inr n show ?thesis by (simp add: flow_inv_def Let_def)
  qed
  with run ok show ?thesis by auto
qed

lemma flow_step_failed: "fy_failed y \<Longrightarrow> fy_failed (flow_step F a y)"
  by (cases a) (auto simp: Let_def split: prod.splits sum.splits)

interpretation flow_sys: guarded_system "flow_step F" flow_inv
proof unfold_locales
  fix y :: "'a flow_system" and a
  assume "flow_inv y"
  then consider "fy_failed y" | "accounts_ok y" by (auto simp: flow_inv_def)
  then show "flow_inv (flow_step F a y)"
  proof cases
    case 1
    then show ?thesis using flow_step_failed by (auto simp: flow_inv_def)
  next
    case ok: 2
    show ?thesis
    proof (cases a)
      case (FComplete n now)
      with ok show ?thesis
        using flow_inv_complete [OF ok, of n F now] by (cases "n < length (fy_works y)") (auto simp: flow_inv_def)
    next
      case (FSample now)
      have "machine (s\<lparr>fl_input_rate := r\<rparr>) = machine s" "accounts_of (s\<lparr>fl_input_rate := r\<rparr>) = accounts_of s"
        for s :: "'a flow_controller" and r by (simp_all add: machine_def accounts_of_def)
      then have "accounts_of (fst (flow_sample F now s)) = accounts_of s"
        "fl_identity (fst (flow_sample F now s)) = fl_identity s" for s
        by (simp_all add: flow_sample_def Let_def)
      with ok FSample show ?thesis by (simp add: flow_inv_def accounts_ok_def Let_def)
    qed (use ok in \<open>simp_all only: flow_inv_enqueue flow_inv_admit flow_inv_drop\<close>)
  qed
qed

definition flow_system_new :: "'f flow_controller \<Rightarrow> 'f flow_system" where
  "flow_system_new s = \<lparr>fy_flow = s, fy_works = [], fy_failed = False, fy_in = [], fy_done = [], fy_drop = [],
     fy_evals = []\<rparr>"

lemma flow_new_ok:
  assumes "flow_controller_new F key p i = Some (Inr s)"
  shows "flow_inv (flow_system_new s)" "machine_ok s" "profile_validate p = Some (Inr ())"
    "fl_identity s = i \<and> fl_profile s = p"
  using assms
  by (auto simp: flow_controller_new_def flow_system_new_def flow_inv_def accounts_ok_def accounts_of_def
      totals_def triple_add_def machine_ok_def RESUME_SAMPLES_def split: option.splits sum.splits)

section \<open>Properties\<close>

text \<open>
  C30. The flow controller accounts for every frame: as long as no call reports an overflow or
  a clock that went backwards, the enqueued frames, bytes and media time are exactly those
  queued, in flight, completed and dropped; what is in flight is exactly the work handed out
  and not yet returned; and completing such a work is never rejected.
\<close>

theorem flow_accounting:
  assumes "flow_controller_new F key p i = Some (Inr s)"
    and y: "y = fold (flow_step F) ops (flow_system_new s)" and "\<not> fy_failed y"
  shows "totals (fy_in y) =
       triple_add (fl_queued_frames (fy_flow y), fl_queued_bytes (fy_flow y), fl_queued_media (fy_flow y))
         (triple_add (totals (map fw_measurement (fy_works y)))
           (triple_add (totals (fy_done y)) (totals (fy_drop y)))) \<and>
     fl_in_flight (fy_flow y) = length (fy_works y) \<and>
     fl_dropped_frames (fy_flow y) = length (fy_drop y) \<and>
     set (fl_active_admissions (fy_flow y)) = set (map fw_admission_id (fy_works y)) \<and>
     (\<forall>n < length (fy_works y). \<forall>t.
        record_completion F (fy_works y ! n) now (fy_flow y) \<noteq> (t, Inl CompletionWithoutAdmission))"
proof -
  have "flow_inv y" unfolding y by (rule flow_sys.run_inv [OF flow_new_ok(1) [OF assms(1)]])
  with assms(3) have ok: "accounts_ok y" by (simp add: flow_inv_def)
  then have "ac_in_flight (accounts_of (fy_flow y)) = totals (map fw_measurement (fy_works y))"
    "ac_dropped (accounts_of (fy_flow y)) = totals (fy_drop y)"
    by (simp_all add: accounts_ok_def Let_def)
  then have "fl_in_flight (fy_flow y) = length (fy_works y)" "fl_dropped_frames (fy_flow y) = length (fy_drop y)"
    by (simp_all add: accounts_of_def totals_def)
  with ok flow_inv_complete [OF ok, of _ F now] show ?thesis
    by (auto simp: accounts_ok_def accounts_of_def Let_def)
qed

text \<open>
  C31. Every successful call ends with one evaluation of the counters and rates it has just
  updated. Whatever is observed, failed calls included, each of these evaluations follows
  \<open>hysteresis\<close>: the controller enters pressure at once when the measurements ask for it,
  turns from pressure to critical exactly when they ask for that, never steps from critical
  back to pressure, and returns to normal only on a calm evaluation (the measurements ask for
  normal and are healthy) that ends an unbroken stretch of three calm ones, with at most one
  escalation to critical between them; three calm evaluations in a row always return to
  normal. The signals kept are the last 64 of those the evaluations recorded, so they
  alternate and the last one says whether the controller is in its normal state; an input
  whose upstream cannot pause gets none.
\<close>

theorem flow_hysteresis:
  assumes "flow_controller_new F key p i = Some (Inr s)"
    and y: "y = fold (flow_step F) ops (flow_system_new s)" and c: "c = fy_flow y"
  shows "(\<forall>pre e post. fy_evals y = pre @ e # post \<longrightarrow> hysteresis pre e) \<and>
     fl_state c = (if fy_evals y = [] then FlowNormal else fe_after (last (fy_evals y))) \<and>
     (let sigs = concat (map eval_signal (fy_evals y)) in
      fl_signals c = (if rc_upstream_can_pause (rp_contract p) then drop (length sigs - 64) sigs else [])) \<and>
     length (fl_signals c) \<le> 64 \<and> successively (\<noteq>) (fl_signals c) \<and>
     (fl_signals c = [] \<or> (last (fl_signals c) = SignalPressure \<longleftrightarrow> fl_state c \<noteq> FlowNormal)) \<and>
     (let t = fst (evaluate F c) in
      (fl_state c = FlowCritical \<longrightarrow> fl_state t \<noteq> FlowPressure) \<and>
      (fl_state c \<noteq> FlowNormal \<and> fl_state t = FlowNormal \<longrightarrow>
         fl_healthy_samples c = 2 \<and> desired_state F c (predict F c) = FlowNormal \<and>
         flow_healthy F c (predict F c)))"
proof -
  note new = flow_new_ok [OF assms(1)]
  have "evals_ok (flow_system_new s)"
    using assms(1) new(2)
    by (auto simp: evals_ok_def flow_system_new_def history_ok_def stretch_def flow_controller_new_def
        split: option.splits sum.splits)
  then have ev: "evals_ok y" unfolding y by (rule flow_evals.run_inv)
  then have ok: "machine_ok c" by (simp add: evals_ok_def c Let_def)
  have prof: "fl_profile c = p" unfolding c y
    using flow_identity.keep_run [of "flow_system_new s" i p F ops] new(4) by (simp add: flow_system_new_def)
  from flow_transition_cases [OF evaluate_fields [of c F]] ok
  have "(fl_state c = FlowCritical \<longrightarrow> fl_state (fst (evaluate F c)) \<noteq> FlowPressure) \<and>
    (fl_state c \<noteq> FlowNormal \<longrightarrow> (fl_state (fst (evaluate F c)) = FlowNormal \<longleftrightarrow>
       desired_state F c (predict F c) = FlowNormal \<and> flow_healthy F c (predict F c) \<and> fl_healthy_samples c = 2))"
    by (simp add: machine_ok_def)
  with ok ev prof show ?thesis
    by (auto simp: evals_ok_def history_ok_def machine_ok_def SIGNAL_HISTORY_LIMIT_def Let_def c split: if_splits)
qed

text \<open>
  The count of healthy evaluations survives an escalation: a controller under pressure
  with two healthy evaluations counted that then turns critical is back to normal after a
  single further healthy evaluation, so the last three evaluations before it resumes need not
  have been healthy.
\<close>

lemma flow_early_resume:
  assumes "fl_state c = FlowPressure" and "fl_healthy_samples c = 2"
    and "desired_state F c (predict F c) = FlowCritical"
    and t: "machine t = machine (fst (evaluate F c))"
    and "desired_state F t (predict F t) = FlowNormal" and "flow_healthy F t (predict F t)"
  shows "fl_state (fst (evaluate F c)) = FlowCritical \<and> fl_state (fst (evaluate F t)) = FlowNormal"
proof -
  have "fl_state (fst (evaluate F c)) = FlowCritical" "fl_healthy_samples (fst (evaluate F c)) = 2"
    using assms(1-3) by (simp_all add: evaluate_def flow_transition_def Let_def)
  moreover from this t have "fl_state t = FlowCritical" "fl_healthy_samples t = 2"
    by (simp_all add: machine_def)
  ultimately show ?thesis
    using assms(5,6) by (simp add: evaluate_def flow_transition_def RESUME_SAMPLES_def Let_def)
qed

text \<open>
  On an input with lossless delivery nothing is ever counted as dropped: the counters of drops
  are written by \<open>record_drop\<close> alone, and it refuses.
\<close>

definition lossless_ok :: "realtime_input_profile \<Rightarrow> 'f flow_system \<Rightarrow> bool" where
  "lossless_ok p y \<longleftrightarrow>
     fl_profile (fy_flow y) = p \<and> ac_dropped (accounts_of (fy_flow y)) = (0, 0, 0) \<and> fy_drop y = []"

lemma dropped_unchanged:
  "ac_dropped (accounts_of (fst (record_enqueue F m now s))) = ac_dropped (accounts_of s)"
  "ac_dropped (accounts_of (fst (record_admission F m now s))) = ac_dropped (accounts_of s)"
  "ac_dropped (accounts_of (fst (record_completion F w now s))) = ac_dropped (accounts_of s)"
  "ac_dropped (accounts_of (fst (flow_sample F now s))) = ac_dropped (accounts_of s)"
  unfolding record_enqueue_def observe_input_def record_admission_def record_completion_def flow_sample_def call_defs
  by (simp_all add: accounts_of_def split: option.splits)

lemma lossless_step:
  assumes "rc_delivery_guarantee (rp_contract p) = Lossless" and "lossless_ok p y"
  shows "lossless_ok p (flow_step F a y)"
proof -
  have "fl_profile (fy_flow (flow_step F a y)) = p"
    using flow_identity.keep_step [of y "fl_identity (fy_flow y)" p F a] assms(2) by (simp add: lossless_ok_def)
  moreover have "ac_dropped (accounts_of (fy_flow (flow_step F a y))) = (0, 0, 0) \<and> fy_drop (flow_step F a y) = []"
  proof (cases a)
    case (FEnqueue m now)
    with assms(2) dropped_unchanged(1) [of F m now "fy_flow y"] show ?thesis
      by (auto simp: lossless_ok_def split: prod.splits sum.splits)
  next
    case (FAdmit m now)
    with assms(2) dropped_unchanged(2) [of F m now "fy_flow y"] show ?thesis
      by (auto simp: lossless_ok_def split: prod.splits sum.splits)
  next
    case (FComplete n now)
    with assms(2) dropped_unchanged(3) [of F "fy_works y ! n" now "fy_flow y"] show ?thesis
      by (auto simp: lossless_ok_def Let_def split: prod.splits sum.splits)
  next
    case (FSample now)
    with assms(2) show ?thesis by (simp add: lossless_ok_def dropped_unchanged(4) Let_def)
  qed (use assms in \<open>simp add: lossless_ok_def record_drop_def\<close>)
  ultimately show ?thesis by (simp add: lossless_ok_def)
qed

lemma lossless_run:
  "rc_delivery_guarantee (rp_contract p) = Lossless \<Longrightarrow> lossless_ok p y \<Longrightarrow>
     lossless_ok p (fold (flow_step F) ops y)"
  by (induction ops arbitrary: y) (simp_all add: lossless_step)

text \<open>
  C32. The contract of drops. A controller decides to drop only where the profile allows it:
  best-effort delivery, relaxed ordering and an overflow policy that drops; it drops silence
  only on a trusted observation of silence, at an input that permits audio and declares that
  silence may be dropped. On a lossless input every \<open>record_drop\<close> is refused and changes
  nothing, and after any sequence of calls no frame, byte or media time is counted as
  dropped. Recording a drop is accepted only for a frame that fits in what is queued, of a
  best-effort input; \<open>record_drop\<close> looks at neither the ordering nor the overflow policy.
\<close>

theorem flow_drop_contract:
  assumes "flow_controller_new F key p i = Some (Inr s)"
    and y: "y = fold (flow_step F) ops (flow_system_new s)" and c: "c = fy_flow y"
  shows "(decide_overflow c vad \<in> {DecideDropOldest, DecideDropNewest, DecideDropTrustedSilence} \<longrightarrow>
       overflow_may_drop p \<and> rc_ordering (rp_contract p) = RelaxedOrder) \<and>
     (decide_overflow c vad = DecideDropTrustedSilence \<longrightarrow>
       vad = Some VadSilence \<and> rc_permits_audio (rp_contract p) \<and>
       rc_permits_trusted_vad_silence_drop (rp_contract p)) \<and>
     (rc_delivery_guarantee (rp_contract p) = Lossless \<longrightarrow>
       record_drop F m reason c = (c, Inl LosslessDropForbidden) \<and>
       fl_dropped_frames c = 0 \<and> fl_dropped_bytes c = 0 \<and> fl_dropped_media c = 0 \<and> fy_drop y = []) \<and>
     (\<forall>t u. record_drop F m reason c = (t, Inr u) \<longrightarrow>
       rc_delivery_guarantee (rp_contract p) = BestEffort \<and> \<not> not_queued m c \<and>
       fl_dropped_frames t = fl_dropped_frames c + 1)"
proof -
  note new = flow_new_ok [OF assms(1)]
  have prof: "fl_profile c = p" unfolding c y
    using flow_identity.keep_run [of "flow_system_new s" i p F ops] new(4) by (simp add: flow_system_new_def)
  have "lossless_ok p (flow_system_new s)"
    using assms(1) by (auto simp: lossless_ok_def flow_system_new_def accounts_of_def flow_controller_new_def
        split: option.splits sum.splits)
  from lossless_run [OF _ this]
  have lossless: "rc_delivery_guarantee (rp_contract p) = Lossless \<Longrightarrow>
      fl_dropped_frames c = 0 \<and> fl_dropped_bytes c = 0 \<and> fl_dropped_media c = 0 \<and> fy_drop y = []"
    by (auto simp: y c lossless_ok_def accounts_of_def)
  have accepted: "rc_delivery_guarantee (rp_contract p) = BestEffort \<and> \<not> not_queued m c \<and>
      fl_dropped_frames t = fl_dropped_frames c + 1" if "record_drop F m reason c = (t, Inr u)" for t u
    using that record_drop_accounts [where F = F and m = m and reason = reason and s = c]
    by (auto simp: prof account_defs not_queued_def)
  have "check_policy (rp_contract p) (rp_tuning p) = Inr ()"
    using new(3) by (auto simp: profile_validate_def Let_def split: if_splits sum.splits option.splits)
  then have "(decide_overflow c vad \<in> {DecideDropOldest, DecideDropNewest, DecideDropTrustedSilence} \<longrightarrow>
       overflow_may_drop p \<and> rc_ordering (rp_contract p) = RelaxedOrder) \<and>
     (decide_overflow c vad = DecideDropTrustedSilence \<longrightarrow>
       vad = Some VadSilence \<and> rc_permits_audio (rp_contract p) \<and>
       rc_permits_trusted_vad_silence_drop (rp_contract p))"
    unfolding check_policy_Inr
    by (cases "rt_overflow_policy (rp_tuning p)") (auto simp: decide_overflow_def overflow_may_drop_def prof)
  moreover have "rc_delivery_guarantee (rp_contract p) = Lossless \<longrightarrow>
      record_drop F m reason c = (c, Inl LosslessDropForbidden)" by (simp add: record_drop_def prof)
  ultimately show ?thesis using lossless accepted by blast
qed

section \<open>Witnesses\<close>

text \<open>The operations on exact rational numbers, one instance of the arithmetic.\<close>

definition example_f64 :: "rat f64_ops" where
  "example_f64 =
     \<lparr>f_zero = 0, f_quarter = 1 / 4, f_half = 1 / 2, f_three_quarters = 3 / 4, f_one = 1, f_epsilon = 1 / 1000000,
      f_add = (+), f_sub = (-), f_mul = (*), f_div = (/), f_max = max, f_min = min, f_eq = (=), f_lt = (<),
      f_le = (\<le>), f_is_finite = (\<lambda>_. True), f_of_usize = of_nat, f_as_secs = (\<lambda>d. of_nat d / 1000000000),
      f_from_secs = (\<lambda>x. nat \<lfloor>x * 1000000000\<rfloor>)\<rparr>"

definition example_flow :: "rat flow_controller" where
  "example_flow =
     (case flow_controller_new example_f64 \<lparr>ik_node_id = ''n'', ik_port = ''in''\<rparr> realtime_profile_default 7 of
        Some (Inr s) \<Rightarrow> s)"

lemma example_profile_valid: "profile_validate realtime_profile_default = Some (Inr ())"
  by (simp add: realtime_profile_default_def profile_checks MAX_REALTIME_DURATION_def MAX_FRAMES_def MAX_BYTES_def
      Let_def)

lemma example_flow_new:
  "flow_controller_new example_f64 \<lparr>ik_node_id = ''n'', ik_port = ''in''\<rparr> realtime_profile_default 7 =
     Some (Inr example_flow)"
  unfolding example_flow_def by (simp add: flow_controller_new_def example_profile_valid)

lemma example_flow_fields:
  "fl_last_input_at example_flow = None" "fl_queued_frames example_flow = 0" "fl_queued_bytes example_flow = 0"
  "fl_queued_media example_flow = 0" "fl_input_media_total example_flow = 0"
  by (simp_all add: example_flow_def flow_controller_new_def example_profile_valid)

abbreviation example_frame :: measurement where
  "example_frame \<equiv> \<lparr>me_bytes = 10, me_media_duration = 20\<rparr>"

lemma example_flow_run:
  "\<not> fy_failed (fold (flow_step example_f64) [FEnqueue example_frame 5] (flow_system_new example_flow))"
  "fy_in (fold (flow_step example_f64) [FEnqueue example_frame 5] (flow_system_new example_flow)) = [example_frame]"
  by (simp_all add: flow_system_new_def record_enqueue_def example_flow_fields
      observe_input_def se_bind_def flow_assign_def flow_modify_def flow_evaluate_eq arith_defs)

theorem flow_accounting_witness:
  "let y = fold (flow_step example_f64) [FEnqueue example_frame 5] (flow_system_new example_flow) in
   fl_in_flight (fy_flow y) = length (fy_works y) \<and>
   totals [example_frame] = triple_add (fl_queued_frames (fy_flow y), fl_queued_bytes (fy_flow y), fl_queued_media (fy_flow y))
     (triple_add (totals (map fw_measurement (fy_works y))) (triple_add (totals (fy_done y)) (totals (fy_drop y))))"
  using flow_accounting [OF example_flow_new refl example_flow_run(1), of 9] example_flow_run(2)
  by (simp add: Let_def)

lemma example_flow_evals:
  "\<exists>e. fy_evals (fold (flow_step example_f64) [FSample 3] (flow_system_new example_flow)) = [] @ e # []"
  by (simp add: flow_system_new_def Let_def)

theorem flow_hysteresis_witness:
  "let y = fold (flow_step example_f64) [FSample 3] (flow_system_new example_flow) in
   hysteresis [] (hd (fy_evals y)) \<and> fl_state (fy_flow y) = fe_after (last (fy_evals y)) \<and>
   length (fl_signals (fy_flow y)) \<le> 64"
  using flow_hysteresis [OF example_flow_new refl refl, of "[FSample 3]"] example_flow_evals
  by (auto simp only: Let_def list.sel append.simps list.distinct if_False)

theorem flow_drop_contract_witness:
  "decide_overflow example_flow (Some VadSilence) \<notin> {DecideDropOldest, DecideDropNewest, DecideDropTrustedSilence} \<and>
   record_drop example_f64 example_frame FrameLimit example_flow = (example_flow, Inl LosslessDropForbidden) \<and>
   fl_dropped_frames (fy_flow (fold (flow_step example_f64) [FDrop example_frame FrameLimit, FSample 3]
     (flow_system_new example_flow))) = 0"
  using flow_drop_contract [OF example_flow_new refl refl, of "[]" "Some VadSilence" example_frame FrameLimit]
    flow_drop_contract [OF example_flow_new refl refl, of "[FDrop example_frame FrameLimit, FSample 3]"]
  by (simp add: flow_system_new_def realtime_profile_default_def)

end
