(* ===== verification/Managed.thy ===== *)
theory Managed
  imports Services Realtime
begin

text \<open>
  Managed asynchronous streams (\<open>muxiva-core/src/managed_stream.rs\<close>): a bounded session
  executor that runs service requests on threads of their own. The model is the whole
  concurrent system: the shared mailbox, the registrations, the executor thread with its local
  maps, the request workers, the callers of \<open>cancel\<close> and the caller of \<open>request_stop\<close>. Every
  access to an atomic flag and every critical section is one step. Where the executor holds
  the mailbox lock over several steps, the steps that need that lock are disabled.
  \<open>TerminalState::finish\<close> is one step with the counters its winner increments: after the
  exchange only the winner touches the lease, and it drops it before it does anything else.
\<close>

section \<open>Requests and results\<close>

type_synonym request_id = u64
type_synonym instant = nat

record service_error =
  sv_code :: string
  sv_message :: string

definition is_char_boundary :: "string \<Rightarrow> nat \<Rightarrow> bool" where
  "is_char_boundary s i \<longleftrightarrow>
     i = 0 \<or> i = length s \<or> i < length s \<and> \<not> byte_in 0x80 0xBF (s ! i)"

fun floor_boundary :: "string \<Rightarrow> nat \<Rightarrow> nat" where
  "floor_boundary s 0 = 0"
| "floor_boundary s (Suc n) = (if is_char_boundary s (Suc n) then Suc n else floor_boundary s n)"

definition bounded_text :: "string \<Rightarrow> nat \<Rightarrow> string" where
  "bounded_text val max_bytes =
     (if length val \<le> max_bytes then val else take (floor_boundary val max_bytes) val)"

definition service_error_new :: "string \<Rightarrow> string \<Rightarrow> service_error" where
  "service_error_new code message =
     \<lparr>sv_code = bounded_text code 64, sv_message = bounded_text message 512\<rparr>"

definition service_timeout :: service_error where
  "service_timeout =
     service_error_new ''managed_stream_timeout'' ''managed stream request deadline elapsed''"

definition service_worker_start :: service_error where
  "service_worker_start =
     service_error_new ''managed_stream_worker_start''
       ''managed stream could not start an isolated request worker''"

definition service_adapter_panic :: service_error where
  "service_adapter_panic =
     service_error_new ''managed_stream_adapter_panic''
       ''managed stream adapter panicked while handling a request''"

definition service_response_limit :: service_error where
  "service_response_limit =
     service_error_new ''managed_stream_response_limit''
       ''managed stream response exceeded its configured frame or byte limit''"

record async_request =
  rq_request_id :: request_id
  rq_session_id :: session_id
  rq_input :: frame
  rq_deadline :: instant
  rq_attempt_limit :: usize
  rq_admission :: admission_lease

datatype submit_outcome = SubmitAccepted | SubmitMailboxFull | SubmitStopping | SubmitCancelled

datatype stream_result =
    ResFrames "frame list" | ResRetryable service_error | ResFailed service_error

record stream_completion =
  sc_request_id :: request_id
  sc_session_id :: session_id
  sc_result :: stream_result

datatype adapter_response =
    RespFrames "frame list" | RespRetryable service_error | RespFailed service_error

text \<open>How the protected call of \<open>connect\<close> and \<open>send\<close> can end.\<close>

datatype adapter_call = ConnectFailed service_error | Sent adapter_response | AdapterPanicked

fun adapter_outcome :: "adapter_call \<Rightarrow> adapter_response" where
  "adapter_outcome (ConnectFailed error) = RespRetryable error"
| "adapter_outcome (Sent response) = response"
| "adapter_outcome AdapterPanicked = RespFailed service_adapter_panic"

record managed_stream_options =
  mo_input_capacity :: usize
  mo_result_capacity :: usize
  mo_max_in_flight :: usize
  mo_max_response_frames :: usize
  mo_max_response_bytes :: usize
  mo_ordering :: delivery_ordering
  mo_reconnect_delay :: duration
  mo_thread_name :: string

definition managed_stream_options_default :: managed_stream_options where
  "managed_stream_options_default =
     \<lparr>mo_input_capacity = 8, mo_result_capacity = 8, mo_max_in_flight = 1,
      mo_max_response_frames = 64, mo_max_response_bytes = 8388608, mo_ordering = StrictOrder,
      mo_reconnect_delay = 0, mo_thread_name = ''muxiva-managed-stream''\<rparr>"

section \<open>Response limits\<close>

text \<open>
  \<open>value_size\<close> is \<open>size_of::<Value>()\<close>, which the compiler chooses. \<open>None\<close> is an overflow of
  the sum.
\<close>

fun value_response_bytes :: "usize \<Rightarrow> val \<Rightarrow> usize option"
  and list_response_bytes :: "usize \<Rightarrow> usize \<Rightarrow> val list \<Rightarrow> usize option"
  and map_response_bytes :: "usize \<Rightarrow> usize \<Rightarrow> (string \<times> val) list \<Rightarrow> usize option" where
  "value_response_bytes vs VNull = checked_add64 vs 0"
| "value_response_bytes vs (VBool _) = checked_add64 vs 1"
| "value_response_bytes vs (VInteger _) = checked_add64 vs 8"
| "value_response_bytes vs (VFloat _) = checked_add64 vs 8"
| "value_response_bytes vs (VString s) = checked_add64 vs (length s)"
| "value_response_bytes vs (VBytes b) = checked_add64 vs (length b)"
| "value_response_bytes vs (VList l) = Option.bind (list_response_bytes vs 0 l) (checked_add64 vs)"
| "value_response_bytes vs (VMap m) = Option.bind (map_response_bytes vs 0 m) (checked_add64 vs)"
| "list_response_bytes vs acc [] = Some acc"
| "list_response_bytes vs acc (v # l) =
     Option.bind (value_response_bytes vs v) (\<lambda>n.
     Option.bind (checked_add64 acc n) (\<lambda>t. list_response_bytes vs t l))"
| "map_response_bytes vs acc [] = Some acc"
| "map_response_bytes vs acc ((k, v) # m) =
     Option.bind (checked_add64 acc (length k)) (\<lambda>t.
     Option.bind (value_response_bytes vs v) (\<lambda>n.
     Option.bind (checked_add64 t n) (\<lambda>t. map_response_bytes vs t m)))"

fun frame_response_bytes :: "usize \<Rightarrow> frame \<Rightarrow> usize option" where
  "frame_response_bytes vs (FAudio f) = Some (length (ad_buffer (cf_data f)))"
| "frame_response_bytes vs (FVideo f) = Some (length (vd_buffer (cf_data f)))"
| "frame_response_bytes vs (FText f) = Some (length (cf_data f))"
| "frame_response_bytes vs (FByte f) = Some (length (bd_buffer (cf_data f)))"
| "frame_response_bytes vs (FSignal f) = value_response_bytes vs (sd_payload (cf_data f))"
| "frame_response_bytes vs (FEvent f) = value_response_bytes vs (ed_payload (cf_data f))"

fun sum_response_bytes :: "usize \<Rightarrow> usize \<Rightarrow> frame list \<Rightarrow> usize option" where
  "sum_response_bytes vs acc [] = Some acc"
| "sum_response_bytes vs acc (f # fs) =
     Option.bind (frame_response_bytes vs f) (\<lambda>n.
     Option.bind (checked_add64 acc n) (\<lambda>t. sum_response_bytes vs t fs))"

definition validate_response_frames ::
  "usize \<Rightarrow> managed_stream_options \<Rightarrow> frame list \<Rightarrow> service_error + unit" where
  "validate_response_frames vs options frames =
     (if mo_max_response_frames options < length frames then Inl service_response_limit
      else case sum_response_bytes vs 0 frames of
             None \<Rightarrow> Inl service_response_limit
           | Some bytes \<Rightarrow>
               if mo_max_response_bytes options < bytes then Inl service_response_limit else Inr ())"

section \<open>State\<close>

datatype managed_stream_state = StreamRunning | StreamStopping | StreamStopped

record stream_metrics =
  sm_submitted :: u64
  sm_accepted :: u64
  sm_mailbox_full :: u64
  sm_started :: u64
  sm_attempts :: u64
  sm_retries :: u64
  sm_reconnects :: u64
  sm_completed :: u64
  sm_succeeded :: u64
  sm_retry_exhausted :: u64
  sm_failed :: u64
  sm_timed_out :: u64
  sm_cancelled :: u64
  sm_response_limit_exceeded :: u64
  sm_late_results_discarded :: u64
  sm_result_backpressure :: u64
  sm_results_delivered :: u64
  sm_queued_inputs :: usize
  sm_active_requests :: usize
  sm_ordered_pending :: usize
  sm_queued_results :: usize
  sm_peak_active_requests :: usize

definition stream_metrics_default :: stream_metrics where
  "stream_metrics_default =
     \<lparr>sm_submitted = 0, sm_accepted = 0, sm_mailbox_full = 0, sm_started = 0, sm_attempts = 0,
      sm_retries = 0, sm_reconnects = 0, sm_completed = 0, sm_succeeded = 0,
      sm_retry_exhausted = 0, sm_failed = 0, sm_timed_out = 0, sm_cancelled = 0,
      sm_response_limit_exceeded = 0, sm_late_results_discarded = 0, sm_result_backpressure = 0,
      sm_results_delivered = 0, sm_queued_inputs = 0, sm_active_requests = 0,
      sm_ordered_pending = 0, sm_queued_results = 0, sm_peak_active_requests = 0\<rparr>"

text \<open>An \<open>Arc<TerminalState>\<close> is a position in the list of all terminal states ever made.\<close>

record terminal_state =
  te_cancelled :: bool
  te_terminal :: bool
  te_admission :: "admission_lease option"

record envelope =
  ev_sequence :: u64
  ev_request_id :: request_id
  ev_session_id :: session_id
  ev_input :: frame
  ev_deadline :: instant
  ev_attempt_limit :: usize
  ev_terminal :: nat

record worker_completion =
  wc_sequence :: u64
  wc_request_id :: request_id
  wc_result :: "stream_result option"

record ordered_resolution =
  or_request_id :: request_id
  or_result :: "stream_result option"

record active_request =
  aq_request_id :: request_id
  aq_deadline :: instant
  aq_terminal :: nat

text \<open>
  Where the executor is in its loop, with the locals that live there. The Boolean is
  \<open>had_completions\<close> and then \<open>made_progress\<close>; the executor holds the mailbox lock at
  \<open>ELaunch\<close> and \<open>EExpire\<close>.
\<close>

datatype executor_pc =
    EDrain
  | EComplete "worker_completion list" bool
  | EUnregister worker_completion "worker_completion list" bool
  | EScan instant "(u64 \<times> active_request) list" bool
  | ETimeout u64 active_request instant "(u64 \<times> active_request) list" bool
  | EMailbox bool
  | ELaunch "envelope list" bool
  | EExpire envelope "envelope list"
  | EWait
  | ESpawn "envelope list"
  | ESpawnFailed worker_completion "envelope list"
  | EExit
  | EDone

datatype worker_pc =
    WAttempt usize
  | WReconnect usize
  | WCall usize
  | WRespond usize adapter_response
  | WFinish "stream_result option"
  | WPush "stream_result option"
  | WExit
  | WDone

record stream_worker =
  wk_envelope :: envelope
  wk_pc :: worker_pc

text \<open>The one caller of \<open>request_stop\<close> that wins the exchange.\<close>

datatype stop_pc = StopIdle | StopLock | StopCollect | StopCancel "nat list" | StopFinish nat "nat list" | StopDone

text \<open>
  The \<open>Runtime\<close> with its mailbox, the locals of the executor, the threads around it, and
  history variables: the accepted requests, the outcomes that won, the results published to the
  mailbox and received from it, and the results a strict executor drops because their place in
  the order is taken. An outcome is tagged with the sequence of its request, as are the
  entries of the relaxed queue.
\<close>

record managed_stream =
  ms_session_id :: session_id
  ms_options :: managed_stream_options
  ms_input :: "envelope list"
  ms_worker_completions :: "worker_completion list"
  ms_results :: "stream_completion list"
  ms_closed :: bool
  ms_registrations :: "(request_id, nat) btree"
  ms_next_sequence :: u64
  ms_lifecycle :: nat
  ms_metrics :: stream_metrics
  ms_executor_done :: bool
  ms_terminals :: "terminal_state list"
  ms_active :: "(u64, active_request) btree"
  ms_ordered :: "(u64, ordered_resolution) btree"
  ms_relaxed :: "(u64 \<times> stream_completion) list"
  ms_next_delivery :: u64
  ms_pc :: executor_pc
  ms_workers :: "stream_worker list"
  ms_cancels :: "(nat \<times> bool) list"
  ms_stop :: stop_pc
  ms_accepted :: "envelope list"
  ms_outcomes :: "(u64 \<times> stream_completion) list"
  ms_published :: "(u64 \<times> stream_completion) list"
  ms_received :: "stream_completion list"
  ms_lost :: "(u64 \<times> stream_completion) list"

definition managed_stream_new :: "session_id \<Rightarrow> managed_stream_options \<Rightarrow> managed_stream" where
  "managed_stream_new session options =
     \<lparr>ms_session_id = session, ms_options = options, ms_input = [], ms_worker_completions = [],
      ms_results = [], ms_closed = False, ms_registrations = [], ms_next_sequence = 0,
      ms_lifecycle = 0, ms_metrics = stream_metrics_default, ms_executor_done = False,
      ms_terminals = [], ms_active = [], ms_ordered = [], ms_relaxed = [], ms_next_delivery = 0,
      ms_pc = EDrain, ms_workers = [], ms_cancels = [], ms_stop = StopIdle, ms_accepted = [],
      ms_outcomes = [], ms_published = [], ms_received = [], ms_lost = []\<rparr>"

section \<open>Terminal states\<close>

definition load_cancelled :: "managed_stream \<Rightarrow> nat \<Rightarrow> bool" where
  "load_cancelled s t = te_cancelled (ms_terminals s ! t)"

definition is_terminal :: "managed_stream \<Rightarrow> nat \<Rightarrow> bool" where
  "is_terminal s t = te_terminal (ms_terminals s ! t)"

definition store_cancelled :: "nat \<Rightarrow> managed_stream \<Rightarrow> managed_stream" where
  "store_cancelled t s =
     s\<lparr>ms_terminals := (ms_terminals s)[t := (ms_terminals s ! t)\<lparr>te_cancelled := True\<rparr>]\<rparr>"

text \<open>\<open>TerminalState::finish\<close>: only the first caller wins, and it drops the lease.\<close>

definition terminal_finish :: "nat \<Rightarrow> managed_stream \<Rightarrow> managed_stream \<times> bool" where
  "terminal_finish t s =
     (if is_terminal s t then (s, False)
      else (s\<lparr>ms_terminals :=
               (ms_terminals s)[t := (ms_terminals s ! t)\<lparr>te_terminal := True, te_admission := None\<rparr>]\<rparr>,
            True))"

definition count_cancelled :: "stream_metrics \<Rightarrow> stream_metrics" where
  "count_cancelled m =
     m\<lparr>sm_cancelled := fetch_add (sm_cancelled m) 1, sm_completed := fetch_add (sm_completed m) 1\<rparr>"

text \<open>\<open>TerminalState::cancel\<close> after it has stored the flag.\<close>

definition terminal_cancel :: "nat \<Rightarrow> managed_stream \<Rightarrow> managed_stream \<times> bool" where
  "terminal_cancel t s =
     (case terminal_finish t s of
        (s, False) \<Rightarrow> (s, False)
      | (s, True) \<Rightarrow> (s\<lparr>ms_metrics := count_cancelled (ms_metrics s)\<rparr>, True))"

definition stream_complete :: "managed_stream \<Rightarrow> request_id \<Rightarrow> stream_result \<Rightarrow> stream_completion" where
  "stream_complete s request_id result =
     \<lparr>sc_request_id = request_id, sc_session_id = ms_session_id s, sc_result = result\<rparr>"

definition count_timed_out :: "stream_metrics \<Rightarrow> stream_metrics" where
  "count_timed_out m =
     m\<lparr>sm_completed := fetch_add (sm_completed m) 1, sm_timed_out := fetch_add (sm_timed_out m) 1\<rparr>"

definition note_outcome :: "u64 \<Rightarrow> request_id \<Rightarrow> stream_result option \<Rightarrow> managed_stream \<Rightarrow> managed_stream" where
  "note_outcome sequence request_id result s =
     (case result of
        None \<Rightarrow> s
      | Some r \<Rightarrow> s\<lparr>ms_outcomes := ms_outcomes s @ [(sequence, stream_complete s request_id r)]\<rparr>)"

definition terminal_timeout ::
  "u64 \<Rightarrow> request_id \<Rightarrow> nat \<Rightarrow> managed_stream \<Rightarrow> managed_stream \<times> stream_result option" where
  "terminal_timeout sequence request_id t s =
     (case terminal_finish t s of
        (s, False) \<Rightarrow> (s, None)
      | (s, True) \<Rightarrow>
          let result = Some (ResFailed service_timeout) in
          (note_outcome sequence request_id result (s\<lparr>ms_metrics := count_timed_out (ms_metrics s)\<rparr>), result))"

text \<open>Who holds a strong reference to a terminal state; \<open>Weak::upgrade\<close> succeeds exactly then.\<close>

fun pc_envelopes :: "executor_pc \<Rightarrow> envelope list" where
  "pc_envelopes (ELaunch launches _) = launches"
| "pc_envelopes (EExpire envelope launches) = envelope # launches"
| "pc_envelopes (ESpawn launches) = launches"
| "pc_envelopes (ESpawnFailed _ launches) = launches"
| "pc_envelopes _ = []"

fun stop_terminals :: "stop_pc \<Rightarrow> nat list" where
  "stop_terminals (StopCancel ts) = ts"
| "stop_terminals (StopFinish t ts) = t # ts"
| "stop_terminals _ = []"

definition arc_alive :: "managed_stream \<Rightarrow> nat \<Rightarrow> bool" where
  "arc_alive s t \<longleftrightarrow>
     list_ex (\<lambda>e. ev_terminal e = t) (ms_input s @ pc_envelopes (ms_pc s)) \<or>
     ms_pc s \<noteq> EDone \<and> list_ex (\<lambda>(_, r). aq_terminal r = t) (ms_active s) \<or>
     list_ex (\<lambda>w. wk_pc w \<noteq> WDone \<and> ev_terminal (wk_envelope w) = t) (ms_workers s) \<or>
     list_ex (\<lambda>(c, _). c = t) (ms_cancels s) \<or> t \<in> set (stop_terminals (ms_stop s))"

definition registered :: "managed_stream \<Rightarrow> request_id \<Rightarrow> nat option" where
  "registered s request_id =
     (case bt_get (ms_registrations s) request_id of
        None \<Rightarrow> None
      | Some t \<Rightarrow> if arc_alive s t then Some t else None)"

definition remove_registration :: "request_id \<Rightarrow> managed_stream \<Rightarrow> managed_stream" where
  "remove_registration request_id s = s\<lparr>ms_registrations := bt_remove request_id (ms_registrations s)\<rparr>"

text \<open>The executor holds the mailbox lock.\<close>

fun pc_locked :: "executor_pc \<Rightarrow> bool" where
  "pc_locked (ELaunch _ _) = True"
| "pc_locked (EExpire _ _) = True"
| "pc_locked _ = False"

section \<open>The public handle\<close>

definition submit_begin :: "async_request \<Rightarrow> managed_stream \<Rightarrow> managed_stream \<times> submit_outcome option" where
  "submit_begin request s =
     (let s = s\<lparr>ms_metrics := (ms_metrics s)\<lparr>sm_submitted := fetch_add (sm_submitted (ms_metrics s)) 1\<rparr>\<rparr> in
      if rq_session_id request \<noteq> ms_session_id s then (s, Some SubmitCancelled)
      else if ms_lifecycle s \<noteq> 0 then (s, Some SubmitStopping)
      else (s, None))"

definition envelope_of :: "async_request \<Rightarrow> u64 \<Rightarrow> nat \<Rightarrow> envelope" where
  "envelope_of request sequence t =
     \<lparr>ev_sequence = sequence, ev_request_id = rq_request_id request,
      ev_session_id = rq_session_id request, ev_input = rq_input request,
      ev_deadline = rq_deadline request, ev_attempt_limit = rq_attempt_limit request, ev_terminal = t\<rparr>"

definition terminal_new :: "async_request \<Rightarrow> terminal_state" where
  "terminal_new request =
     \<lparr>te_cancelled = False, te_terminal = False, te_admission = Some (rq_admission request)\<rparr>"

definition count_accepted :: "stream_metrics \<Rightarrow> stream_metrics" where
  "count_accepted m =
     m\<lparr>sm_accepted := fetch_add (sm_accepted m) 1, sm_queued_inputs := fetch_add (sm_queued_inputs m) 1\<rparr>"

text \<open>The section of \<open>try_submit\<close> under the mailbox lock.\<close>

definition submit_locked :: "async_request \<Rightarrow> managed_stream \<Rightarrow> managed_stream \<times> submit_outcome" where
  "submit_locked request s =
     (if ms_closed s then (s, SubmitStopping)
      else if length (ms_input s) = mo_input_capacity (ms_options s)
      then (s\<lparr>ms_metrics := (ms_metrics s)\<lparr>sm_mailbox_full := fetch_add (sm_mailbox_full (ms_metrics s)) 1\<rparr>\<rparr>,
            SubmitMailboxFull)
      else if registered s (rq_request_id request) \<noteq> None then (s, SubmitCancelled)
      else
        let t = length (ms_terminals s);
            envelope = envelope_of request (ms_next_sequence s) t
        in (s\<lparr>ms_terminals := ms_terminals s @ [terminal_new request],
              ms_registrations := bt_insert (rq_request_id request) t (ms_registrations s),
              ms_next_sequence := fetch_add (ms_next_sequence s) 1,
              ms_input := ms_input s @ [envelope],
              ms_metrics := count_accepted (ms_metrics s),
              ms_accepted := ms_accepted s @ [envelope]\<rparr>,
            SubmitAccepted))"

definition stream_try_submit :: "async_request \<Rightarrow> managed_stream \<Rightarrow> managed_stream \<times> submit_outcome" where
  "stream_try_submit request s =
     (case submit_begin request s of
        (s, Some outcome) \<Rightarrow> (s, outcome)
      | (s, None) \<Rightarrow> submit_locked request s)"

text \<open>
  \<open>cancel\<close> looks the request up, stores the flag and then competes for the terminal; a call in
  progress is the terminal state it holds and whether it has stored the flag.
\<close>

definition cancel_lookup :: "request_id \<Rightarrow> managed_stream \<Rightarrow> managed_stream" where
  "cancel_lookup request_id s =
     (case registered s request_id of
        None \<Rightarrow> s
      | Some t \<Rightarrow> s\<lparr>ms_cancels := ms_cancels s @ [(t, False)]\<rparr>)"

definition cancel_store :: "nat \<Rightarrow> managed_stream \<Rightarrow> managed_stream" where
  "cancel_store i s =
     (if i < length (ms_cancels s) \<and> \<not> snd (ms_cancels s ! i)
      then store_cancelled (fst (ms_cancels s ! i)) s
             \<lparr>ms_cancels := (ms_cancels s)[i := (fst (ms_cancels s ! i), True)]\<rparr>
      else s)"

definition remove_nth :: "nat \<Rightarrow> 'a list \<Rightarrow> 'a list" where
  "remove_nth i xs = take i xs @ drop (Suc i) xs"

definition cancel_finish :: "nat \<Rightarrow> managed_stream \<Rightarrow> managed_stream \<times> bool option" where
  "cancel_finish i s =
     (if i < length (ms_cancels s) \<and> snd (ms_cancels s ! i)
      then case terminal_cancel (fst (ms_cancels s ! i)) (s\<lparr>ms_cancels := remove_nth i (ms_cancels s)\<rparr>) of
             (s, won) \<Rightarrow> (s, Some won)
      else (s, None))"

definition stream_cancel :: "request_id \<Rightarrow> managed_stream \<Rightarrow> managed_stream \<times> bool" where
  "stream_cancel request_id s =
     (case registered s request_id of
        None \<Rightarrow> (s, False)
      | Some t \<Rightarrow> terminal_cancel t (store_cancelled t s))"

definition stream_try_recv :: "managed_stream \<Rightarrow> managed_stream \<times> stream_completion option" where
  "stream_try_recv s =
     (case ms_results s of
        [] \<Rightarrow> (s, None)
      | result # rest \<Rightarrow>
          (s\<lparr>ms_results := rest,
             ms_metrics := (ms_metrics s)
               \<lparr>sm_queued_results := fetch_sub (sm_queued_results (ms_metrics s)) 1,
                sm_results_delivered := fetch_add (sm_results_delivered (ms_metrics s)) 1\<rparr>,
             ms_received := ms_received s @ [result]\<rparr>,
           Some result))"

text \<open>\<open>recv_timeout\<close>: what it returns when its wait ends, or \<open>None\<close> while it waits.\<close>

definition stream_recv_wake ::
  "bool \<Rightarrow> managed_stream \<Rightarrow> (managed_stream \<times> stream_completion option) option" where
  "stream_recv_wake timed_out s =
     (if ms_results s = [] \<and> \<not> ms_closed s \<and> \<not> timed_out then None else Some (stream_try_recv s))"

definition stream_lifecycle :: "managed_stream \<Rightarrow> managed_stream_state" where
  "stream_lifecycle s =
     (if ms_lifecycle s = 0 then StreamRunning
      else if ms_lifecycle s = 1 then StreamStopping else StreamStopped)"

definition stream_metrics_snapshot :: "managed_stream \<Rightarrow> managed_stream_state \<times> stream_metrics" where
  "stream_metrics_snapshot s =
     (stream_lifecycle s,
      (ms_metrics s)\<lparr>sm_queued_inputs := length (ms_input s), sm_queued_results := length (ms_results s)\<rparr>)"

section \<open>Stopping\<close>

definition stop_begin :: "managed_stream \<Rightarrow> managed_stream" where
  "stop_begin s = (if ms_lifecycle s = 0 then s\<lparr>ms_lifecycle := 1, ms_stop := StopLock\<rparr> else s)"

definition completion_token :: "session_id \<Rightarrow> worker_completion \<Rightarrow> (u64 \<times> stream_completion) list" where
  "completion_token session c =
     (case wc_result c of
        None \<Rightarrow> []
      | Some r \<Rightarrow>
          [(wc_sequence c, \<lparr>sc_request_id = wc_request_id c, sc_session_id = session, sc_result = r\<rparr>)])"

text \<open>
  \<open>mailbox.input.clear()\<close> drops the queued envelopes. A terminal state that nothing else refers
  to goes with its envelope, and the lease in it is released by its own \<open>Drop\<close> although the
  request is undecided; the registrations hold weak references only. This is the one place
  where an undecided request can lose its last reference (\<open>lease_ok\<close> in \<open>Managed_Lease\<close>).
\<close>

definition drop_leases :: "(nat \<Rightarrow> bool) \<Rightarrow> envelope list \<Rightarrow> terminal_state list \<Rightarrow> terminal_state list" where
  "drop_leases alive envelopes terminals =
     fold (\<lambda>e ts. if alive (ev_terminal e) then ts
                  else ts[ev_terminal e := (ts ! ev_terminal e)\<lparr>te_admission := None\<rparr>]) envelopes terminals"

definition clear_input :: "managed_stream \<Rightarrow> managed_stream" where
  "clear_input s =
     (let cleared = s\<lparr>ms_input := []\<rparr>
      in cleared\<lparr>ms_terminals := drop_leases (arc_alive cleared) (ms_input s) (ms_terminals s)\<rparr>)"

definition stop_close :: "managed_stream \<Rightarrow> managed_stream" where
  "stop_close s =
     (let s = clear_input (s\<lparr>ms_closed := True\<rparr>);
          completed_discarded = length (filter (\<lambda>c. wc_result c \<noteq> None) (ms_worker_completions s));
          discarded = length (ms_results s) + completed_discarded;
          m = ms_metrics s
      in s\<lparr>ms_worker_completions := [], ms_results := [],
           ms_metrics := m\<lparr>sm_queued_inputs := 0,
             sm_late_results_discarded := fetch_add (sm_late_results_discarded m) discarded,
             sm_queued_results := 0\<rparr>,
           ms_stop := StopCollect\<rparr>)"

definition stop_collect :: "managed_stream \<Rightarrow> managed_stream" where
  "stop_collect s =
     s\<lparr>ms_registrations := [],
       ms_stop := StopCancel (filter (arc_alive s) (bt_values (ms_registrations s)))\<rparr>"

text \<open>
  The map of registrations is a \<open>HashMap\<close>: the terminal states are cancelled in an arbitrary
  order, so each step takes the position of the next one.
\<close>

definition stop_step :: "nat \<Rightarrow> managed_stream \<Rightarrow> managed_stream" where
  "stop_step i s =
     (case ms_stop s of
        StopLock \<Rightarrow> if pc_locked (ms_pc s) then s else stop_close s
      | StopCollect \<Rightarrow> stop_collect s
      | StopCancel ts \<Rightarrow>
          if ts = [] then s\<lparr>ms_stop := StopDone\<rparr>
          else if i < length ts
          then store_cancelled (ts ! i) s\<lparr>ms_stop := StopFinish (ts ! i) (remove_nth i ts)\<rparr>
          else s
      | StopFinish t ts \<Rightarrow> fst (terminal_cancel t (s\<lparr>ms_stop := StopCancel ts\<rparr>))
      | _ \<Rightarrow> s)"

text \<open>The report of \<open>stop\<close> once its wait for the executor has ended.\<close>

definition managed_stop_report :: "managed_stream \<Rightarrow> bool \<times> managed_stream_state \<times> stream_metrics" where
  "managed_stop_report s = (ms_executor_done s, stream_metrics_snapshot s)"

section \<open>Worker completions\<close>

definition push_worker_completion :: "worker_completion \<Rightarrow> managed_stream \<Rightarrow> managed_stream" where
  "push_worker_completion c s =
     (if \<not> ms_closed s then s\<lparr>ms_worker_completions := ms_worker_completions s @ [c]\<rparr>
      else
        let m = ms_metrics s in
        if wc_result c \<noteq> None
        then s\<lparr>ms_metrics := m\<lparr>sm_late_results_discarded := fetch_add (sm_late_results_discarded m) 1\<rparr>\<rparr>
        else s)"

section \<open>The executor\<close>

definition set_pc :: "executor_pc \<Rightarrow> managed_stream \<Rightarrow> managed_stream" where
  "set_pc pc s = s\<lparr>ms_pc := pc\<rparr>"

definition exec_drain :: "managed_stream \<Rightarrow> managed_stream" where
  "exec_drain s =
     (if ms_closed s then set_pc EExit s
      else set_pc (EComplete (ms_worker_completions s) (ms_worker_completions s \<noteq> []))
             (s\<lparr>ms_worker_completions := []\<rparr>))"

definition store_active_requests :: "managed_stream \<Rightarrow> managed_stream" where
  "store_active_requests s =
     s\<lparr>ms_metrics := (ms_metrics s)\<lparr>sm_active_requests := length (ms_active s)\<rparr>\<rparr>"

definition exec_complete :: "worker_completion \<Rightarrow> managed_stream \<Rightarrow> managed_stream" where
  "exec_complete c s = store_active_requests (s\<lparr>ms_active := bt_remove (wc_sequence c) (ms_active s)\<rparr>)"

definition insert_ordered :: "u64 \<Rightarrow> request_id \<Rightarrow> stream_result option \<Rightarrow> managed_stream \<Rightarrow> managed_stream" where
  "insert_ordered sequence request_id result s =
     s\<lparr>ms_ordered :=
         bt_insert sequence \<lparr>or_request_id = request_id, or_result = result\<rparr> (ms_ordered s)\<rparr>"

definition push_relaxed :: "u64 \<Rightarrow> request_id \<Rightarrow> stream_result \<Rightarrow> managed_stream \<Rightarrow> managed_stream" where
  "push_relaxed sequence request_id result s =
     s\<lparr>ms_relaxed := ms_relaxed s @ [(sequence, stream_complete s request_id result)]\<rparr>"

definition exec_resolve :: "worker_completion \<Rightarrow> managed_stream \<Rightarrow> managed_stream" where
  "exec_resolve c s =
     (case mo_ordering (ms_options s) of
        StrictOrder \<Rightarrow>
          if ms_next_delivery s \<le> wc_sequence c \<and> bt_get (ms_ordered s) (wc_sequence c) = None
          then insert_ordered (wc_sequence c) (wc_request_id c) (wc_result c) s
          else s\<lparr>ms_lost := ms_lost s @ completion_token (ms_session_id s) c\<rparr>
      | RelaxedOrder \<Rightarrow>
          case wc_result c of
            None \<Rightarrow> s
          | Some result \<Rightarrow> push_relaxed (wc_sequence c) (wc_request_id c) result s)"

text \<open>An active request whose cancellation flag is set.\<close>

definition exec_tombstone :: "u64 \<Rightarrow> request_id \<Rightarrow> managed_stream \<Rightarrow> managed_stream" where
  "exec_tombstone sequence request_id s =
     (if mo_ordering (ms_options s) = StrictOrder \<and> ms_next_delivery s \<le> sequence \<and>
         bt_get (ms_ordered s) sequence = None
      then insert_ordered sequence request_id None s else s)"

definition exec_timeout :: "u64 \<Rightarrow> active_request \<Rightarrow> managed_stream \<Rightarrow> managed_stream" where
  "exec_timeout sequence request s =
     (case terminal_timeout sequence (aq_request_id request) (aq_terminal request) s of
        (s, None) \<Rightarrow> s
      | (s, Some result) \<Rightarrow>
          case mo_ordering (ms_options s) of
            StrictOrder \<Rightarrow>
              if bt_get (ms_ordered s) sequence = None
              then insert_ordered sequence (aq_request_id request) (Some result) s else s
          | RelaxedOrder \<Rightarrow> push_relaxed sequence (aq_request_id request) result s)"

definition publish_result :: "u64 \<Rightarrow> stream_completion \<Rightarrow> managed_stream \<Rightarrow> managed_stream" where
  "publish_result sequence c s =
     s\<lparr>ms_results := ms_results s @ [c],
       ms_metrics := (ms_metrics s)\<lparr>sm_queued_results := fetch_add (sm_queued_results (ms_metrics s)) 1\<rparr>,
       ms_published := ms_published s @ [(sequence, c)]\<rparr>"

definition count_backpressure :: "managed_stream \<Rightarrow> managed_stream" where
  "count_backpressure s =
     s\<lparr>ms_metrics := (ms_metrics s)
         \<lparr>sm_result_backpressure := fetch_add (sm_result_backpressure (ms_metrics s)) 1\<rparr>\<rparr>"

fun move_relaxed :: "(u64 \<times> stream_completion) list \<Rightarrow> managed_stream \<Rightarrow> managed_stream" where
  "move_relaxed [] s = s\<lparr>ms_relaxed := []\<rparr>"
| "move_relaxed (x # xs) s =
     (if length (ms_results s) < mo_result_capacity (ms_options s)
      then move_relaxed xs (publish_result (fst x) (snd x) s)
      else s\<lparr>ms_relaxed := x # xs\<rparr>)"

definition deliver_relaxed :: "managed_stream \<Rightarrow> managed_stream" where
  "deliver_relaxed s =
     (let s = move_relaxed (ms_relaxed s) s in
      if ms_relaxed s \<noteq> [] \<and> length (ms_results s) = mo_result_capacity (ms_options s)
      then count_backpressure s else s)"

definition advance_delivery :: "ordered_resolution \<Rightarrow> managed_stream \<Rightarrow> managed_stream" where
  "advance_delivery resolution s =
     (let q = ms_next_delivery s;
          s = s\<lparr>ms_ordered := bt_remove q (ms_ordered s)\<rparr>;
          s = (case or_result resolution of
                 None \<Rightarrow> s
               | Some result \<Rightarrow> publish_result q (stream_complete s (or_request_id resolution) result) s)
      in s\<lparr>ms_next_delivery := q + 1\<rparr>)"

function deliver_strict :: "managed_stream \<Rightarrow> managed_stream" where
  "deliver_strict s =
     (case bt_get (ms_ordered s) (ms_next_delivery s) of
        None \<Rightarrow> s
      | Some resolution \<Rightarrow>
          if or_result resolution \<noteq> None \<and> length (ms_results s) = mo_result_capacity (ms_options s)
          then count_backpressure s
          else deliver_strict (advance_delivery resolution s))"
  by pat_completeness auto

lemma advance_delivery_ordered [simp]:
  "ms_ordered (advance_delivery r s) = bt_remove (ms_next_delivery s) (ms_ordered s)"
  by (simp add: advance_delivery_def publish_result_def Let_def split: option.splits)

termination deliver_strict
  by (relation "measure (\<lambda>s. length (ms_ordered s))") (auto intro: bt_remove_shorter)

declare deliver_strict.simps [simp del]

definition exec_deliver :: "managed_stream \<Rightarrow> managed_stream" where
  "exec_deliver s =
     (let s = deliver_relaxed s;
          s = (if mo_ordering (ms_options s) = StrictOrder then deliver_strict s else s)
      in s\<lparr>ms_metrics := (ms_metrics s)
             \<lparr>sm_ordered_pending := length (ms_ordered s) + length (ms_relaxed s)\<rparr>\<rparr>)"

definition exec_mailbox :: "bool \<Rightarrow> managed_stream \<Rightarrow> managed_stream" where
  "exec_mailbox had s =
     (if ms_closed s then set_pc EExit s
      else
        let s' = exec_deliver s;
            progress = (had \<or> length (ms_relaxed s') \<noteq> length (ms_relaxed s) \<or>
                        ms_next_delivery s' \<noteq> ms_next_delivery s)
        in set_pc (ELaunch [] progress) s')"

definition buffered_not_active :: "managed_stream \<Rightarrow> nat" where
  "buffered_not_active s =
     length (filter (\<lambda>q. bt_get (ms_active s) q = None) (bt_keys (ms_ordered s))) + length (ms_relaxed s)"

definition exec_launch_end :: "envelope list \<Rightarrow> bool \<Rightarrow> managed_stream \<Rightarrow> managed_stream" where
  "exec_launch_end launches progress s =
     (if launches = [] \<and> \<not> progress
      then set_pc (if ms_worker_completions s \<noteq> [] then EDrain else EWait) s
      else set_pc (ESpawn launches) s)"

definition exec_start :: "envelope \<Rightarrow> managed_stream \<Rightarrow> managed_stream" where
  "exec_start envelope s =
     (let active = bt_insert (ev_sequence envelope)
            \<lparr>aq_request_id = ev_request_id envelope, aq_deadline = ev_deadline envelope,
             aq_terminal = ev_terminal envelope\<rparr> (ms_active s);
          m = ms_metrics s
      in s\<lparr>ms_active := active,
           ms_metrics := m\<lparr>sm_started := fetch_add (sm_started m) 1,
             sm_active_requests := length active,
             sm_peak_active_requests := max (sm_peak_active_requests m) (length active)\<rparr>\<rparr>)"

text \<open>One turn of the loop that takes requests from the mailbox.\<close>

definition exec_launch :: "instant \<Rightarrow> envelope list \<Rightarrow> bool \<Rightarrow> managed_stream \<Rightarrow> managed_stream" where
  "exec_launch now launches progress s =
     (if mo_max_in_flight (ms_options s) \<le> length (ms_active s) + buffered_not_active s
      then exec_launch_end launches progress s
      else case ms_input s of
             [] \<Rightarrow> exec_launch_end launches progress s
           | envelope # rest \<Rightarrow>
               let s = s\<lparr>ms_input := rest,
                   ms_metrics := (ms_metrics s)
                     \<lparr>sm_queued_inputs := fetch_sub (sm_queued_inputs (ms_metrics s)) 1\<rparr>\<rparr> in
               if load_cancelled s (ev_terminal envelope)
               then
                 let s = remove_registration (ev_request_id envelope) s;
                     s = (if mo_ordering (ms_options s) = StrictOrder
                          then insert_ordered (ev_sequence envelope) (ev_request_id envelope) None s
                          else s)
                 in set_pc (ELaunch launches True) s
               else if ev_deadline envelope \<le> now then set_pc (EExpire envelope launches) s
               else set_pc (ELaunch (launches @ [envelope]) True) (exec_start envelope s))"

definition exec_expire :: "envelope \<Rightarrow> envelope list \<Rightarrow> managed_stream \<Rightarrow> managed_stream" where
  "exec_expire envelope launches s =
     (case terminal_timeout (ev_sequence envelope) (ev_request_id envelope) (ev_terminal envelope) s of
        (s, result) \<Rightarrow>
          let s = remove_registration (ev_request_id envelope) s;
              s = (case mo_ordering (ms_options s) of
                     StrictOrder \<Rightarrow> insert_ordered (ev_sequence envelope) (ev_request_id envelope) result s
                   | RelaxedOrder \<Rightarrow>
                       case result of
                         None \<Rightarrow> s
                       | Some r \<Rightarrow> push_relaxed (ev_sequence envelope) (ev_request_id envelope) r s)
          in set_pc (ELaunch launches True) s)"

definition count_spawn_failure :: "stream_metrics \<Rightarrow> stream_metrics" where
  "count_spawn_failure m =
     m\<lparr>sm_completed := fetch_add (sm_completed m) 1, sm_failed := fetch_add (sm_failed m) 1\<rparr>"

text \<open>\<open>spawn_request_worker\<close>, up to the completion it pushes when no thread can be started.\<close>

definition exec_spawn :: "bool \<Rightarrow> envelope \<Rightarrow> envelope list \<Rightarrow> managed_stream \<Rightarrow> managed_stream" where
  "exec_spawn spawned envelope rest s =
     (if spawned
      then set_pc (ESpawn rest) (s\<lparr>ms_workers := ms_workers s @ [\<lparr>wk_envelope = envelope, wk_pc = WAttempt 1\<rparr>]\<rparr>)
      else case terminal_finish (ev_terminal envelope) s of
             (s, won) \<Rightarrow>
               let result = (if won then Some (ResFailed service_worker_start) else None);
                   s = (if won then s\<lparr>ms_metrics := count_spawn_failure (ms_metrics s)\<rparr> else s);
                   s = note_outcome (ev_sequence envelope) (ev_request_id envelope) result s
               in set_pc (ESpawnFailed \<lparr>wc_sequence = ev_sequence envelope,
                    wc_request_id = ev_request_id envelope, wc_result = result\<rparr> rest) s)"

definition exec_exit :: "managed_stream \<Rightarrow> managed_stream" where
  "exec_exit s =
     set_pc EDone (s\<lparr>ms_lifecycle := 2,
       ms_metrics := (ms_metrics s)\<lparr>sm_active_requests := 0\<rparr>, ms_executor_done := True,
       ms_ordered := [], ms_relaxed := []\<rparr>)"

text \<open>
  One step of the executor thread: \<open>now\<close> is the reading of the clock and \<open>spawned\<close> says whether a
  thread could be started. A waiting executor may be woken at any time.
\<close>

definition exec_step :: "instant \<Rightarrow> bool \<Rightarrow> managed_stream \<Rightarrow> managed_stream" where
  "exec_step now spawned s =
     (case ms_pc s of
        EDrain \<Rightarrow> exec_drain s
      | EComplete [] had \<Rightarrow> set_pc (EScan now (ms_active s) had) s
      | EComplete (c # cs) had \<Rightarrow> set_pc (EUnregister c cs had) (exec_complete c s)
      | EUnregister c cs had \<Rightarrow>
          set_pc (EComplete cs had) (exec_resolve c (remove_registration (wc_request_id c) s))
      | EScan at [] had \<Rightarrow> set_pc (EMailbox had) s
      | EScan at ((q, r) # rest) had \<Rightarrow>
          if load_cancelled s (aq_terminal r)
          then set_pc (EScan at rest had) (exec_tombstone q (aq_request_id r) s)
          else if aq_deadline r \<le> at then set_pc (ETimeout q r at rest had) s
          else set_pc (EScan at rest had) s
      | ETimeout q r at rest had \<Rightarrow> set_pc (EScan at rest had) (exec_timeout q r s)
      | EMailbox had \<Rightarrow> exec_mailbox had s
      | ELaunch launches progress \<Rightarrow> exec_launch now launches progress s
      | EExpire envelope launches \<Rightarrow> exec_expire envelope launches s
      | EWait \<Rightarrow> set_pc EDrain s
      | ESpawn [] \<Rightarrow> set_pc EDrain s
      | ESpawn (envelope # rest) \<Rightarrow> exec_spawn spawned envelope rest s
      | ESpawnFailed c rest \<Rightarrow> set_pc (ESpawn rest) (push_worker_completion c s)
      | EExit \<Rightarrow> exec_exit s
      | EDone \<Rightarrow> s)"

section \<open>Request workers\<close>

definition count_attempt :: "usize \<Rightarrow> stream_metrics \<Rightarrow> stream_metrics" where
  "count_attempt attempt m =
     (let m = m\<lparr>sm_attempts := fetch_add (sm_attempts m) 1\<rparr> in
      if 1 < attempt then m\<lparr>sm_reconnects := fetch_add (sm_reconnects m) 1\<rparr> else m)"

definition count_retry :: "stream_metrics \<Rightarrow> stream_metrics" where
  "count_retry m = m\<lparr>sm_retries := fetch_add (sm_retries m) 1\<rparr>"

fun count_result :: "stream_result option \<Rightarrow> stream_metrics \<Rightarrow> stream_metrics" where
  "count_result (Some (ResFrames _)) m = m\<lparr>sm_succeeded := fetch_add (sm_succeeded m) 1\<rparr>"
| "count_result (Some (ResRetryable _)) m = m\<lparr>sm_retry_exhausted := fetch_add (sm_retry_exhausted m) 1\<rparr>"
| "count_result (Some (ResFailed error)) m =
     (if sv_code error = ''managed_stream_timeout'' then m\<lparr>sm_timed_out := fetch_add (sm_timed_out m) 1\<rparr>
      else if sv_code error = ''managed_stream_response_limit''
      then m\<lparr>sm_response_limit_exceeded := fetch_add (sm_response_limit_exceeded m) 1,
             sm_failed := fetch_add (sm_failed m) 1\<rparr>
      else m\<lparr>sm_failed := fetch_add (sm_failed m) 1\<rparr>)"
| "count_result None m = m\<lparr>sm_failed := fetch_add (sm_failed m) 1\<rparr>"

text \<open>
  The two checks before and after every blocking part of an attempt: the request was
  cancelled, or its deadline has passed.
\<close>

definition worker_gate :: "envelope \<Rightarrow> instant \<Rightarrow> worker_pc \<Rightarrow> managed_stream \<Rightarrow> worker_pc" where
  "worker_gate envelope now next s =
     (if load_cancelled s (ev_terminal envelope) then WFinish None
      else if ev_deadline envelope \<le> now then WFinish (Some (ResFailed service_timeout))
      else next)"

definition worker_classify ::
  "usize \<Rightarrow> managed_stream_options \<Rightarrow> envelope \<Rightarrow> usize \<Rightarrow> adapter_response \<Rightarrow> worker_pc" where
  "worker_classify vs options envelope attempt response =
     (case response of
        RespFrames frames \<Rightarrow>
          WFinish (Some (case validate_response_frames vs options frames of
                           Inr _ \<Rightarrow> ResFrames frames
                         | Inl error \<Rightarrow> ResFailed error))
      | RespFailed error \<Rightarrow> WFinish (Some (ResFailed error))
      | RespRetryable error \<Rightarrow>
          if attempt < ev_attempt_limit envelope then WAttempt (attempt + 1)
          else WFinish (Some (ResRetryable error)))"

text \<open>The end of \<open>run_request\<close> after its loop.\<close>

definition worker_finish ::
  "envelope \<Rightarrow> stream_result option \<Rightarrow> managed_stream \<Rightarrow> managed_stream \<times> worker_pc" where
  "worker_finish envelope result s =
     (case terminal_finish (ev_terminal envelope) s of
        (s, True) \<Rightarrow>
          let m = ms_metrics s;
              s = s\<lparr>ms_metrics := count_result result (m\<lparr>sm_completed := fetch_add (sm_completed m) 1\<rparr>)\<rparr>
          in (note_outcome (ev_sequence envelope) (ev_request_id envelope) result s, WPush result)
      | (s, False) \<Rightarrow>
          let m = ms_metrics s in
          (s\<lparr>ms_metrics := m\<lparr>sm_late_results_discarded := fetch_add (sm_late_results_discarded m) 1\<rparr>\<rparr>,
           WPush None))"

definition worker_completion_of :: "envelope \<Rightarrow> stream_result option \<Rightarrow> worker_completion" where
  "worker_completion_of envelope result =
     \<lparr>wc_sequence = ev_sequence envelope, wc_request_id = ev_request_id envelope, wc_result = result\<rparr>"

text \<open>
  One step of \<open>run_request\<close>: \<open>now\<close> is the reading of the clock, \<open>call\<close> how the adapter call ends.
\<close>

definition worker_step ::
  "usize \<Rightarrow> instant \<Rightarrow> adapter_call \<Rightarrow> stream_worker \<Rightarrow> managed_stream \<Rightarrow> managed_stream \<times> worker_pc" where
  "worker_step vs now call w s =
     (let envelope = wk_envelope w in
      case wk_pc w of
        WAttempt attempt \<Rightarrow>
          if ev_attempt_limit envelope < attempt then (s, WFinish None)
          else if worker_gate envelope now (WCall attempt) s = WCall attempt
          then (s\<lparr>ms_metrics := count_attempt attempt (ms_metrics s)\<rparr>,
                if 1 < attempt then WReconnect attempt else WCall attempt)
          else (s, worker_gate envelope now (WCall attempt) s)
      | WReconnect attempt \<Rightarrow> (s, worker_gate envelope now (WCall attempt) s)
      | WCall attempt \<Rightarrow> (s, WRespond attempt (adapter_outcome call))
      | WRespond attempt response \<Rightarrow>
          if worker_gate envelope now (WRespond attempt response) s = WRespond attempt response
          then (case worker_classify vs (ms_options s) envelope attempt response of
                  WAttempt a \<Rightarrow> (s\<lparr>ms_metrics := count_retry (ms_metrics s)\<rparr>, WAttempt a)
                | pc \<Rightarrow> (s, pc))
          else (s, worker_gate envelope now (WRespond attempt response) s)
      | WFinish result \<Rightarrow> worker_finish envelope result s
      | WPush result \<Rightarrow>
          if pc_locked (ms_pc s) then (s, WPush result)
          else (push_worker_completion (worker_completion_of envelope result) s, WExit)
      | WExit \<Rightarrow> (s, WDone)
      | WDone \<Rightarrow> (s, WDone))"

definition run_worker :: "usize \<Rightarrow> instant \<Rightarrow> adapter_call \<Rightarrow> nat \<Rightarrow> managed_stream \<Rightarrow> managed_stream" where
  "run_worker vs now call i s =
     (if i < length (ms_workers s)
      then let w = ms_workers s ! i in
           case worker_step vs now call w s of
             (s, pc) \<Rightarrow> s\<lparr>ms_workers := (ms_workers s)[i := w\<lparr>wk_pc := pc\<rparr>]\<rparr>
      else s)"

section \<open>The system\<close>

text \<open>
  A sequence of these operations is an interleaving of all threads. A submission is split at
  the mailbox lock; any request of the session may enter the locked section. Attempt limits
  are \<open>NonZeroUsize\<close>.
\<close>

datatype stream_op =
    OSubmitBegin async_request
  | OSubmitLocked async_request
  | OCancelLookup request_id
  | OCancelStore nat
  | OCancelFinish nat
  | ORecv
  | OStopBegin
  | OStopStep nat
  | OExec instant bool
  | OWorker nat instant adapter_call

fun stream_step :: "usize \<Rightarrow> stream_op \<Rightarrow> managed_stream \<Rightarrow> managed_stream" where
  "stream_step vs (OSubmitBegin request) s = fst (submit_begin request s)"
| "stream_step vs (OSubmitLocked request) s =
     (if pc_locked (ms_pc s) \<or> rq_session_id request \<noteq> ms_session_id s \<or> rq_attempt_limit request = 0 then s
      else fst (submit_locked request s))"
| "stream_step vs (OCancelLookup request_id) s = cancel_lookup request_id s"
| "stream_step vs (OCancelStore i) s = cancel_store i s"
| "stream_step vs (OCancelFinish i) s = fst (cancel_finish i s)"
| "stream_step vs ORecv s = (if pc_locked (ms_pc s) then s else fst (stream_try_recv s))"
| "stream_step vs OStopBegin s = stop_begin s"
| "stream_step vs (OStopStep i) s = stop_step i s"
| "stream_step vs (OExec now spawned) s = exec_step now spawned s"
| "stream_step vs (OWorker i now call) s = run_worker vs now call i s"

end
