(* ===== verification/Managed_Steps.thy ===== *)
theory Managed_Steps
  imports Managed
begin

text \<open>
  The operations of a managed stream in a form the invariants can use: each helper as one
  record update, and rules that enumerate the possible effects of a step of a worker
  (\<open>worker_step_cases\<close>), of the executor (\<open>exec_cases\<close>) and of the whole system
  (\<open>step_cases\<close>).
\<close>

section \<open>Operations as record updates\<close>

definition mark_terminal :: "nat \<Rightarrow> terminal_state list \<Rightarrow> terminal_state list" where
  "mark_terminal t ts =
     (if te_terminal (ts ! t) then ts else ts[t := (ts ! t)\<lparr>te_terminal := True, te_admission := None\<rparr>])"

definition mark_cancelled :: "nat \<Rightarrow> terminal_state list \<Rightarrow> terminal_state list" where
  "mark_cancelled t ts = ts[t := (ts ! t)\<lparr>te_cancelled := True\<rparr>]"

lemma mark_terminal_facts [simp]:
  "length (mark_terminal t ts) = length ts"
  "u < length ts \<Longrightarrow> te_terminal (mark_terminal t ts ! u) \<longleftrightarrow> te_terminal (ts ! u) \<or> u = t"
  "u < length ts \<Longrightarrow> te_cancelled (mark_terminal t ts ! u) = te_cancelled (ts ! u)"
  by (cases "t = u"; auto simp: mark_terminal_def)+

lemma mark_cancelled_facts [simp]:
  "length (mark_cancelled t ts) = length ts"
  "u < length ts \<Longrightarrow> te_cancelled (mark_cancelled t ts ! u) \<longleftrightarrow> te_cancelled (ts ! u) \<or> u = t"
  "u < length ts \<Longrightarrow> te_terminal (mark_cancelled t ts ! u) = te_terminal (ts ! u)"
  "u < length ts \<Longrightarrow> te_admission (mark_cancelled t ts ! u) = te_admission (ts ! u)"
  by (cases "t = u"; auto simp: mark_cancelled_def)+

lemma mark_terminal_admission [simp]:
  "u < length ts \<Longrightarrow> te_admission (mark_terminal t ts ! u) =
     (if u = t \<and> \<not> te_terminal (ts ! t) then None else te_admission (ts ! u))"
  by (cases "t = u"; auto simp: mark_terminal_def)

text \<open>Dropping envelopes touches the leases of terminal states that nothing else refers to.\<close>

lemma drop_leases_facts:
  "length (drop_leases alive es ts) = length ts \<and>
   (\<forall>u < length ts. te_terminal (drop_leases alive es ts ! u) = te_terminal (ts ! u) \<and>
      te_cancelled (drop_leases alive es ts ! u) = te_cancelled (ts ! u) \<and>
      te_admission (drop_leases alive es ts ! u) =
        (if \<not> alive u \<and> u \<in> ev_terminal ` set es then None else te_admission (ts ! u)))"
proof (induction es arbitrary: ts)
  case (Cons e es)
  define ts' where "ts' = (if alive (ev_terminal e) then ts
     else ts[ev_terminal e := (ts ! ev_terminal e)\<lparr>te_admission := None\<rparr>])"
  have "drop_leases alive (e # es) ts = drop_leases alive es ts'" by (simp add: drop_leases_def ts'_def)
  moreover have "length ts' = length ts" by (simp add: ts'_def)
  moreover have "te_terminal (ts' ! u) = te_terminal (ts ! u)" "te_cancelled (ts' ! u) = te_cancelled (ts ! u)"
    "te_admission (ts' ! u) = (if \<not> alive u \<and> u = ev_terminal e then None else te_admission (ts ! u))"
    if "u < length ts" for u
    using that by (cases "ev_terminal e = u"; simp add: ts'_def)+
  ultimately show ?case using Cons [of ts'] by auto
qed (simp add: drop_leases_def)

text \<open>The terminal states after the mailbox has been cleared.\<close>

definition cleared_terminals :: "managed_stream \<Rightarrow> terminal_state list" where
  "cleared_terminals s = drop_leases (arc_alive (s\<lparr>ms_input := []\<rparr>)) (ms_input s) (ms_terminals s)"

lemma cleared_terminals_simps [simp]:
  "length (cleared_terminals s) = length (ms_terminals s)"
  "u < length (ms_terminals s) \<Longrightarrow> te_terminal (cleared_terminals s ! u) = te_terminal (ms_terminals s ! u)"
  "u < length (ms_terminals s) \<Longrightarrow> te_cancelled (cleared_terminals s ! u) = te_cancelled (ms_terminals s ! u)"
  using drop_leases_facts [of "arc_alive (s\<lparr>ms_input := []\<rparr>)" "ms_input s" "ms_terminals s"]
  by (simp_all add: cleared_terminals_def)

lemma cleared_terminals_admission:
  "u < length (ms_terminals s) \<Longrightarrow> te_admission (cleared_terminals s ! u) =
     (if \<not> arc_alive (s\<lparr>ms_input := []\<rparr>) u \<and> u \<in> ev_terminal ` set (ms_input s) then None
      else te_admission (ms_terminals s ! u))"
  using drop_leases_facts [of "arc_alive (s\<lparr>ms_input := []\<rparr>)" "ms_input s" "ms_terminals s"]
  by (simp add: cleared_terminals_def)

lemma clear_input_eq:
  "clear_input (s\<lparr>ms_closed := True\<rparr>) = s\<lparr>ms_closed := True, ms_input := [], ms_terminals := cleared_terminals s\<rparr>"
proof -
  have "arc_alive (s\<lparr>ms_closed := True, ms_input := []\<rparr>) = arc_alive (s\<lparr>ms_input := []\<rparr>)"
    by (simp add: arc_alive_def fun_eq_iff)
  then show ?thesis by (simp add: clear_input_def cleared_terminals_def Let_def)
qed

definition tokens_of :: "session_id \<Rightarrow> u64 \<Rightarrow> request_id \<Rightarrow> stream_result option \<Rightarrow> (u64 \<times> stream_completion) list" where
  "tokens_of session q r res =
     (case res of
        None \<Rightarrow> []
      | Some x \<Rightarrow> [(q, \<lparr>sc_request_id = r, sc_session_id = session, sc_result = x\<rparr>)])"

lemma completion_token_eq:
  "completion_token session c = tokens_of session (wc_sequence c) (wc_request_id c) (wc_result c)"
  by (simp add: tokens_of_def completion_token_def)

lemma tokens_of_simps [simp]:
  "tokens_of session q r None = []"
  "tokens_of session q r (Some x) = [(q, \<lparr>sc_request_id = r, sc_session_id = session, sc_result = x\<rparr>)]"
  by (simp_all add: tokens_of_def)

lemma terminal_finish_eq:
  "terminal_finish t s = (s\<lparr>ms_terminals := mark_terminal t (ms_terminals s)\<rparr>, \<not> is_terminal s t)"
  by (simp add: terminal_finish_def mark_terminal_def is_terminal_def)

lemma terminal_cancel_eq:
  "terminal_cancel t s =
     (s\<lparr>ms_terminals := mark_terminal t (ms_terminals s),
        ms_metrics := (if is_terminal s t then ms_metrics s else count_cancelled (ms_metrics s))\<rparr>,
      \<not> is_terminal s t)"
  by (simp add: terminal_cancel_def terminal_finish_eq)

lemma note_outcome_eq:
  "note_outcome q r res s = s\<lparr>ms_outcomes := ms_outcomes s @ tokens_of (ms_session_id s) q r res\<rparr>"
  by (simp add: note_outcome_def stream_complete_def split: option.splits)

definition timeout_result :: "bool \<Rightarrow> stream_result option" where
  "timeout_result decided = (if decided then None else Some (ResFailed service_timeout))"

lemma terminal_timeout_eq:
  "terminal_timeout q r t s =
     (s\<lparr>ms_terminals := mark_terminal t (ms_terminals s),
        ms_metrics := (if is_terminal s t then ms_metrics s else count_timed_out (ms_metrics s)),
        ms_outcomes := ms_outcomes s @ tokens_of (ms_session_id s) q r (timeout_result (is_terminal s t))\<rparr>,
      timeout_result (is_terminal s t))"
  by (simp add: terminal_timeout_def terminal_finish_eq note_outcome_eq timeout_result_def Let_def)

lemma worker_finish_eq:
  "worker_finish e res s =
     (let won = \<not> is_terminal s (ev_terminal e); res = (if won then res else None); m = ms_metrics s in
      (s\<lparr>ms_terminals := mark_terminal (ev_terminal e) (ms_terminals s),
         ms_metrics := (if won then count_result res (m\<lparr>sm_completed := fetch_add (sm_completed m) 1\<rparr>)
           else m\<lparr>sm_late_results_discarded := fetch_add (sm_late_results_discarded m) 1\<rparr>),
         ms_outcomes := ms_outcomes s @ tokens_of (ms_session_id s) (ev_sequence e) (ev_request_id e) res\<rparr>,
       WPush res))"
  by (simp add: worker_finish_def terminal_finish_eq note_outcome_eq Let_def)

lemma push_worker_completion_eq:
  "push_worker_completion c s =
     s\<lparr>ms_worker_completions := ms_worker_completions s @ (if ms_closed s then [] else [c]),
       ms_metrics := (if ms_closed s \<and> wc_result c \<noteq> None
         then (ms_metrics s)\<lparr>sm_late_results_discarded :=
                fetch_add (sm_late_results_discarded (ms_metrics s)) 1\<rparr>
         else ms_metrics s)\<rparr>"
  by (simp add: push_worker_completion_def Let_def)

definition strict :: "managed_stream \<Rightarrow> bool" where
  "strict s \<longleftrightarrow> mo_ordering (ms_options s) = StrictOrder"

definition unresolved :: "managed_stream \<Rightarrow> u64 \<Rightarrow> bool" where
  "unresolved s q \<longleftrightarrow> ms_next_delivery s \<le> q \<and> bt_get (ms_ordered s) q = None"

definition put_ordered ::
  "bool \<Rightarrow> u64 \<Rightarrow> request_id \<Rightarrow> stream_result option \<Rightarrow> (u64, ordered_resolution) btree \<Rightarrow> (u64, ordered_resolution) btree" where
  "put_ordered b q r res m =
     (if b then bt_insert q \<lparr>or_request_id = r, or_result = res\<rparr> m else m)"

lemma exec_resolve_eq:
  "exec_resolve c s =
     (let tok = completion_token (ms_session_id s) c in
      s\<lparr>ms_ordered := put_ordered (strict s \<and> unresolved s (wc_sequence c)) (wc_sequence c)
           (wc_request_id c) (wc_result c) (ms_ordered s),
        ms_relaxed := ms_relaxed s @ (if strict s then [] else tok),
        ms_lost := ms_lost s @ (if strict s \<and> \<not> unresolved s (wc_sequence c) then tok else [])\<rparr>)"
  by (simp add: exec_resolve_def put_ordered_def insert_ordered_def push_relaxed_def strict_def
      unresolved_def stream_complete_def completion_token_eq Let_def split: delivery_ordering.splits option.splits)

lemma exec_tombstone_eq:
  "exec_tombstone q r s =
     s\<lparr>ms_ordered := put_ordered (strict s \<and> unresolved s q) q r None (ms_ordered s)\<rparr>"
  by (simp add: exec_tombstone_def put_ordered_def insert_ordered_def strict_def unresolved_def)

lemma exec_timeout_eq:
  "exec_timeout q r s =
     (let done = is_terminal s (aq_terminal r); res = timeout_result done;
          tok = tokens_of (ms_session_id s) q (aq_request_id r) res in
      s\<lparr>ms_terminals := mark_terminal (aq_terminal r) (ms_terminals s),
        ms_metrics := (if done then ms_metrics s else count_timed_out (ms_metrics s)),
        ms_outcomes := ms_outcomes s @ tok,
        ms_ordered := put_ordered (strict s \<and> \<not> done \<and> bt_get (ms_ordered s) q = None) q
           (aq_request_id r) res (ms_ordered s),
        ms_relaxed := ms_relaxed s @ (if strict s then [] else tok)\<rparr>)"
  by (simp add: exec_timeout_def terminal_timeout_eq put_ordered_def insert_ordered_def push_relaxed_def
      strict_def stream_complete_def timeout_result_def Let_def
      split: delivery_ordering.splits option.splits)

lemma exec_expire_eq:
  "exec_expire e launches s =
     (let done = is_terminal s (ev_terminal e); res = timeout_result done;
          tok = tokens_of (ms_session_id s) (ev_sequence e) (ev_request_id e) res in
      s\<lparr>ms_terminals := mark_terminal (ev_terminal e) (ms_terminals s),
        ms_metrics := (if done then ms_metrics s else count_timed_out (ms_metrics s)),
        ms_outcomes := ms_outcomes s @ tok,
        ms_registrations := bt_remove (ev_request_id e) (ms_registrations s),
        ms_ordered := put_ordered (strict s) (ev_sequence e) (ev_request_id e) res (ms_ordered s),
        ms_relaxed := ms_relaxed s @ (if strict s then [] else tok),
        ms_pc := ELaunch launches True\<rparr>)"
  by (simp add: exec_expire_def terminal_timeout_eq put_ordered_def insert_ordered_def push_relaxed_def
      strict_def stream_complete_def timeout_result_def remove_registration_def set_pc_def Let_def
      split: delivery_ordering.splits option.splits)

lemma exec_spawn_eq:
  "exec_spawn spawned e rest s =
     (let done = is_terminal s (ev_terminal e);
          res = (if done then None else Some (ResFailed service_worker_start)) in
      if spawned
      then s\<lparr>ms_workers := ms_workers s @ [\<lparr>wk_envelope = e, wk_pc = WAttempt 1\<rparr>], ms_pc := ESpawn rest\<rparr>
      else s\<lparr>ms_terminals := mark_terminal (ev_terminal e) (ms_terminals s),
             ms_metrics := (if done then ms_metrics s else count_spawn_failure (ms_metrics s)),
             ms_outcomes := ms_outcomes s @ tokens_of (ms_session_id s) (ev_sequence e) (ev_request_id e) res,
             ms_pc := ESpawnFailed (worker_completion_of e res) rest\<rparr>)"
  by (simp add: exec_spawn_def terminal_finish_eq note_outcome_eq worker_completion_of_def set_pc_def Let_def)

definition same_threads :: "managed_stream \<Rightarrow> managed_stream \<Rightarrow> bool" where
  "same_threads s t \<longleftrightarrow>
     (\<exists>r m p x q d. t = s\<lparr>ms_results := r, ms_metrics := m, ms_published := p, ms_relaxed := x,
        ms_ordered := q, ms_next_delivery := d\<rparr>)"

lemma same_threads_self: "same_threads s s"
proof -
  have "s = s\<lparr>ms_results := ms_results s, ms_metrics := ms_metrics s, ms_published := ms_published s,
    ms_relaxed := ms_relaxed s, ms_ordered := ms_ordered s, ms_next_delivery := ms_next_delivery s\<rparr>" by simp
  then show ?thesis unfolding same_threads_def by blast
qed

lemma same_threads_trans: "same_threads s t \<Longrightarrow> same_threads t u \<Longrightarrow> same_threads s u"
  unfolding same_threads_def by force

lemma same_threads_updates:
  "same_threads s (publish_result q c s)" "same_threads s (count_backpressure s)"
  "same_threads s (s\<lparr>ms_relaxed := x\<rparr>)" "same_threads s (advance_delivery res s)"
  "same_threads s (s\<lparr>ms_metrics := m\<rparr>)"
  unfolding same_threads_def
  by (cases s, auto simp: publish_result_def count_backpressure_def advance_delivery_def Let_def
      split: option.splits)+

lemma move_relaxed_same: "same_threads s (move_relaxed xs s)"
  by (induction xs s rule: move_relaxed.induct)
     (auto intro: same_threads_updates same_threads_trans)

lemma deliver_strict_same: "same_threads s (deliver_strict s)"
proof (induction s rule: deliver_strict.induct)
  case (1 s)
  then show ?case
    by (subst deliver_strict.simps)
       (auto intro: same_threads_updates same_threads_trans same_threads_self split: option.splits)
qed

lemma deliver_relaxed_same: "same_threads s (deliver_relaxed s)"
  by (auto simp: deliver_relaxed_def Let_def
      intro: same_threads_trans [OF move_relaxed_same same_threads_updates(2)] move_relaxed_same)

lemma exec_deliver_same: "same_threads s (exec_deliver s)"
  unfolding exec_deliver_def Let_def
  by (rule same_threads_trans [OF _ same_threads_updates(5)])
     (auto intro: deliver_relaxed_same same_threads_trans [OF deliver_relaxed_same deliver_strict_same])

lemma exec_deliver_fields [simp]:
  "ms_session_id (exec_deliver s) = ms_session_id s" "ms_options (exec_deliver s) = ms_options s"
  "ms_input (exec_deliver s) = ms_input s" "ms_closed (exec_deliver s) = ms_closed s"
  "ms_worker_completions (exec_deliver s) = ms_worker_completions s"
  "ms_registrations (exec_deliver s) = ms_registrations s"
  "ms_next_sequence (exec_deliver s) = ms_next_sequence s"
  "ms_lifecycle (exec_deliver s) = ms_lifecycle s" "ms_executor_done (exec_deliver s) = ms_executor_done s"
  "ms_terminals (exec_deliver s) = ms_terminals s" "ms_active (exec_deliver s) = ms_active s"
  "ms_pc (exec_deliver s) = ms_pc s" "ms_workers (exec_deliver s) = ms_workers s"
  "ms_cancels (exec_deliver s) = ms_cancels s" "ms_stop (exec_deliver s) = ms_stop s"
  "ms_accepted (exec_deliver s) = ms_accepted s" "ms_outcomes (exec_deliver s) = ms_outcomes s"
  "ms_received (exec_deliver s) = ms_received s" "ms_lost (exec_deliver s) = ms_lost s"
  using exec_deliver_same [of s] unfolding same_threads_def by auto

section \<open>Worker steps\<close>

fun pushed :: "worker_pc \<Rightarrow> stream_result option list" where
  "pushed (WPush res) = [res]"
| "pushed _ = []"

definition running :: "worker_pc \<Rightarrow> bool" where
  "running pc \<longleftrightarrow> pc \<noteq> WExit \<and> pc \<noteq> WDone"

text \<open>
  An attempt never exceeds the limit of its request, and a worker gives up without a result
  only when the request was cancelled.
\<close>

fun attempt_ok :: "usize \<Rightarrow> bool \<Rightarrow> worker_pc \<Rightarrow> bool" where
  "attempt_ok limit cancelled (WAttempt a) = (a \<le> limit)"
| "attempt_ok limit cancelled (WReconnect a) = (a \<le> limit)"
| "attempt_ok limit cancelled (WCall a) = (a \<le> limit)"
| "attempt_ok limit cancelled (WRespond a _) = (a \<le> limit)"
| "attempt_ok limit cancelled (WFinish None) = cancelled"
| "attempt_ok limit cancelled _ = True"

definition worker_ok :: "managed_stream \<Rightarrow> stream_worker \<Rightarrow> bool" where
  "worker_ok s w \<longleftrightarrow>
     attempt_ok (ev_attempt_limit (wk_envelope w)) (load_cancelled s (ev_terminal (wk_envelope w))) (wk_pc w)"

lemma worker_classify_ok:
  "a \<le> ev_attempt_limit e \<Longrightarrow> attempt_ok (ev_attempt_limit e) c (worker_classify vs opt e a resp)"
  by (auto simp: worker_classify_def split: adapter_response.splits sum.splits)

lemma worker_gate_ok:
  "attempt_ok (ev_attempt_limit e) (load_cancelled s (ev_terminal e)) p \<Longrightarrow>
   attempt_ok (ev_attempt_limit e) (load_cancelled s (ev_terminal e)) (worker_gate e now p s)"
  by (cases "load_cancelled s (ev_terminal e)") (simp_all add: worker_gate_def)

lemma worker_step_ok:
  assumes "worker_ok s w" "worker_step vs now call w s = (s', pc)"
  shows "worker_ok s (w\<lparr>wk_pc := pc\<rparr>)"
proof (cases "wk_pc w")
  case (WRespond a resp)
  with assms(2) have "pc = worker_classify vs (ms_options s) (wk_envelope w) a resp \<or>
      pc = worker_gate (wk_envelope w) now (WRespond a resp) s"
    by (auto simp: worker_step_def Let_def split: if_splits worker_pc.splits)
  with WRespond assms(1) worker_gate_ok [of "wk_envelope w" s "WRespond a resp" now] show ?thesis
    by (auto simp: worker_ok_def worker_classify_ok)
next
  case (WFinish res)
  with assms show ?thesis
    by (auto simp: worker_ok_def worker_step_def worker_finish_def Let_def split: prod.splits bool.splits)
next
  case (WPush res)
  with assms have "pc = WPush res \<or> pc = WExit" by (auto simp: worker_step_def split: if_splits)
  then show ?thesis by (auto simp: worker_ok_def)
qed (use assms worker_gate_ok in \<open>auto simp: worker_ok_def worker_step_def Let_def split: if_splits\<close>)

text \<open>
  A step of a worker is quiet, decides the terminal state, or hands its completion over. Quiet
  steps change nothing but metrics.
\<close>

lemma worker_gate_quiet:
  "pushed pc = [] \<Longrightarrow> pushed (worker_gate e now pc s) = []"
  "running pc \<Longrightarrow> running (worker_gate e now pc s)"
  by (simp_all add: worker_gate_def running_def)

lemma worker_classify_cases:
  obtains a where "worker_classify vs opt e n resp = WAttempt a"
  | res where "worker_classify vs opt e n resp = WFinish res"
  by (fastforce simp: worker_classify_def split: adapter_response.splits sum.splits if_splits)

lemma worker_classify_quiet [simp]:
  "pushed (worker_classify vs opt e n resp) = []" "running (worker_classify vs opt e n resp)"
  by (cases rule: worker_classify_cases [of vs opt e n resp]; simp add: running_def)+

lemma worker_step_cases:
  assumes "worker_step vs now call w s = (s', pc)"
  obtains (quiet) m where "s' = s\<lparr>ms_metrics := m\<rparr>" "pushed pc = pushed (wk_pc w)"
      "running pc = running (wk_pc w)" "wk_pc w = WDone \<Longrightarrow> pc = WDone" "sm_completed m = sm_completed (ms_metrics s)"
      "sm_succeeded m = sm_succeeded (ms_metrics s)" "sm_failed m = sm_failed (ms_metrics s)"
      "sm_retry_exhausted m = sm_retry_exhausted (ms_metrics s)"
      "sm_timed_out m = sm_timed_out (ms_metrics s)" "sm_cancelled m = sm_cancelled (ms_metrics s)"
  | (finish) res where "wk_pc w = WFinish res" "worker_finish (wk_envelope w) res s = (s', pc)"
  | (push) res where "wk_pc w = WPush res" "\<not> pc_locked (ms_pc s)" "pc = WExit"
      "s' = push_worker_completion (worker_completion_of (wk_envelope w) res) s"
proof (cases "wk_pc w")
  case (WAttempt a)
  with assms show ?thesis
    by (intro quiet [of "ms_metrics s'"])
       (auto simp: worker_step_def Let_def running_def count_attempt_def worker_gate_def split: if_splits)
next
  case (WReconnect a)
  with assms show ?thesis
    by (intro quiet [of "ms_metrics s'"])
       (auto simp: worker_step_def Let_def running_def worker_gate_def split: if_splits)
next
  case (WRespond a resp)
  have "running (WRespond a resp)" by (simp add: running_def)
  with worker_gate_quiet [of "WRespond a resp" "wk_envelope w" now s]
  have g: "pushed (worker_gate (wk_envelope w) now (WRespond a resp) s) = []"
    "running (worker_gate (wk_envelope w) now (WRespond a resp) s)" by simp_all
  show ?thesis
  proof (cases rule: worker_classify_cases [of vs "ms_options s" "wk_envelope w" a resp])
    case (1 b)
    with assms WRespond g show ?thesis
      by (intro quiet [of "ms_metrics s'"])
         (auto simp: worker_step_def Let_def running_def count_retry_def dest: sym split: if_splits)
  next
    case (2 res)
    with assms WRespond g show ?thesis
      by (intro quiet [of "ms_metrics s'"]) (auto simp: worker_step_def Let_def running_def split: if_splits)
  qed
next
  case (WPush res)
  show ?thesis
  proof (cases "pc_locked (ms_pc s)")
    case True
    with WPush assms show ?thesis by (intro quiet [of "ms_metrics s'"]) (auto simp: worker_step_def Let_def)
  next
    case False
    with WPush assms show ?thesis by (intro push [of res]) (auto simp: worker_step_def Let_def)
  qed
next
  case (WCall a)
  with assms show ?thesis
    by (intro quiet [of "ms_metrics s'"]) (auto simp: worker_step_def running_def)
next
  case (WFinish res)
  with assms show ?thesis by (intro finish [of res]) (auto simp: worker_step_def)
next
  case WExit
  with assms show ?thesis
    by (intro quiet [of "ms_metrics s'"]) (auto simp: worker_step_def running_def)
next
  case WDone
  with assms show ?thesis
    by (intro quiet [of "ms_metrics s'"]) (auto simp: worker_step_def running_def)
qed

section \<open>Executor steps\<close>

text \<open>Metrics that no invariant reads; the counters of decided requests are kept.\<close>

definition same_counters :: "stream_metrics \<Rightarrow> stream_metrics \<Rightarrow> bool" where
  "same_counters m k \<longleftrightarrow>
     sm_completed k = sm_completed m \<and> sm_succeeded k = sm_succeeded m \<and> sm_failed k = sm_failed m \<and>
     sm_retry_exhausted k = sm_retry_exhausted m \<and> sm_timed_out k = sm_timed_out m \<and>
     sm_cancelled k = sm_cancelled m"

lemma exec_cases:
  obtains (leave) "ms_pc s = EDrain \<or> (\<exists>had. ms_pc s = EMailbox had)" "ms_closed s"
      "exec_step now spawned s = s\<lparr>ms_pc := EExit\<rparr>"
  | (drain) had where "ms_pc s = EDrain" "\<not> ms_closed s"
      "exec_step now spawned s =
         s\<lparr>ms_worker_completions := [], ms_pc := EComplete (ms_worker_completions s) had\<rparr>"
  | (scan) had where "ms_pc s = EComplete [] had"
      "exec_step now spawned s = s\<lparr>ms_pc := EScan now (ms_active s) had\<rparr>"
  | (complete) c cs had m where "ms_pc s = EComplete (c # cs) had" "same_counters (ms_metrics s) m"
      "exec_step now spawned s = s\<lparr>ms_active := bt_remove (wc_sequence c) (ms_active s),
         ms_metrics := m, ms_pc := EUnregister c cs had\<rparr>"
  | (resolve) c cs had where "ms_pc s = EUnregister c cs had"
      "exec_step now spawned s = exec_resolve c
         (s\<lparr>ms_registrations := bt_remove (wc_request_id c) (ms_registrations s)\<rparr>)\<lparr>ms_pc := EComplete cs had\<rparr>"
  | (scan_end) at had where "ms_pc s = EScan at [] had"
      "exec_step now spawned s = s\<lparr>ms_pc := EMailbox had\<rparr>"
  | (tombstone) at q r rest had where "ms_pc s = EScan at ((q, r) # rest) had"
      "load_cancelled s (aq_terminal r)"
      "exec_step now spawned s = exec_tombstone q (aq_request_id r) s\<lparr>ms_pc := EScan at rest had\<rparr>"
  | (expired) at q r rest had where "ms_pc s = EScan at ((q, r) # rest) had"
      "\<not> load_cancelled s (aq_terminal r)"
      "exec_step now spawned s = s\<lparr>ms_pc := ETimeout q r at rest had\<rparr>"
  | (skip) at q r rest had where "ms_pc s = EScan at ((q, r) # rest) had"
      "exec_step now spawned s = s\<lparr>ms_pc := EScan at rest had\<rparr>"
  | (time_out) q r at rest had where "ms_pc s = ETimeout q r at rest had"
      "exec_step now spawned s = exec_timeout q r s\<lparr>ms_pc := EScan at rest had\<rparr>"
  | (deliver) had progress where "ms_pc s = EMailbox had" "\<not> ms_closed s"
      "exec_step now spawned s = exec_deliver s\<lparr>ms_pc := ELaunch [] progress\<rparr>"
  | (launched) launches progress pc where "ms_pc s = ELaunch launches progress"
      "pc = ESpawn launches \<or> launches = [] \<and> (pc = EDrain \<or> pc = EWait)"
      "exec_step now spawned s = s\<lparr>ms_pc := pc\<rparr>"
  | (launch_cancelled) launches progress e rest m where "ms_pc s = ELaunch launches progress"
      "length (ms_active s) + buffered_not_active s < mo_max_in_flight (ms_options s)"
      "ms_input s = e # rest" "load_cancelled s (ev_terminal e)" "same_counters (ms_metrics s) m"
      "exec_step now spawned s = s\<lparr>ms_input := rest, ms_metrics := m,
         ms_registrations := bt_remove (ev_request_id e) (ms_registrations s),
         ms_ordered := put_ordered (strict s) (ev_sequence e) (ev_request_id e) None (ms_ordered s),
         ms_pc := ELaunch launches True\<rparr>"
  | (launch_expired) launches progress e rest m where "ms_pc s = ELaunch launches progress"
      "length (ms_active s) + buffered_not_active s < mo_max_in_flight (ms_options s)"
      "ms_input s = e # rest" "same_counters (ms_metrics s) m"
      "exec_step now spawned s = s\<lparr>ms_input := rest, ms_metrics := m, ms_pc := EExpire e launches\<rparr>"
  | (launch) launches progress e rest m where "ms_pc s = ELaunch launches progress"
      "length (ms_active s) + buffered_not_active s < mo_max_in_flight (ms_options s)"
      "ms_input s = e # rest" "same_counters (ms_metrics s) m"
      "exec_step now spawned s = s\<lparr>ms_input := rest, ms_metrics := m,
         ms_active := bt_insert (ev_sequence e) \<lparr>aq_request_id = ev_request_id e,
           aq_deadline = ev_deadline e, aq_terminal = ev_terminal e\<rparr> (ms_active s),
         ms_pc := ELaunch (launches @ [e]) True\<rparr>"
  | (expire) e launches where "ms_pc s = EExpire e launches"
      "exec_step now spawned s = exec_expire e launches s"
  | (again) "ms_pc s = EWait \<or> ms_pc s = ESpawn []" "exec_step now spawned s = s\<lparr>ms_pc := EDrain\<rparr>"
  | (spawn) e rest where "ms_pc s = ESpawn (e # rest)"
      "exec_step now spawned s = exec_spawn spawned e rest s"
  | (push_failed) c rest where "ms_pc s = ESpawnFailed c rest"
      "exec_step now spawned s = push_worker_completion c s\<lparr>ms_pc := ESpawn rest\<rparr>"
  | (exit) "ms_pc s = EExit" "exec_step now spawned s = exec_exit s"
  | (idle) "ms_pc s = EDone" "exec_step now spawned s = s"
proof (cases "ms_pc s")
  case EDrain
  show ?thesis
  proof (cases "ms_closed s")
    case True
    with EDrain show ?thesis by (intro leave) (simp_all add: exec_step_def exec_drain_def set_pc_def)
  next
    case False
    with EDrain show ?thesis
      by (intro drain [of "ms_worker_completions s \<noteq> []"]) (simp_all add: exec_step_def exec_drain_def set_pc_def)
  qed
next
  case (EComplete l had)
  show ?thesis
  proof (cases l)
    case Nil
    with EComplete show ?thesis by (intro scan [of had]) (simp_all add: exec_step_def set_pc_def)
  next
    case (Cons c cs)
    with EComplete show ?thesis
      by (intro complete [of c cs had "ms_metrics (exec_step now spawned s)"])
         (simp_all add: exec_step_def exec_complete_def store_active_requests_def set_pc_def same_counters_def)
  qed
next
  case (EUnregister c cs had)
  then show ?thesis
    by (intro resolve [of c cs had]) (simp_all add: exec_step_def remove_registration_def set_pc_def)
next
  case (EScan at l had)
  show ?thesis
  proof (cases l)
    case Nil
    with EScan show ?thesis by (intro scan_end [of at had]) (simp_all add: exec_step_def set_pc_def)
  next
    case (Cons x rest)
    obtain q r where x: "x = (q, r)" by (rule prod.exhaust)
    consider (a) "load_cancelled s (aq_terminal r)" | (b) "\<not> load_cancelled s (aq_terminal r)" "aq_deadline r \<le> at"
      | (c) "\<not> load_cancelled s (aq_terminal r)" "\<not> aq_deadline r \<le> at" by blast
    then show ?thesis
    proof cases
      case a
      with EScan Cons x show ?thesis
        by (intro tombstone [of at q r rest had]) (simp_all add: exec_step_def set_pc_def)
    next
      case b
      with EScan Cons x show ?thesis
        by (intro expired [of at q r rest had]) (simp_all add: exec_step_def set_pc_def)
    next
      case c
      with EScan Cons x show ?thesis
        by (intro skip [of at q r rest had]) (simp_all add: exec_step_def set_pc_def)
    qed
  qed
next
  case (ETimeout q r at rest had)
  then show ?thesis by (intro time_out [of q r at rest had]) (simp_all add: exec_step_def set_pc_def)
next
  case (EMailbox had)
  show ?thesis
  proof (cases "ms_closed s")
    case True
    with EMailbox show ?thesis by (intro leave) (simp_all add: exec_step_def exec_mailbox_def set_pc_def)
  next
    case False
    with EMailbox show ?thesis
      by (intro deliver [of had "case ms_pc (exec_step now spawned s) of ELaunch _ p \<Rightarrow> p | _ \<Rightarrow> False"])
         (simp_all add: exec_step_def exec_mailbox_def set_pc_def Let_def)
  qed
next
  case (ELaunch launches progress)
  have finish: thesis if "exec_step now spawned s = exec_launch_end launches progress s"
    using ELaunch that
    by (intro launched [of launches progress "ms_pc (exec_step now spawned s)"])
       (simp_all add: exec_launch_end_def set_pc_def)
  show ?thesis
  proof (cases "ms_input s")
    case Nil
    with ELaunch show ?thesis by (intro finish) (simp add: exec_step_def exec_launch_def)
  next
    case (Cons e rest)
    show ?thesis
    proof (cases "length (ms_active s) + buffered_not_active s < mo_max_in_flight (ms_options s)")
      case True
      let ?m = "ms_metrics (exec_step now spawned s)"
      note run = exec_step_def exec_launch_def set_pc_def remove_registration_def insert_ordered_def
        exec_start_def put_ordered_def strict_def load_cancelled_def Let_def
      have m: "same_counters (ms_metrics s) ?m"
        using ELaunch Cons True by (simp add: run same_counters_def)
      consider (a) "load_cancelled s (ev_terminal e)" | (b) "\<not> load_cancelled s (ev_terminal e)" "ev_deadline e \<le> now"
        | (c) "\<not> load_cancelled s (ev_terminal e)" "\<not> ev_deadline e \<le> now" by blast
      then show ?thesis
      proof cases
        case a
        with ELaunch Cons True m show ?thesis
          by (intro launch_cancelled [of launches progress e rest ?m]) (simp_all add: run)
      next
        case b
        with ELaunch Cons True m show ?thesis
          by (intro launch_expired [of launches progress e rest ?m]) (simp_all add: run)
      next
        case c
        with ELaunch Cons True m show ?thesis
          by (intro launch [of launches progress e rest ?m]) (simp_all add: run)
      qed
    next
      case False
      with ELaunch show ?thesis by (intro finish) (simp add: exec_step_def exec_launch_def)
    qed
  qed
next
  case (EExpire e launches)
  then show ?thesis by (intro expire [of e launches]) (simp_all add: exec_step_def)
next
  case EWait
  then show ?thesis by (intro again) (simp_all add: exec_step_def set_pc_def)
next
  case (ESpawn l)
  show ?thesis
  proof (cases l)
    case Nil
    with ESpawn show ?thesis by (intro again) (simp_all add: exec_step_def set_pc_def)
  next
    case (Cons e rest)
    with ESpawn show ?thesis by (intro spawn [of e rest]) (simp_all add: exec_step_def)
  qed
next
  case (ESpawnFailed c rest)
  then show ?thesis by (intro push_failed [of c rest]) (simp_all add: exec_step_def set_pc_def)
next
  case EExit
  then show ?thesis by (intro exit) (simp_all add: exec_step_def)
next
  case EDone
  then show ?thesis by (intro idle) (simp_all add: exec_step_def)
qed

section \<open>Steps of the system\<close>

lemma same_counters_refl [simp]: "same_counters m m"
  by (simp add: same_counters_def)

abbreviation with_pc :: "stream_worker \<Rightarrow> worker_pc \<Rightarrow> stream_worker" where
  "with_pc w pc \<equiv> w\<lparr>wk_pc := pc\<rparr>"

lemma step_cases:
  obtains (quiet) m where "same_counters (ms_metrics s) m" "stream_step vs a s = s\<lparr>ms_metrics := m\<rparr>"
  | (accept) request m where "\<not> ms_closed s" "\<not> pc_locked (ms_pc s)"
      "length (ms_input s) \<noteq> mo_input_capacity (ms_options s)" "rq_session_id request = ms_session_id s" "0 < rq_attempt_limit request"
      "registered s (rq_request_id request) = None" "same_counters (ms_metrics s) m"
      "stream_step vs a s =
         (let t = length (ms_terminals s); e = envelope_of request (ms_next_sequence s) t in
          s\<lparr>ms_terminals := ms_terminals s @ [terminal_new request],
            ms_registrations := bt_insert (rq_request_id request) t (ms_registrations s),
            ms_next_sequence := fetch_add (ms_next_sequence s) 1, ms_input := ms_input s @ [e],
            ms_metrics := m, ms_accepted := ms_accepted s @ [e]\<rparr>)"
  | (lookup) r t where "registered s r = Some t"
      "stream_step vs a s = s\<lparr>ms_cancels := ms_cancels s @ [(t, False)]\<rparr>"
  | (flag) i t where "i < length (ms_cancels s)" "ms_cancels s ! i = (t, False)"
      "stream_step vs a s = s\<lparr>ms_terminals := mark_cancelled t (ms_terminals s),
         ms_cancels := (ms_cancels s)[i := (t, True)]\<rparr>"
  | (cancel) i t where "i < length (ms_cancels s)" "ms_cancels s ! i = (t, True)"
      "stream_step vs a s = fst (terminal_cancel t (s\<lparr>ms_cancels := remove_nth i (ms_cancels s)\<rparr>))"
  | (recv) x rest m where "ms_results s = x # rest" "\<not> pc_locked (ms_pc s)" "same_counters (ms_metrics s) m"
      "stream_step vs a s = s\<lparr>ms_results := rest, ms_metrics := m, ms_received := ms_received s @ [x]\<rparr>"
  | (stopping) "ms_lifecycle s = 0" "stream_step vs a s = s\<lparr>ms_lifecycle := 1, ms_stop := StopLock\<rparr>"
  | (close) m where "ms_stop s = StopLock" "\<not> pc_locked (ms_pc s)" "same_counters (ms_metrics s) m"
      "stream_step vs a s = s\<lparr>ms_closed := True, ms_input := [], ms_worker_completions := [],
         ms_results := [], ms_metrics := m, ms_stop := StopCollect,
         ms_terminals := cleared_terminals s\<rparr>"
  | (collect) "ms_stop s = StopCollect" "stream_step vs a s = stop_collect s"
  | (stop_flag) i ts where "ms_stop s = StopCancel ts" "i < length ts"
      "stream_step vs a s = s\<lparr>ms_terminals := mark_cancelled (ts ! i) (ms_terminals s),
         ms_stop := StopFinish (ts ! i) (remove_nth i ts)\<rparr>"
  | (stop_cancel) t ts where "ms_stop s = StopFinish t ts"
      "stream_step vs a s = fst (terminal_cancel t (s\<lparr>ms_stop := StopCancel ts\<rparr>))"
  | (stopped) "ms_stop s = StopCancel []" "stream_step vs a s = s\<lparr>ms_stop := StopDone\<rparr>"
  | (exec) now spawned where "stream_step vs a s = exec_step now spawned s"
  | (work) i pc m where "i < length (ms_workers s)" "pushed pc = pushed (wk_pc (ms_workers s ! i))"
      "running pc = running (wk_pc (ms_workers s ! i))" "same_counters (ms_metrics s) m"
      "wk_pc (ms_workers s ! i) = WDone \<Longrightarrow> pc = WDone"
      "worker_ok s (ms_workers s ! i) \<Longrightarrow> worker_ok s (with_pc (ms_workers s ! i) pc)"
      "stream_step vs a s =
         s\<lparr>ms_metrics := m, ms_workers := (ms_workers s)[i := with_pc (ms_workers s ! i) pc]\<rparr>"
  | (decide) i res s' pc where "i < length (ms_workers s)" "wk_pc (ms_workers s ! i) = WFinish res"
      "worker_finish (wk_envelope (ms_workers s ! i)) res s = (s', pc)"
      "stream_step vs a s = s'\<lparr>ms_workers := (ms_workers s)[i := with_pc (ms_workers s ! i) pc]\<rparr>"
  | (hand_over) i res where "i < length (ms_workers s)" "wk_pc (ms_workers s ! i) = WPush res"
      "\<not> pc_locked (ms_pc s)"
      "stream_step vs a s = push_worker_completion (worker_completion_of (wk_envelope (ms_workers s ! i)) res) s
         \<lparr>ms_workers := (ms_workers s)[i := with_pc (ms_workers s ! i) WExit]\<rparr>"
proof -
  have still: thesis if "stream_step vs a s = s"
    by (rule quiet [of "ms_metrics s"]) (simp_all add: that)
  show thesis
  proof (cases a)
    case (OSubmitBegin request)
    then show thesis
      by (intro quiet [of "ms_metrics (stream_step vs a s)"])
         (simp_all add: submit_begin_def same_counters_def Let_def)
  next
    case (OSubmitLocked request)
    consider "pc_locked (ms_pc s) \<or> rq_session_id request \<noteq> ms_session_id s \<or> rq_attempt_limit request = 0 \<or> ms_closed s \<or>
        registered s (rq_request_id request) \<noteq> None \<and> length (ms_input s) \<noteq> mo_input_capacity (ms_options s)"
      | "\<not> pc_locked (ms_pc s)" "rq_session_id request = ms_session_id s" "0 < rq_attempt_limit request" "\<not> ms_closed s"
        "length (ms_input s) = mo_input_capacity (ms_options s)"
      | "\<not> pc_locked (ms_pc s)" "rq_session_id request = ms_session_id s" "0 < rq_attempt_limit request" "\<not> ms_closed s"
        "length (ms_input s) \<noteq> mo_input_capacity (ms_options s)"
        "registered s (rq_request_id request) = None" by blast
    then show thesis
    proof cases
      case 1
      with OSubmitLocked show thesis by (intro still) (auto simp: submit_locked_def)
    next
      case 2
      with OSubmitLocked show thesis
        by (intro quiet [of "ms_metrics (stream_step vs a s)"])
           (simp_all add: submit_locked_def same_counters_def)
    next
      case 3
      with OSubmitLocked show thesis
        by (intro accept [of request "count_accepted (ms_metrics s)"])
           (simp_all add: submit_locked_def same_counters_def count_accepted_def Let_def)
    qed
  next
    case (OCancelLookup r)
    show thesis
    proof (cases "registered s r")
      case None
      with OCancelLookup show thesis by (intro still) (simp add: cancel_lookup_def)
    next
      case (Some t)
      with OCancelLookup show thesis by (intro lookup [of r t]) (simp_all add: cancel_lookup_def)
    qed
  next
    case (OCancelStore i)
    show thesis
    proof (cases "i < length (ms_cancels s) \<and> \<not> snd (ms_cancels s ! i)")
      case True
      with OCancelStore show thesis
        by (intro flag [of i "fst (ms_cancels s ! i)"])
           (simp_all add: cancel_store_def store_cancelled_def mark_cancelled_def prod_eq_iff)
    next
      case False
      with OCancelStore show thesis by (intro still) (auto simp: cancel_store_def)
    qed
  next
    case (OCancelFinish i)
    show thesis
    proof (cases "i < length (ms_cancels s) \<and> snd (ms_cancels s ! i)")
      case True
      with OCancelFinish show thesis
        by (intro cancel [of i "fst (ms_cancels s ! i)"])
           (simp_all add: cancel_finish_def prod_eq_iff split: prod.splits)
    next
      case False
      with OCancelFinish show thesis by (intro still) (auto simp: cancel_finish_def)
    qed
  next
    case ORecv
    show thesis
    proof (cases "ms_results s = [] \<or> pc_locked (ms_pc s)")
      case True
      with ORecv show thesis by (intro still) (auto simp: stream_try_recv_def)
    next
      case False
      then obtain x rest where "ms_results s = x # rest" by (cases "ms_results s") auto
      with ORecv False show thesis
        by (intro recv [of x rest "ms_metrics (stream_step vs a s)"])
           (simp_all add: stream_try_recv_def same_counters_def)
    qed
  next
    case OStopBegin
    show thesis
    proof (cases "ms_lifecycle s = 0")
      case True
      with OStopBegin show thesis by (intro stopping) (simp_all add: stop_begin_def)
    next
      case False
      with OStopBegin show thesis by (intro still) (simp add: stop_begin_def)
    qed
  next
    case (OStopStep i)
    show thesis
    proof (cases "ms_stop s")
      case StopLock
      show thesis
      proof (cases "pc_locked (ms_pc s)")
        case True
        with OStopStep StopLock show thesis by (intro still) (simp add: stop_step_def)
      next
        case False
        with OStopStep StopLock show thesis
          by (intro close [of "ms_metrics (stream_step vs a s)"])
             (simp_all add: stop_step_def stop_close_def clear_input_eq same_counters_def Let_def)
      qed
    next
      case StopCollect
      with OStopStep show thesis by (intro collect) (simp_all add: stop_step_def)
    next
      case (StopCancel ts)
      consider "ts = []" | "ts \<noteq> []" "i < length ts" | "ts \<noteq> []" "\<not> i < length ts" by blast
      then show thesis
      proof cases
        case 1
        with OStopStep StopCancel show thesis by (intro stopped) (simp_all add: stop_step_def)
      next
        case 2
        with OStopStep StopCancel show thesis
          by (intro stop_flag [of ts i]) (simp_all add: stop_step_def store_cancelled_def mark_cancelled_def)
      next
        case 3
        with OStopStep StopCancel show thesis by (intro still) (simp add: stop_step_def)
      qed
    next
      case (StopFinish t ts)
      with OStopStep show thesis by (intro stop_cancel [of t ts]) (simp_all add: stop_step_def)
    qed (use OStopStep still in \<open>simp_all add: stop_step_def\<close>)
  next
    case (OExec now spawned)
    then show thesis by (intro exec [of now spawned]) simp
  next
    case (OWorker i now call)
    show thesis
    proof (cases "i < length (ms_workers s)")
      case False
      with OWorker show thesis by (intro still) (simp add: run_worker_def)
    next
      case True
      obtain s' pc where w: "worker_step vs now call (ms_workers s ! i) s = (s', pc)" by (rule prod.exhaust)
      with True OWorker
      have step: "stream_step vs a s = s'\<lparr>ms_workers := (ms_workers s')[i := with_pc (ms_workers s ! i) pc]\<rparr>"
        by (simp add: run_worker_def Let_def)
      from w show thesis
      proof (cases rule: worker_step_cases)
        case (quiet m)
        with True step worker_step_ok [OF _ w] show thesis
          by (intro work [of i pc m]) (simp_all add: same_counters_def)
      next
        case (finish res)
        moreover from finish have "ms_workers s' = ms_workers s" by (auto simp: worker_finish_eq Let_def)
        ultimately show thesis using True step by (intro decide [of i res s' pc]) simp_all
      next
        case (push res)
        moreover from push have "ms_workers s' = ms_workers s" by (auto simp: push_worker_completion_eq)
        ultimately show thesis using True step by (intro hand_over [of i res]) simp_all
      qed
    qed
  qed
qed

end
