(* ===== verification/Managed_Base.thy ===== *)
theory Managed_Base
  imports Managed_Steps
begin

text \<open>
  Invariants of managed streams that hold for every interleaving, before and after the
  stream is closed: sequences and terminal states match the accepted requests, every envelope
  and completion belongs to a request that has left the mailbox, and a decided request holds
  no lease and has at most one outcome.
\<close>

section \<open>Growth\<close>

text \<open>\<open>taken s\<close> is the number of accepted requests that have left the input mailbox.\<close>

definition taken :: "managed_stream \<Rightarrow> nat" where
  "taken s = length (ms_accepted s) - length (ms_input s)"

definition seq_ok :: "managed_stream \<Rightarrow> bool" where
  "seq_ok s \<longleftrightarrow>
     length (ms_terminals s) = length (ms_accepted s) \<and>
     ms_next_sequence s = length (ms_accepted s) mod 18446744073709551616 \<and>
     length (ms_input s) \<le> length (ms_accepted s) \<and> ms_input s = drop (taken s) (ms_accepted s) \<and>
     (\<forall>i < length (ms_accepted s). ev_terminal (ms_accepted s ! i) = i \<and>
        ev_sequence (ms_accepted s ! i) = i mod 18446744073709551616 \<and>
        ev_session_id (ms_accepted s ! i) = ms_session_id s)"

definition grows :: "managed_stream \<Rightarrow> managed_stream \<Rightarrow> bool" where
  "grows s t \<longleftrightarrow>
     (\<exists>xs. ms_accepted t = ms_accepted s @ xs) \<and> taken s \<le> taken t \<and>
     length (ms_terminals s) \<le> length (ms_terminals t) \<and>
     (\<forall>q < length (ms_terminals s). (load_cancelled s q \<longrightarrow> load_cancelled t q) \<and>
        (is_terminal s q \<longrightarrow> is_terminal t q)) \<and>
     ms_session_id t = ms_session_id s \<and> ms_options t = ms_options s"

lemmas managed_eqs =
  terminal_cancel_eq worker_finish_eq push_worker_completion_eq exec_resolve_eq exec_tombstone_eq
  exec_timeout_eq exec_expire_eq exec_spawn_eq exec_exit_def set_pc_def stop_collect_def Let_def

lemmas flag_defs = load_cancelled_def is_terminal_def

lemma exec_grows: "grows s (exec_step now spawned s)"
  by (cases rule: exec_cases [where s = s and now = now and spawned = spawned]) (auto simp: grows_def taken_def flag_defs managed_eqs)

lemma step_grows:
  assumes "seq_ok s"
  shows "grows s (stream_step vs a s)"
proof (cases rule: step_cases [where s = s and vs = vs and a = a])
  case (exec now spawned)
  then show ?thesis by (simp add: exec_grows)
qed (use assms in \<open>auto simp: grows_def taken_def flag_defs managed_eqs nth_append seq_ok_def\<close>)

lemma drop_head:
  assumes "e # rest = drop (length xs - Suc (length rest)) xs" "Suc (length rest) \<le> length xs"
  shows "rest = drop (length xs - length rest) xs" and "e = xs ! (length xs - Suc (length rest))"
proof -
  let ?k = "length xs - Suc (length rest)"
  have "drop ?k xs = xs ! ?k # drop (Suc ?k) xs" using assms(2) by (intro Cons_nth_drop_Suc [symmetric]) simp
  moreover have "Suc ?k = length xs - length rest" using assms(2) by simp
  ultimately show "rest = drop (length xs - length rest) xs" "e = xs ! ?k" using assms(1) by auto
qed

lemma exec_seq_ok: "seq_ok s \<Longrightarrow> seq_ok (exec_step now spawned s)"
  by (cases rule: exec_cases [where s = s and now = now and spawned = spawned])
     (auto simp: seq_ok_def taken_def managed_eqs intro: drop_head)

lemma step_seq_ok:
  assumes "seq_ok s"
  shows "seq_ok (stream_step vs a s)"
proof (cases rule: step_cases [where s = s and vs = vs and a = a])
  case (exec now spawned)
  with assms show ?thesis by (simp add: exec_seq_ok)
qed (use assms in \<open>auto simp: seq_ok_def taken_def managed_eqs envelope_of_def nth_append fetch_add_def
  mod_Suc_eq less_Suc_eq\<close>)

text \<open>The next request of the mailbox.\<close>

lemma input_head:
  assumes "seq_ok s" and "ms_input s = e # rest"
  shows "taken s < length (ms_accepted s)" "e = ms_accepted s ! taken s"
    "length (ms_accepted s) - length rest = Suc (taken s)"
  using assms drop_head(2) [of e rest "ms_accepted s"] by (auto simp: seq_ok_def taken_def)

lemma seq_okD:
  assumes "seq_ok s"
  shows "length (ms_terminals s) = length (ms_accepted s)" "length (ms_input s) \<le> length (ms_accepted s)"
    "q < taken s \<Longrightarrow> q < length (ms_accepted s)"
    "i < length (ms_accepted s) \<Longrightarrow> ev_terminal (ms_accepted s ! i) = i"
    "i < length (ms_accepted s) \<Longrightarrow> ev_session_id (ms_accepted s ! i) = ms_session_id s"
    "i < length (ms_accepted s) \<Longrightarrow> length (ms_accepted s) \<le> 18446744073709551616 \<Longrightarrow>
       ev_sequence (ms_accepted s ! i) = i"
  using assms by (auto simp: seq_ok_def taken_def)

section \<open>Ownership\<close>

text \<open>As long as fewer than \<open>2 ^ 64\<close> requests have been accepted, sequences do not repeat.\<close>

definition small :: "managed_stream \<Rightarrow> bool" where
  "small s \<longleftrightarrow> length (ms_accepted s) \<le> 18446744073709551616"

abbreviation rid :: "managed_stream \<Rightarrow> nat \<Rightarrow> request_id" where
  "rid s q \<equiv> ev_request_id (ms_accepted s ! q)"

definition env_ok :: "managed_stream \<Rightarrow> envelope \<Rightarrow> bool" where
  "env_ok s e \<longleftrightarrow> ev_sequence e < taken s \<and> e = ms_accepted s ! ev_sequence e \<and> ev_terminal e = ev_sequence e"

definition comp_ok :: "managed_stream \<Rightarrow> worker_completion \<Rightarrow> bool" where
  "comp_ok s c \<longleftrightarrow>
     wc_sequence c < taken s \<and> wc_request_id c = rid s (wc_sequence c) \<and> is_terminal s (wc_sequence c)"

fun pc_comps :: "executor_pc \<Rightarrow> worker_completion list" where
  "pc_comps (EComplete cs _) = cs"
| "pc_comps (EUnregister c cs _) = c # cs"
| "pc_comps (ESpawnFailed c _) = [c]"
| "pc_comps _ = []"

fun pc_scan :: "executor_pc \<Rightarrow> (u64 \<times> active_request) list" where
  "pc_scan (EScan _ l _) = l"
| "pc_scan (ETimeout q r _ l _) = (q, r) # l"
| "pc_scan _ = []"

definition worker_comps :: "stream_worker \<Rightarrow> worker_completion list" where
  "worker_comps w = map (worker_completion_of (wk_envelope w)) (pushed (wk_pc w))"

definition active_ok :: "managed_stream \<Rightarrow> u64 \<times> active_request \<Rightarrow> bool" where
  "active_ok s x \<longleftrightarrow> fst x < taken s \<and> aq_terminal (snd x) = fst x \<and> aq_request_id (snd x) = rid s (fst x)"

definition own_ok :: "managed_stream \<Rightarrow> bool" where
  "own_ok s \<longleftrightarrow>
     (\<forall>e \<in> set (pc_envelopes (ms_pc s)). env_ok s e) \<and> (\<forall>w \<in> set (ms_workers s). env_ok s (wk_envelope w)) \<and>
     bt_inv (ms_active s) \<and> (\<forall>x \<in> set (ms_active s). active_ok s x) \<and>
     set (pc_scan (ms_pc s)) \<subseteq> set (ms_active s) \<and>
     (\<forall>c \<in> set (ms_worker_completions s). comp_ok s c) \<and> (\<forall>c \<in> set (pc_comps (ms_pc s)). comp_ok s c) \<and>
     (\<forall>w \<in> set (ms_workers s). \<forall>c \<in> set (worker_comps w). comp_ok s c)"

lemma grows_ok:
  assumes "grows s t" "seq_ok s"
  shows "env_ok s e \<Longrightarrow> env_ok t e" "comp_ok s c \<Longrightarrow> comp_ok t c" "active_ok s x \<Longrightarrow> active_ok t x"
  using assms by (auto simp: grows_def env_ok_def comp_ok_def active_ok_def seq_ok_def taken_def nth_append)

lemma step_small: "seq_ok s \<Longrightarrow> small (stream_step vs a s) \<Longrightarrow> small s"
  using step_grows [of s vs a] by (auto simp: grows_def small_def)


text \<open>
  The parts of an unchanged request are carried over by growth, so each case only has to look
  at what its step adds.
\<close>

definition own_view ::
  "managed_stream \<Rightarrow> executor_pc \<Rightarrow> stream_worker list \<Rightarrow> (u64, active_request) btree \<Rightarrow> worker_completion list \<Rightarrow> bool" where
  "own_view t pc ws act cs \<longleftrightarrow>
     (\<forall>e \<in> set (pc_envelopes pc). env_ok t e) \<and> (\<forall>w \<in> set ws. env_ok t (wk_envelope w)) \<and>
     bt_inv act \<and> (\<forall>x \<in> set act. active_ok t x) \<and> set (pc_scan pc) \<subseteq> set act \<and>
     (\<forall>c \<in> set cs. comp_ok t c) \<and> (\<forall>c \<in> set (pc_comps pc). comp_ok t c) \<and>
     (\<forall>w \<in> set ws. \<forall>c \<in> set (worker_comps w). comp_ok t c)"

lemma own_view_eq: "own_ok s \<longleftrightarrow> own_view s (ms_pc s) (ms_workers s) (ms_active s) (ms_worker_completions s)"
  by (simp add: own_ok_def own_view_def)

lemma own_view_grows:
  "own_ok s \<Longrightarrow> grows s t \<Longrightarrow> seq_ok s \<Longrightarrow>
   own_view t (ms_pc s) (ms_workers s) (ms_active s) (ms_worker_completions s)"
  by (auto simp: own_ok_def own_view_def intro: grows_ok)

lemma set_bt_remove: "set (bt_remove k m) = {x \<in> set m. fst x \<noteq> k}"
  by (auto simp: bt_remove_def)

lemma bt_insert_cases: "x \<in> set (bt_insert k v m) \<Longrightarrow> x = (k, v) \<or> x \<in> set m"
  by (induction k v m rule: bt_insert.induct) (auto split: if_splits)

lemma set_update_cases: "w \<in> set (ws[i := x]) \<Longrightarrow> w = x \<or> w \<in> set ws"
  using set_update_subset_insert by fastforce

lemma head_env_ok:
  assumes "seq_ok s" "small s" "ms_input s = e # rest" "ms_accepted t = ms_accepted s" "ms_input t = rest"
  shows "env_ok t e" "ev_sequence e = taken s" "ev_terminal e = taken s" "taken t = Suc (taken s)"
proof -
  note h = input_head [OF assms(1,3)] and d = seq_okD [OF assms(1)]
  show seq: "ev_sequence e = taken s" "ev_terminal e = taken s" using h d assms(2) by (auto simp: small_def)
  show "taken t = Suc (taken s)" using h(3) assms(4,5) by (simp add: taken_def)
  then show "env_ok t e" using seq h(2) assms(4) by (simp add: env_ok_def)
qed

lemma exec_own:
  assumes ok: "seq_ok s" "own_ok s" "small s"
  shows "own_ok (exec_step now spawned s)"
proof -
  define t where "t = exec_step now spawned s"
  have v: "own_view t (ms_pc s) (ms_workers s) (ms_active s) (ms_worker_completions s)"
    unfolding t_def by (rule own_view_grows [OF ok(2) exec_grows ok(1)])
  have f: "ms_pc t = ms_pc (exec_step now spawned s)" "ms_workers t = ms_workers (exec_step now spawned s)"
    "ms_active t = ms_active (exec_step now spawned s)"
    "ms_worker_completions t = ms_worker_completions (exec_step now spawned s)"
    by (simp_all add: t_def)
  have "own_view t (ms_pc t) (ms_workers t) (ms_active t) (ms_worker_completions t)"
  proof (cases rule: exec_cases [where s = s and now = now and spawned = spawned])
    case (launch launches progress e rest m)
    let ?r = "\<lparr>aq_request_id = ev_request_id e, aq_deadline = ev_deadline e, aq_terminal = ev_terminal e\<rparr>"
    have "ms_accepted t = ms_accepted s" "ms_input t = rest" using launch by (simp_all add: t_def)
    note h = head_env_ok [OF ok(1,3) launch(3) this]
    then have "active_ok t (ev_sequence e, ?r)" by (simp add: active_ok_def env_ok_def)
    with v h(1) show ?thesis
      by (auto simp: own_view_def f launch bt_inv_insert dest!: bt_insert_cases)
  next
    case (launch_expired launches progress e rest m)
    have "ms_accepted t = ms_accepted s" "ms_input t = rest" using launch_expired by (simp_all add: t_def)
    note h = head_env_ok [OF ok(1,3) launch_expired(3) this]
    with v show ?thesis by (simp add: own_view_def f launch_expired)
  next
    case (spawn e rest)
    with ok have "env_ok s e" by (simp add: own_ok_def)
    then have "comp_ok t (worker_completion_of e res)" if "\<not> spawned" for res
      using that spawn seq_okD(1) [OF ok(1)] seq_okD(3) [OF ok(1), of "ev_sequence e"]
      by (auto simp: t_def comp_ok_def env_ok_def worker_completion_of_def managed_eqs taken_def is_terminal_def)
    with v spawn show ?thesis by (auto simp: own_view_def f managed_eqs worker_comps_def)
  qed (use v in \<open>auto simp: own_view_def f managed_eqs bt_inv_remove set_bt_remove\<close>)
  then show ?thesis by (simp add: own_view_eq t_def)
qed

lemma step_own:
  assumes ok: "seq_ok s" "own_ok s" "small s"
  shows "own_ok (stream_step vs a s)"
proof -
  define t where "t = stream_step vs a s"
  have v: "own_view t (ms_pc s) (ms_workers s) (ms_active s) (ms_worker_completions s)"
    unfolding t_def by (rule own_view_grows [OF ok(2) step_grows ok(1)]) (rule ok(1))
  have f: "ms_pc t = ms_pc (stream_step vs a s)" "ms_workers t = ms_workers (stream_step vs a s)"
    "ms_active t = ms_active (stream_step vs a s)"
    "ms_worker_completions t = ms_worker_completions (stream_step vs a s)"
    by (simp_all add: t_def)
  have "own_view t (ms_pc t) (ms_workers t) (ms_active t) (ms_worker_completions t)"
  proof (cases rule: step_cases [where s = s and vs = vs and a = a])
    case (exec now spawned)
    with exec_own [OF ok, of now spawned] show ?thesis by (simp add: own_view_eq t_def)
  next
    case (work i pc m)
    then have w: "ms_workers s ! i \<in> set (ms_workers s)" by simp
    from work v show ?thesis
      by (auto simp: own_view_def f worker_comps_def dest!: set_update_cases intro: w)
  next
    case (decide i res s' pc)
    let ?w = "ms_workers s ! i"
    from decide have w: "?w \<in> set (ms_workers s)" by simp
    with ok have e: "env_ok s (wk_envelope ?w)" by (simp add: own_ok_def)
    from decide obtain res' where pc: "pc = WPush res'" by (auto simp: worker_finish_eq Let_def)
    have "comp_ok t (worker_completion_of (wk_envelope ?w) res')"
      using e decide seq_okD(1) [OF ok(1)] seq_okD(3) [OF ok(1), of "ev_sequence (wk_envelope ?w)"]
      by (auto simp: t_def comp_ok_def env_ok_def worker_completion_of_def worker_finish_eq Let_def taken_def
          is_terminal_def)
    with decide v w pc show ?thesis
      by (auto simp: own_view_def f worker_comps_def worker_finish_eq Let_def dest!: set_update_cases)
  next
    case (hand_over i res)
    then have w: "ms_workers s ! i \<in> set (ms_workers s)" by simp
    with hand_over v have "comp_ok t (worker_completion_of (wk_envelope (ms_workers s ! i)) res)"
      by (auto simp: own_view_def worker_comps_def)
    with hand_over v w show ?thesis
      by (auto simp: own_view_def f worker_comps_def managed_eqs dest!: set_update_cases split: if_splits)
  qed (use v in \<open>auto simp: own_view_def f managed_eqs\<close>)
  then show ?thesis by (simp add: own_view_eq t_def)
qed

section \<open>Phases and outcomes\<close>

definition phase_ok :: "managed_stream \<Rightarrow> bool" where
  "phase_ok s \<longleftrightarrow>
     ms_closed s = (ms_stop s \<noteq> StopIdle \<and> ms_stop s \<noteq> StopLock) \<and>
     (ms_lifecycle s = 0 \<longleftrightarrow> ms_stop s = StopIdle) \<and>
     (ms_closed s \<longrightarrow> ms_input s = [] \<and> ms_worker_completions s = [] \<and> ms_results s = [] \<and> \<not> pc_locked (ms_pc s)) \<and>
     (ms_pc s = EExit \<or> ms_pc s = EDone \<longrightarrow> ms_closed s) \<and> (ms_executor_done s \<longleftrightarrow> ms_pc s = EDone) \<and>
     (ms_pc s = EDone \<longrightarrow> ms_lifecycle s = 2)"

lemma exec_phase: "phase_ok s \<Longrightarrow> phase_ok (exec_step now spawned s)"
  by (cases rule: exec_cases [where s = s and now = now and spawned = spawned])
     (auto simp: phase_ok_def managed_eqs)

lemma phase_ok_workers: "phase_ok (s\<lparr>ms_workers := ws\<rparr>) = phase_ok s"
  by (simp add: phase_ok_def)

lemma step_phase:
  assumes "phase_ok s"
  shows "phase_ok (stream_step vs a s)"
proof (cases rule: step_cases [where s = s and vs = vs and a = a])
  case (exec now spawned)
  with assms show ?thesis by (simp add: exec_phase)
next
  case (close m)
  have "ms_pc s \<noteq> EDone" using assms close(1) by (auto simp: phase_ok_def)
  with assms close show ?thesis by (simp add: phase_ok_def)
next
  case (decide i res s' pc)
  then have same: "ms_closed s' = ms_closed s" "ms_stop s' = ms_stop s" "ms_lifecycle s' = ms_lifecycle s"
    "ms_input s' = ms_input s" "ms_worker_completions s' = ms_worker_completions s" "ms_results s' = ms_results s"
    "ms_pc s' = ms_pc s" "ms_executor_done s' = ms_executor_done s"
    by (auto simp: worker_finish_eq Let_def)
  have "phase_ok s'" using assms unfolding phase_ok_def same .
  then show ?thesis unfolding decide(4) by (simp only: phase_ok_workers)
next
  case (accept request m)
  with assms show ?thesis by (simp add: phase_ok_def Let_def)
next
  case (hand_over i res)
  with assms show ?thesis by (auto simp: phase_ok_def push_worker_completion_eq)
qed (use assms in \<open>auto simp: phase_ok_def managed_eqs\<close>)

text \<open>
  Who holds a reference to a terminal state, and what a decided request is: it holds no lease,
  and unless it was cancelled it has exactly one outcome.
\<close>

definition refs_view ::
  "managed_stream \<Rightarrow> (request_id, nat) btree \<Rightarrow> (nat \<times> bool) list \<Rightarrow> stop_pc \<Rightarrow> stream_worker list \<Rightarrow> bool" where
  "refs_view s regs cancels stop workers \<longleftrightarrow>
     (\<forall>(k, t) \<in> set regs. t < length (ms_accepted s) \<and> rid s t = k) \<and> bt_inv regs \<and>
     (\<forall>(t, b) \<in> set cancels. t < length (ms_accepted s) \<and> (b \<longrightarrow> load_cancelled s t)) \<and>
     (\<forall>t \<in> set (stop_terminals stop). t < length (ms_accepted s)) \<and>
     (\<forall>t ts. stop = StopFinish t ts \<longrightarrow> load_cancelled s t) \<and>
     (\<forall>w \<in> set workers. worker_ok s w)"

definition refs_ok :: "managed_stream \<Rightarrow> bool" where
  "refs_ok s \<longleftrightarrow>
     refs_view s (ms_registrations s) (ms_cancels s) (ms_stop s) (ms_workers s) \<and>
     (\<forall>e \<in> set (ms_accepted s). 0 < ev_attempt_limit e)"

definition outcomes_ok :: "managed_stream \<Rightarrow> bool" where
  "outcomes_ok s \<longleftrightarrow>
     distinct (map fst (ms_outcomes s)) \<and>
     (\<forall>(q, c) \<in> set (ms_outcomes s). q < taken s \<and> is_terminal s q \<and> sc_request_id c = rid s q \<and>
        sc_session_id c = ms_session_id s) \<and>
     (\<forall>q < length (ms_accepted s). is_terminal s q \<longrightarrow> te_admission (ms_terminals s ! q) = None) \<and>
     (\<forall>q < length (ms_accepted s). is_terminal s q \<longrightarrow> q \<in> fst ` set (ms_outcomes s) \<or> load_cancelled s q)"

lemma remove_nth_set: "set (remove_nth i xs) \<subseteq> set xs"
  by (auto simp: remove_nth_def dest: in_set_takeD in_set_dropD)

lemma worker_ok_mono: "worker_ok s w \<Longrightarrow> (load_cancelled s (ev_terminal (wk_envelope w)) \<Longrightarrow>
    load_cancelled t (ev_terminal (wk_envelope w))) \<Longrightarrow> worker_ok t w"
  unfolding worker_ok_def
  by (cases "wk_pc w") (auto elim: attempt_ok.elims)

lemma refs_view_grows:
  assumes "refs_ok s" "grows s t" "seq_ok s" "own_ok s"
  shows "refs_view t (ms_registrations s) (ms_cancels s) (ms_stop s) (ms_workers s)"
proof -
  note g = assms(2) [unfolded grows_def] and d = seq_okD(1) [OF assms(3)]
  have "worker_ok t w" if "w \<in> set (ms_workers s)" for w
  proof (rule worker_ok_mono [of s])
    from that assms have "env_ok s (wk_envelope w)" by (simp add: own_ok_def)
    then have "ev_terminal (wk_envelope w) < length (ms_terminals s)"
      using d by (auto simp: env_ok_def taken_def)
    with g show "load_cancelled s (ev_terminal (wk_envelope w)) \<Longrightarrow> load_cancelled t (ev_terminal (wk_envelope w))"
      by blast
  qed (use that assms(1) in \<open>simp add: refs_ok_def refs_view_def\<close>)
  with assms(1) g d show ?thesis
    by (fastforce simp: refs_ok_def refs_view_def nth_append)
qed

lemma registered_Some: "registered s k = Some t \<Longrightarrow> bt_inv (ms_registrations s) \<Longrightarrow> (k, t) \<in> set (ms_registrations s)"
  by (auto simp: registered_def bt_get_iff split: option.splits if_splits)

lemma step_refs:
  assumes ok: "seq_ok s" "own_ok s" "refs_ok s" "small s"
  shows "refs_ok (stream_step vs a s)"
proof -
  define t where "t = stream_step vs a s"
  have v: "refs_view t (ms_registrations s) (ms_cancels s) (ms_stop s) (ms_workers s)"
    unfolding t_def by (rule refs_view_grows [OF ok(3) step_grows [OF ok(1)] ok(1,2)])
  have f: "ms_registrations t = ms_registrations (stream_step vs a s)" "ms_cancels t = ms_cancels (stream_step vs a s)"
    "ms_stop t = ms_stop (stream_step vs a s)" "ms_workers t = ms_workers (stream_step vs a s)"
    "ms_accepted t = ms_accepted (stream_step vs a s)"
    by (simp_all add: t_def)
  have lim: "\<forall>e \<in> set (ms_accepted s). 0 < ev_attempt_limit e" using ok(3) by (simp add: refs_ok_def)
  have "refs_view t (ms_registrations t) (ms_cancels t) (ms_stop t) (ms_workers t) \<and>
    (\<forall>e \<in> set (ms_accepted t). 0 < ev_attempt_limit e)"
  proof (cases rule: step_cases [where s = s and vs = vs and a = a])
    case (exec now spawned)
    show ?thesis
    proof (cases rule: exec_cases [where s = s and now = now and spawned = spawned])
      case (spawn e rest)
      with ok have "env_ok s e" by (simp add: own_ok_def)
      with ok(1) have "e \<in> set (ms_accepted s)" by (metis env_ok_def nth_mem seq_okD(3))
      with lim have "worker_ok t \<lparr>wk_envelope = e, wk_pc = WAttempt 1\<rparr>" by (auto simp: worker_ok_def)
      moreover from spawn have "ms_registrations t = ms_registrations s" "ms_cancels t = ms_cancels s"
        "ms_stop t = ms_stop s" "ms_accepted t = ms_accepted s"
        "set (ms_workers t) \<subseteq> insert \<lparr>wk_envelope = e, wk_pc = WAttempt 1\<rparr> (set (ms_workers s))"
        by (auto simp: f exec exec_spawn_eq Let_def)
      ultimately show ?thesis using v lim by (auto simp: refs_view_def)
    qed (use v lim in \<open>auto simp: refs_view_def f exec managed_eqs bt_inv_remove set_bt_remove\<close>)
  next
    case (accept request m)
    then have "ms_accepted t = ms_accepted s @ [envelope_of request (ms_next_sequence s) (length (ms_terminals s))]"
      by (simp add: t_def Let_def)
    then have "rid t (length (ms_accepted s)) = rq_request_id request"
      "length (ms_accepted s) < length (ms_accepted t)"
      by (simp_all add: envelope_of_def)
    with v lim accept seq_okD(1) [OF ok(1)] show ?thesis
      by (auto simp: refs_view_def f Let_def bt_inv_insert envelope_of_def dest!: bt_insert_cases)
  next
    case (lookup r u)
    with ok(3) registered_Some [of s r u] v have "u < length (ms_accepted t)"
      by (auto simp: refs_ok_def refs_view_def)
    with v lim lookup show ?thesis by (auto simp: refs_view_def f)
  next
    case (flag i u)
    then have "(u, False) \<in> set (ms_cancels s)" by (metis nth_mem)
    with ok(3) have "u < length (ms_accepted s)" by (auto simp: refs_ok_def refs_view_def)
    with flag seq_okD(1) [OF ok(1)] have "load_cancelled t u" "u < length (ms_accepted t)"
      by (auto simp: t_def load_cancelled_def)
    with v lim flag show ?thesis by (auto simp: refs_view_def f dest!: set_update_cases)
  next
    case (cancel i u)
    with v lim remove_nth_set [of i "ms_cancels s"] show ?thesis
      by (auto simp: refs_view_def f managed_eqs)
  next
    case collect
    with v lim show ?thesis by (auto simp: refs_view_def f managed_eqs bt_values_def)
  next
    case (stop_flag i ts)
    then have "ts ! i \<in> set (stop_terminals (ms_stop s))" by simp
    with ok(3) have "ts ! i < length (ms_accepted s)" by (auto simp: refs_ok_def refs_view_def)
    with stop_flag seq_okD(1) [OF ok(1)] have "load_cancelled t (ts ! i)" "ts ! i < length (ms_accepted t)"
      by (auto simp: t_def load_cancelled_def)
    with v lim stop_flag remove_nth_set [of i ts] show ?thesis by (auto simp: refs_view_def f)
  next
    case (work i pc m)
    then have "worker_ok s (ms_workers s ! i)" using ok(3) by (auto simp: refs_ok_def refs_view_def)
    with work have "worker_ok t (with_pc (ms_workers s ! i) pc)"
      by (simp add: t_def worker_ok_def load_cancelled_def)
    with v lim work show ?thesis by (auto simp: refs_view_def f dest!: set_update_cases)
  next
    case (decide i res s' pc)
    then have "worker_ok t (with_pc (ms_workers s ! i) pc)" by (auto simp: worker_finish_eq worker_ok_def Let_def)
    with v lim decide show ?thesis
      by (auto simp: refs_view_def f worker_finish_eq Let_def dest!: set_update_cases)
  next
    case (hand_over i res)
    have "worker_ok t (with_pc (ms_workers s ! i) WExit)" by (simp add: worker_ok_def)
    with v lim hand_over show ?thesis by (auto simp: refs_view_def f managed_eqs dest!: set_update_cases)
  qed (use v lim in \<open>auto simp: refs_view_def f managed_eqs\<close>)
  then show ?thesis by (simp add: refs_ok_def t_def)
qed

lemma outcomes_keep:
  assumes "outcomes_ok s" "seq_ok s" "ms_outcomes t = ms_outcomes s" "ms_accepted t = ms_accepted s" "taken s \<le> taken t"
    "ms_session_id t = ms_session_id s"
    and "ms_terminals t = ms_terminals s \<or> (\<exists>u. ms_terminals t = mark_cancelled u (ms_terminals s))"
  shows "outcomes_ok t"
  using assms seq_okD(1,3) [OF assms(2)] by (fastforce simp: outcomes_ok_def flag_defs)

lemma outcomes_clear:
  assumes "outcomes_ok s" "seq_ok s" "ms_outcomes t = ms_outcomes s" "ms_accepted t = ms_accepted s" "taken s \<le> taken t"
    "ms_session_id t = ms_session_id s" "ms_terminals t = cleared_terminals s"
  shows "outcomes_ok t"
  using assms seq_okD(1,3) [OF assms(2)] unfolding outcomes_ok_def
  by (fastforce simp: flag_defs cleared_terminals_admission)

lemma outcomes_decide:
  assumes ok: "outcomes_ok s" "seq_ok s"
    and t: "ms_terminals t = mark_terminal q (ms_terminals s)" "ms_accepted t = ms_accepted s" "taken t = taken s"
      "ms_session_id t = ms_session_id s"
    and o: "ms_outcomes t = ms_outcomes s @ tokens_of (ms_session_id s) q (rid s q) (if is_terminal s q then None else res)"
    and q: "q < taken s \<or> res = None" and c: "\<not> is_terminal s q \<Longrightarrow> res = None \<Longrightarrow> load_cancelled s q"
  shows "outcomes_ok t"
proof -
  note d = seq_okD(1) [OF ok(2)] and d3 = seq_okD(3) [OF ok(2)]
  have flags: "is_terminal t u = (is_terminal s u \<or> u = q)" "load_cancelled t u = load_cancelled s u"
    "te_admission (ms_terminals t ! u) =
       (if u = q \<and> \<not> is_terminal s q then None else te_admission (ms_terminals s ! u))"
    if "u < length (ms_accepted s)" for u
    using that d t(1) by (simp_all add: flag_defs)
  show ?thesis
  proof (cases "is_terminal s q \<or> res = None")
    case True
    then have "ms_outcomes t = ms_outcomes s" using o by auto
    with ok(1) flags d3 t c True show ?thesis unfolding outcomes_ok_def by fastforce
  next
    case False
    then obtain r where r: "res = Some r" by auto
    with False q o have o': "q < taken s" "ms_outcomes t = ms_outcomes s @
        [(q, \<lparr>sc_request_id = rid s q, sc_session_id = ms_session_id s, sc_result = r\<rparr>)]" by auto
    from ok(1) False have "q \<notin> fst ` set (ms_outcomes s)" by (auto simp: outcomes_ok_def)
    with ok(1) flags d3 t o' show ?thesis unfolding outcomes_ok_def by fastforce
  qed
qed

lemma env_okD: "env_ok s e \<Longrightarrow> ev_sequence e < taken s \<and> ev_terminal e = ev_sequence e \<and> ev_request_id e = rid s (ev_sequence e)"
  unfolding env_ok_def by metis

lemma exec_outcomes:
  assumes ok: "seq_ok s" "own_ok s" "outcomes_ok s"
  shows "outcomes_ok (exec_step now spawned s)"
proof (cases rule: exec_cases [where s = s and now = now and spawned = spawned])
  case (time_out q r at rest had)
  with ok(2) have "(q, r) \<in> set (ms_active s)" "\<forall>x \<in> set (ms_active s). active_ok s x"
    by (simp_all add: own_ok_def)
  then have "active_ok s (q, r)" by blast
  then show ?thesis
    by (intro outcomes_decide [OF ok(3,1), where q = q and res = "Some (ResFailed service_timeout)"])
       (simp_all add: time_out managed_eqs active_ok_def timeout_result_def taken_def)
next
  case (expire e launches)
  with ok(2) have "env_ok s e" by (simp add: own_ok_def)
  with env_okD [of s e] show ?thesis
    by (intro outcomes_decide [OF ok(3,1), where q = "ev_sequence e" and res = "Some (ResFailed service_timeout)"])
       (simp_all add: expire managed_eqs timeout_result_def taken_def)
next
  case (spawn e rest)
  show ?thesis
  proof (cases spawned)
    case True
    with spawn show ?thesis by (intro outcomes_keep [OF ok(3,1)]) (simp_all add: managed_eqs taken_def)
  next
    case False
    from spawn ok(2) have "env_ok s e" by (simp add: own_ok_def)
    from spawn False have eq: "exec_step now spawned s = exec_spawn False e rest s" by simp
    from \<open>env_ok s e\<close> env_okD [of s e] show ?thesis unfolding eq
      by (intro outcomes_decide [OF ok(3,1), where q = "ev_sequence e" and res = "Some (ResFailed service_worker_start)"])
         (simp_all add: managed_eqs taken_def)
  qed
qed (auto simp: managed_eqs taken_def intro: outcomes_keep [OF ok(3,1)])

lemma step_outcomes:
  assumes ok: "seq_ok s" "own_ok s" "outcomes_ok s" "refs_ok s" "phase_ok s"
  shows "outcomes_ok (stream_step vs a s)"
proof (cases rule: step_cases [where s = s and vs = vs and a = a])
  case (exec now spawned)
  with exec_outcomes [OF ok(1-3)] show ?thesis by simp
next
  case (accept request m)
  then show ?thesis
    using ok(3) seq_okD(1,2) [OF ok(1)] seq_okD(3) [OF ok(1)]
    by (auto simp: outcomes_ok_def Let_def flag_defs nth_append taken_def terminal_new_def less_Suc_eq)
next
  case (cancel i t)
  then have "(t, True) \<in> set (ms_cancels s)" by (metis nth_mem)
  with ok(4) have "load_cancelled s t" by (auto simp: refs_ok_def refs_view_def)
  then show ?thesis
    by (intro outcomes_decide [OF ok(3,1), where q = t and res = None])
       (simp_all add: cancel managed_eqs taken_def)
next
  case (stop_cancel t ts)
  with ok(4) have "load_cancelled s t" by (auto simp: refs_ok_def refs_view_def)
  then show ?thesis
    by (intro outcomes_decide [OF ok(3,1), where q = t and res = None])
       (simp_all add: stop_cancel managed_eqs taken_def)
next
  case (flag i t)
  then show ?thesis by (intro outcomes_keep [OF ok(3,1)]) (auto simp: taken_def)
next
  case (stop_flag i ts)
  then show ?thesis by (intro outcomes_keep [OF ok(3,1)]) (auto simp: taken_def)
next
  case (decide i res s' pc)
  let ?e = "wk_envelope (ms_workers s ! i)"
  from decide(1) ok have "env_ok s ?e" "worker_ok s (ms_workers s ! i)"
    by (simp_all add: own_ok_def refs_ok_def refs_view_def)
  with env_okD [of s ?e] decide show ?thesis
    by (intro outcomes_decide [OF ok(3,1), where q = "ev_sequence ?e" and res = res])
       (auto simp: managed_eqs taken_def worker_ok_def)
next
  case (close m)
  then show ?thesis by (intro outcomes_clear [OF ok(3,1)]) (simp_all add: taken_def)
qed (auto simp: managed_eqs taken_def intro: outcomes_keep [OF ok(3,1)])

end
