(* ===== verification/Managed_Order.thy ===== *)
theory Managed_Order
  imports Managed_Base "HOL-Library.Multiset"
begin

text \<open>
  The invariants of an open managed stream: every active request has exactly one job that
  completes it, every outcome is in exactly one place on its way to the receiver, and a strict
  executor resolves the requests in the order of their sequences. \<open>stream_inv\<close> collects
  them and is kept by every step.
\<close>

section \<open>Requests in flight\<close>

fun pc_jobs :: "executor_pc \<Rightarrow> u64 list" where
  "pc_jobs (EComplete cs _) = map wc_sequence cs"
| "pc_jobs (EUnregister c cs _) = map wc_sequence cs"
| "pc_jobs (ELaunch l _) = map ev_sequence l"
| "pc_jobs (EExpire e l) = map ev_sequence l"
| "pc_jobs (ESpawn l) = map ev_sequence l"
| "pc_jobs (ESpawnFailed c l) = wc_sequence c # map ev_sequence l"
| "pc_jobs _ = []"

fun pc_hand :: "executor_pc \<Rightarrow> u64 list" where
  "pc_hand (EUnregister c _ _) = [wc_sequence c]"
| "pc_hand (EExpire e _) = [ev_sequence e]"
| "pc_hand _ = []"

definition worker_job :: "stream_worker \<Rightarrow> u64 list" where
  "worker_job w = (if running (wk_pc w) then [ev_sequence (wk_envelope w)] else [])"

lemma worker_job_with_pc [simp]:
  "worker_job (with_pc w pc) = (if running pc then [ev_sequence (wk_envelope w)] else [])"
  "worker_comps (with_pc w pc) = map (worker_completion_of (wk_envelope w)) (pushed pc)"
  by (simp_all add: worker_job_def worker_comps_def)

definition jobs :: "managed_stream \<Rightarrow> u64 multiset" where
  "jobs s = mset (pc_jobs (ms_pc s)) + mset (concat (map worker_job (ms_workers s))) +
     mset (map wc_sequence (ms_worker_completions s))"

text \<open>While the stream is open, every active request has exactly one job that will complete it.\<close>

definition jobs_ok :: "managed_stream \<Rightarrow> bool" where
  "jobs_ok s \<longleftrightarrow> jobs s = mset (bt_keys (ms_active s)) \<and> set (pc_hand (ms_pc s)) \<inter> set (bt_keys (ms_active s)) = {}"

lemma mset_concat_update:
  assumes "i < length xs"
  shows "mset (concat (map f (xs[i := y]))) + mset (f (xs ! i)) = mset (concat (map f xs)) + mset (f y)"
  using assms
proof (induction xs arbitrary: i)
  case (Cons x xs)
  then show ?case by (cases i) (auto simp: ac_simps)
qed simp

lemma set_keys_remove: "set (bt_keys (bt_remove q m)) = set (bt_keys m) - {q}"
  by (auto simp: bt_keys_def bt_remove_def)

lemma set_keys_insert: "set (bt_keys (bt_insert q v m)) = insert q (set (bt_keys m))"
  using set_bt_insert [of q v m] by (simp add: bt_keys_def)

lemma mset_keys: "bt_inv m \<Longrightarrow> mset (bt_keys m) = mset_set (set (bt_keys m))"
  using bt_inv_distinct [of m] by (simp add: bt_keys_def mset_set_set del: set_map)

lemma mset_keys_remove:
  "bt_inv m \<Longrightarrow> q \<in> set (bt_keys m) \<Longrightarrow> mset (bt_keys m) = add_mset q (mset (bt_keys (bt_remove q m)))"
  by (simp add: mset_keys bt_inv_remove set_keys_remove mset_set.remove)

lemma mset_keys_insert:
  "bt_inv m \<Longrightarrow> q \<notin> set (bt_keys m) \<Longrightarrow> mset (bt_keys (bt_insert q v m)) = add_mset q (mset (bt_keys m))"
  by (simp add: mset_keys bt_inv_insert set_keys_insert)

lemma set_jobs: "jobs_ok s \<Longrightarrow> set_mset (jobs s) = set (bt_keys (ms_active s))"
  by (simp add: jobs_ok_def)

lemma active_keys: "own_ok s \<Longrightarrow> q \<in> set (bt_keys (ms_active s)) \<Longrightarrow> q < taken s"
  by (auto simp: own_ok_def active_ok_def bt_keys_def)

lemma exec_jobs:
  assumes ok: "seq_ok s" "own_ok s" "small s" "phase_ok s" "jobs_ok s" and open': "\<not> ms_closed s"
  shows "jobs_ok (exec_step now spawned s)"
proof (cases rule: exec_cases [where s = s and now = now and spawned = spawned])
  case (complete c cs had m)
  have "wc_sequence c \<in># jobs s" by (simp add: jobs_def complete)
  then have k: "wc_sequence c \<in> set (bt_keys (ms_active s))" using ok(5) by (simp add: set_jobs)
  have "bt_inv (ms_active s)" using ok(2) by (simp add: own_ok_def)
  from mset_keys_remove [OF this k] ok(5) show ?thesis
    by (auto simp: jobs_ok_def jobs_def complete set_keys_remove)
next
  case (launch launches progress e rest m)
  let ?t = "exec_step now spawned s"
  have "ms_accepted ?t = ms_accepted s" "ms_input ?t = rest" using launch by simp_all
  note h = head_env_ok [OF ok(1,3) launch(3) this]
  then have "ev_sequence e \<notin> set (bt_keys (ms_active s))" using active_keys [OF ok(2)] by fastforce
  with ok(2,5) show ?thesis
    by (auto simp: jobs_ok_def jobs_def launch own_ok_def mset_keys_insert)
next
  case (launch_expired launches progress e rest m)
  let ?t = "exec_step now spawned s"
  have "ms_accepted ?t = ms_accepted s" "ms_input ?t = rest" using launch_expired by simp_all
  note h = head_env_ok [OF ok(1,3) launch_expired(3) this]
  then have "ev_sequence e \<notin> set (bt_keys (ms_active s))" using active_keys [OF ok(2)] by fastforce
  with ok(5) show ?thesis by (auto simp: jobs_ok_def jobs_def launch_expired)
next
  case (spawn e rest)
  with ok(5) show ?thesis
    by (auto simp: jobs_ok_def jobs_def managed_eqs worker_job_def running_def worker_completion_of_def)
qed (use ok open' in \<open>auto simp: jobs_ok_def jobs_def managed_eqs phase_ok_def ac_simps\<close>)

lemma exec_closed [simp]: "ms_closed (exec_step now spawned s) = ms_closed s"
  by (cases rule: exec_cases [where s = s and now = now and spawned = spawned])
     (simp_all add: managed_eqs)

lemma step_jobs:
  assumes ok: "seq_ok s" "own_ok s" "small s" "phase_ok s" "jobs_ok s" and open': "\<not> ms_closed (stream_step vs a s)"
  shows "jobs_ok (stream_step vs a s)"
proof (cases rule: step_cases [where s = s and vs = vs and a = a])
  case (exec now spawned)
  with open' exec_jobs [OF ok] show ?thesis by simp
next
  case (work i pc m)
  have "mset (concat (map worker_job ((ms_workers s)[i := with_pc (ms_workers s ! i) pc]))) =
    mset (concat (map worker_job (ms_workers s)))"
    using mset_concat_update [OF work(1), of worker_job "with_pc (ms_workers s ! i) pc"] work(3)
    by (simp add: worker_job_def split: if_splits)
  with ok(5) show ?thesis by (simp add: jobs_ok_def jobs_def work)
next
  case (decide i res s' pc)
  have "mset (concat (map worker_job ((ms_workers s)[i := with_pc (ms_workers s ! i) pc]))) =
    mset (concat (map worker_job (ms_workers s)))"
    using mset_concat_update [OF decide(1), of worker_job "with_pc (ms_workers s ! i) pc"] decide(2,3)
    by (auto simp: worker_job_def running_def worker_finish_eq Let_def)
  with ok(5) decide show ?thesis by (auto simp: jobs_ok_def jobs_def worker_finish_eq Let_def)
next
  case (hand_over i res)
  have "mset (concat (map worker_job (ms_workers s))) =
    add_mset (ev_sequence (wk_envelope (ms_workers s ! i)))
      (mset (concat (map worker_job ((ms_workers s)[i := with_pc (ms_workers s ! i) WExit]))))"
    using mset_concat_update [OF hand_over(1), of worker_job "with_pc (ms_workers s ! i) WExit"] hand_over(2)
    by (simp add: worker_job_def running_def)
  with ok(5) open' show ?thesis
    by (auto simp: jobs_ok_def jobs_def hand_over managed_eqs worker_completion_of_def)
qed (use ok open' in \<open>auto simp: jobs_ok_def jobs_def managed_eqs phase_ok_def\<close>)

section \<open>Where the outcomes are\<close>

definition comp_tokens :: "managed_stream \<Rightarrow> (u64 \<times> stream_completion) multiset" where
  "comp_tokens s =
     mset (concat (map (completion_token (ms_session_id s)) (ms_worker_completions s))) +
     mset (concat (map (completion_token (ms_session_id s)) (pc_comps (ms_pc s)))) +
     mset (concat (map (\<lambda>w. concat (map (completion_token (ms_session_id s)) (worker_comps w))) (ms_workers s)))"

definition ordered_token :: "session_id \<Rightarrow> u64 \<times> ordered_resolution \<Rightarrow> (u64 \<times> stream_completion) list" where
  "ordered_token session x = tokens_of session (fst x) (or_request_id (snd x)) (or_result (snd x))"

definition ordered_tokens :: "managed_stream \<Rightarrow> (u64 \<times> stream_completion) multiset" where
  "ordered_tokens s = mset (concat (map (ordered_token (ms_session_id s)) (ms_ordered s)))"

text \<open>
  Every outcome is on its way in a completion, buffered in order, buffered in the relaxed queue,
  published, or was dropped.
\<close>

definition tokens_ok :: "managed_stream \<Rightarrow> bool" where
  "tokens_ok s \<longleftrightarrow>
     mset (ms_outcomes s) = comp_tokens s + ordered_tokens s + mset (ms_relaxed s) + mset (ms_published s) + mset (ms_lost s)"

lemma mset_concat_insert:
  "bt_get m q = None \<Longrightarrow>
   mset (concat (map f (bt_insert q v m))) = mset (f (q, v)) + mset (concat (map f m))"
  by (induction q v m rule: bt_insert.induct) (auto simp: bt_get_def ac_simps split: if_splits)

lemma mset_concat_remove:
  "bt_inv m \<Longrightarrow> bt_get m q = Some v \<Longrightarrow>
   mset (concat (map f m)) = mset (f (q, v)) + mset (concat (map f (bt_remove q m)))"
proof (induction m)
  case (Cons x m)
  have "bt_remove q m = m" if "fst x = q"
    using Cons.prems(1) that by (force simp: bt_inv_def bt_remove_def filter_id_conv)
  with Cons show ?case
    by (cases x) (auto simp: bt_get_def bt_inv_def bt_remove_def ac_simps split: if_splits)
qed (simp add: bt_get_def)

lemma ordered_tokens_put:
  assumes "b \<Longrightarrow> bt_get m q = None"
  shows "mset (concat (map (ordered_token session) (put_ordered b q r res m))) =
    (if b then mset (tokens_of session q r res) else {#}) + mset (concat (map (ordered_token session) m))"
  using assms by (simp add: put_ordered_def mset_concat_insert ordered_token_def)

lemma move_relaxed_tokens:
  "mset (ms_relaxed (move_relaxed xs s)) + mset (ms_published (move_relaxed xs s)) = mset xs + mset (ms_published s)"
  "ms_ordered (move_relaxed xs s) = ms_ordered s"
  "ms_next_delivery (move_relaxed xs s) = ms_next_delivery s"
  by (induction xs s rule: move_relaxed.induct) (auto simp: publish_result_def)

lemma deliver_relaxed_tokens:
  "mset (ms_relaxed (deliver_relaxed s)) + mset (ms_published (deliver_relaxed s)) =
   mset (ms_relaxed s) + mset (ms_published s)"
  "ms_ordered (deliver_relaxed s) = ms_ordered s"
  "ms_next_delivery (deliver_relaxed s) = ms_next_delivery s"
  by (simp_all add: deliver_relaxed_def count_backpressure_def move_relaxed_tokens Let_def)

lemma deliver_strict_fields [simp]:
  "ms_session_id (deliver_strict s) = ms_session_id s" "ms_options (deliver_strict s) = ms_options s"
  "ms_session_id (deliver_relaxed s) = ms_session_id s" "ms_options (deliver_relaxed s) = ms_options s"
  using deliver_strict_same [of s] deliver_relaxed_same [of s] unfolding same_threads_def by auto

lemma advance_delivery_facts:
  assumes "bt_inv (ms_ordered s)" "bt_get (ms_ordered s) (ms_next_delivery s) = Some r"
  shows "ordered_tokens (advance_delivery r s) + mset (ms_published (advance_delivery r s)) =
      ordered_tokens s + mset (ms_published s)"
    "ms_relaxed (advance_delivery r s) = ms_relaxed s" "bt_inv (ms_ordered (advance_delivery r s))"
    "ms_next_delivery (advance_delivery r s) = Suc (ms_next_delivery s)"
proof -
  have "ms_session_id (advance_delivery r s) = ms_session_id s"
    by (simp add: advance_delivery_def publish_result_def Let_def split: option.splits)
  with mset_concat_remove [OF assms, of "ordered_token (ms_session_id s)"]
  show "ordered_tokens (advance_delivery r s) + mset (ms_published (advance_delivery r s)) =
      ordered_tokens s + mset (ms_published s)"
    by (simp add: ordered_tokens_def ordered_token_def advance_delivery_def publish_result_def stream_complete_def
        Let_def split: option.splits)
  show "bt_inv (ms_ordered (advance_delivery r s))" using assms(1) by (simp add: bt_inv_remove)
qed (simp_all add: advance_delivery_def publish_result_def Let_def split: option.splits)

lemma deliver_strict_tokens:
  "bt_inv (ms_ordered s) \<Longrightarrow>
   ordered_tokens (deliver_strict s) + mset (ms_published (deliver_strict s)) = ordered_tokens s + mset (ms_published s) \<and>
   ms_relaxed (deliver_strict s) = ms_relaxed s \<and> bt_inv (ms_ordered (deliver_strict s))"
proof (induction s rule: deliver_strict.induct)
  case (1 s)
  show ?case
  proof (cases "bt_get (ms_ordered s) (ms_next_delivery s)")
    case None
    with 1(2) show ?thesis by (subst (1 2 3 4) deliver_strict.simps) simp
  next
    case (Some r)
    note a = advance_delivery_facts [OF 1(2) Some]
    show ?thesis
    proof (cases "or_result r \<noteq> None \<and> length (ms_results s) = mo_result_capacity (ms_options s)")
      case True
      with Some have "deliver_strict s = count_backpressure s" by (subst deliver_strict.simps) simp
      with 1(2) show ?thesis by (simp add: count_backpressure_def ordered_tokens_def)
    next
      case False
      with Some have "deliver_strict s = deliver_strict (advance_delivery r s)"
        by (subst deliver_strict.simps) auto
      with 1(1) [OF Some False a(3)] a show ?thesis by simp
    qed
  qed
qed

lemma exec_deliver_tokens:
  assumes "strict s \<Longrightarrow> bt_inv (ms_ordered s)"
  shows "ordered_tokens (exec_deliver s) + mset (ms_relaxed (exec_deliver s)) + mset (ms_published (exec_deliver s)) =
    ordered_tokens s + mset (ms_relaxed s) + mset (ms_published s)"
proof -
  let ?d = "deliver_relaxed s"
  note d = deliver_relaxed_tokens [of s]
  have o: "ordered_tokens ?d = ordered_tokens s" by (simp add: ordered_tokens_def d)
  show ?thesis
  proof (cases "strict s")
    case True
    then have "bt_inv (ms_ordered ?d)" using assms d by simp
    note st = deliver_strict_tokens [OF this]
    let ?e = "deliver_strict ?d"
    have e: "ordered_tokens (exec_deliver s) = ordered_tokens ?e" "ms_relaxed (exec_deliver s) = ms_relaxed ?d"
      "ms_published (exec_deliver s) = ms_published ?e"
      using True st by (simp_all add: exec_deliver_def strict_def ordered_tokens_def Let_def)
    have "ordered_tokens ?e + mset (ms_relaxed ?d) + mset (ms_published ?e) =
      (ordered_tokens ?e + mset (ms_published ?e)) + mset (ms_relaxed ?d)" by (simp only: ac_simps)
    also have "\<dots> = ordered_tokens s + (mset (ms_relaxed ?d) + mset (ms_published ?d))"
      using st o by (simp add: ac_simps)
    also have "\<dots> = ordered_tokens s + mset (ms_relaxed s) + mset (ms_published s)"
      by (simp only: d(1) add.assoc)
    finally show ?thesis by (simp only: e)
  next
    case False
    then have e: "ordered_tokens (exec_deliver s) = ordered_tokens s" "ms_relaxed (exec_deliver s) = ms_relaxed ?d"
      "ms_published (exec_deliver s) = ms_published ?d"
      using o by (simp_all add: exec_deliver_def strict_def ordered_tokens_def Let_def)
    show ?thesis by (simp only: e add.assoc d(1))
  qed
qed

section \<open>The order of delivery\<close>

text \<open>
  The requests below \<open>settled\<close> are active, resolved or in the executor's hands; the one being
  expired is not settled yet.
\<close>

definition settled :: "managed_stream \<Rightarrow> nat" where
  "settled s = (case ms_pc s of EExpire _ _ \<Rightarrow> taken s - 1 | _ \<Rightarrow> taken s)"

abbreviation active_keys_of :: "managed_stream \<Rightarrow> u64 set" where
  "active_keys_of s \<equiv> set (bt_keys (ms_active s))"

abbreviation ordered_keys_of :: "managed_stream \<Rightarrow> u64 set" where
  "ordered_keys_of s \<equiv> set (bt_keys (ms_ordered s))"

definition resolved :: "managed_stream \<Rightarrow> u64 \<Rightarrow> bool" where
  "resolved s q \<longleftrightarrow> q < ms_next_delivery s \<or> q \<in> ordered_keys_of s"

definition answered :: "managed_stream \<Rightarrow> u64 \<Rightarrow> bool" where
  "answered s q \<longleftrightarrow> load_cancelled s q \<or> (\<exists>c. (q, c) \<in># ordered_tokens s \<or> (q, c) \<in> set (ms_published s))"

definition strict_ok :: "managed_stream \<Rightarrow> bool" where
  "strict_ok s \<longleftrightarrow>
     bt_inv (ms_ordered s) \<and> ms_relaxed s = [] \<and> ms_next_delivery s \<le> settled s \<and>
     (\<forall>q \<in> ordered_keys_of s. ms_next_delivery s \<le> q \<and> q < settled s) \<and>
     (\<forall>q < settled s. resolved s q \<or> q \<in> active_keys_of s \<or> q \<in> set (pc_hand (ms_pc s))) \<and>
     (\<forall>q. resolved s q \<longrightarrow> answered s q) \<and>
     (\<forall>x \<in> set (ms_published s). fst x < ms_next_delivery s) \<and> sorted_wrt (<) (map fst (ms_published s)) \<and>
     (\<forall>x \<in> set (ms_lost s). load_cancelled s (fst x)) \<and>
     (\<forall>q r at rest had. ms_pc s = ETimeout q r at rest had \<longrightarrow> resolved s q \<longrightarrow> is_terminal s q)"

definition relaxed_ok :: "managed_stream \<Rightarrow> bool" where
  "relaxed_ok s \<longleftrightarrow> ms_ordered s = [] \<and> ms_next_delivery s = 0 \<and> ms_lost s = []"

definition cursor_ok :: "managed_stream \<Rightarrow> bool" where
  "cursor_ok s \<longleftrightarrow>
     (\<forall>q \<in> active_keys_of s. q < settled s) \<and>
     (\<forall>e l. ms_pc s = EExpire e l \<longrightarrow> ev_sequence e = settled s \<and> Suc (settled s) = taken s)"

lemma unresolved_iff: "unresolved s q \<longleftrightarrow> \<not> resolved s q"
  by (auto simp: unresolved_def resolved_def bt_get_None not_le)

lemma exec_cursor:
  assumes ok: "seq_ok s" "own_ok s" "small s" "cursor_ok s"
  shows "cursor_ok (exec_step now spawned s)"
proof -
  define t where "t = exec_step now spawned s"
  have "cursor_ok t"
  proof (cases rule: exec_cases [where s = s and now = now and spawned = spawned])
    case (launch launches progress e rest m)
    have "ms_accepted t = ms_accepted s" "ms_input t = rest" using launch by (simp_all add: t_def)
    note h = head_env_ok [OF ok(1,3) launch(3) this]
    with ok(4) launch show ?thesis
      by (auto simp: cursor_ok_def settled_def t_def set_keys_insert)
  next
    case (launch_expired launches progress e rest m)
    have "ms_accepted t = ms_accepted s" "ms_input t = rest" using launch_expired by (simp_all add: t_def)
    note h = head_env_ok [OF ok(1,3) launch_expired(3) this]
    with ok(4) launch_expired show ?thesis by (auto simp: cursor_ok_def settled_def t_def)
  next
    case (launch_cancelled launches progress e rest m)
    have "ms_accepted t = ms_accepted s" "ms_input t = rest" using launch_cancelled by (simp_all add: t_def)
    note h = head_env_ok [OF ok(1,3) launch_cancelled(3) this]
    with ok(4) launch_cancelled show ?thesis by (auto simp: cursor_ok_def settled_def t_def)
  next
    case (expire e launches)
    with ok(4) show ?thesis
      by (auto simp: cursor_ok_def settled_def t_def managed_eqs taken_def)
  next
    case (spawn e rest)
    with ok(4) show ?thesis by (auto simp: cursor_ok_def settled_def t_def managed_eqs taken_def)
  qed (use ok(4) in \<open>auto simp: cursor_ok_def settled_def t_def managed_eqs taken_def set_keys_remove
    split: executor_pc.splits\<close>)
  then show ?thesis by (simp add: t_def)
qed

text \<open>No two completions on their way belong to the same request.\<close>

definition comps :: "managed_stream \<Rightarrow> worker_completion list" where
  "comps s = ms_worker_completions s @ pc_comps (ms_pc s) @ concat (map worker_comps (ms_workers s))"

lemma comp_tokens_eq: "comp_tokens s = mset (concat (map (completion_token (ms_session_id s)) (comps s)))"
proof -
  have "concat (map (\<lambda>w. concat (map f (worker_comps w))) ws) = concat (map f (concat (map worker_comps ws)))"
    for f :: "worker_completion \<Rightarrow> (u64 \<times> stream_completion) list" and ws
    by (induction ws) auto
  then show ?thesis by (simp add: comp_tokens_def comps_def)
qed

lemma worker_comps_job: "mset (map wc_sequence (worker_comps w)) \<subseteq># mset (worker_job w)"
  by (cases "wk_pc w") (simp_all add: worker_comps_def worker_job_def running_def worker_completion_of_def)

lemma workers_comps_jobs:
  "mset (map wc_sequence (concat (map worker_comps ws))) \<subseteq># mset (concat (map worker_job ws))"
proof (induction ws)
  case (Cons w ws)
  with worker_comps_job [of w] show ?case by (simp add: subset_mset.add_mono)
qed simp

lemma pc_comps_jobs: "mset (map wc_sequence (pc_comps pc)) \<subseteq># mset (pc_jobs pc) + mset (pc_hand pc)"
  by (cases pc) simp_all

lemma comps_jobs: "mset (map wc_sequence (comps s)) \<subseteq># jobs s + mset (pc_hand (ms_pc s))"
proof -
  have "mset (map wc_sequence (comps s)) \<subseteq>#
      mset (map wc_sequence (ms_worker_completions s)) +
      ((mset (pc_jobs (ms_pc s)) + mset (pc_hand (ms_pc s))) + mset (concat (map worker_job (ms_workers s))))"
    using pc_comps_jobs [of "ms_pc s"] workers_comps_jobs [of "ms_workers s"]
    by (simp add: comps_def subset_mset.add_mono)
  then show ?thesis by (simp add: jobs_def ac_simps)
qed

lemma distinct_sub_mset:
  assumes "mset xs \<subseteq># mset ys" "distinct ys"
  shows "distinct xs"
proof -
  have "count (mset xs) a = (if a \<in> set xs then 1 else 0)" for a
  proof -
    have "count (mset xs) a \<le> count (mset ys) a" using assms(1) by (rule mset_subset_eq_count)
    also have "\<dots> \<le> 1" using assms(2) by (simp add: distinct_count_atmost_1)
    finally have le: "count (mset xs) a \<le> 1" .
    show ?thesis
    proof (cases "a \<in> set xs")
      case True
      with count_mset_gt_0 [OF True] le have "count (mset xs) a = 1" by linarith
      with True show ?thesis by simp
    qed simp
  qed
  then show ?thesis by (simp add: distinct_count_atmost_1)
qed

lemma comps_distinct:
  assumes "jobs_ok s" "own_ok s"
  shows "distinct (map wc_sequence (comps s))"
    and "c \<in> set (comps s) \<Longrightarrow> wc_sequence c \<in> active_keys_of s \<union> set (pc_hand (ms_pc s))"
proof -
  have j: "jobs s + mset (pc_hand (ms_pc s)) = mset (bt_keys (ms_active s) @ pc_hand (ms_pc s))"
    using assms(1) by (simp add: jobs_ok_def)
  have "distinct (bt_keys (ms_active s))"
    using assms(2) bt_inv_distinct by (auto simp: own_ok_def bt_keys_def)
  moreover have "distinct (pc_hand pc)" for pc by (cases pc) simp_all
  ultimately have "distinct (bt_keys (ms_active s) @ pc_hand (ms_pc s))"
    using assms(1) by (auto simp: jobs_ok_def)
  moreover note sub = comps_jobs [of s, unfolded j]
  ultimately show "distinct (map wc_sequence (comps s))" by (rule distinct_sub_mset [rotated])
  show "wc_sequence c \<in> active_keys_of s \<union> set (pc_hand (ms_pc s))" if "c \<in> set (comps s)"
    using set_mset_mono [OF sub] that by auto
qed

text \<open>
  A request that is neither resolved nor on its way with a result, but decided, was cancelled.
\<close>

lemma decided_cancelled:
  assumes ok: "tokens_ok s" "outcomes_ok s" "strict_ok s" and q: "q < length (ms_accepted s)" "is_terminal s q"
    and r: "\<not> resolved s q" and none: "\<And>c. c \<in> set (comps s) \<Longrightarrow> wc_sequence c = q \<Longrightarrow> wc_result c = None"
  shows "load_cancelled s q"
proof (rule ccontr)
  assume n: "\<not> load_cancelled s q"
  with ok(2) q obtain c where "(q, c) \<in> set (ms_outcomes s)" by (fastforce simp: outcomes_ok_def)
  then have "(q, c) \<in># mset (ms_outcomes s)" by simp
  moreover have "ms_relaxed s = []" using ok(3) by (simp add: strict_ok_def)
  ultimately have "(q, c) \<in># comp_tokens s + ordered_tokens s + mset (ms_published s) + mset (ms_lost s)"
    using ok(1) by (simp only: tokens_ok_def mset.simps add_0_right)
  then consider (comp) "(q, c) \<in># comp_tokens s" | (ord) "(q, c) \<in># ordered_tokens s" | (pub) "(q, c) \<in> set (ms_published s)"
    | (lost) "(q, c) \<in> set (ms_lost s)" by auto
  then show False
  proof cases
    case comp
    then obtain x where "x \<in> set (comps s)" "(q, c) \<in> set (completion_token (ms_session_id s) x)"
      by (auto simp: comp_tokens_eq)
    with none [of x] show False by (auto simp: completion_token_def split: option.splits)
  next
    case ord
    then have "q \<in> ordered_keys_of s"
      by (auto simp: ordered_tokens_def ordered_token_def tokens_of_def bt_keys_def split: option.splits)
    with r show False by (simp add: resolved_def)
  next
    case pub
    with ok(3) r show False by (auto simp: strict_ok_def resolved_def)
  next
    case lost
    with ok(3) n show False by (force simp: strict_ok_def)
  qed
qed

lemma two_members: "x \<in># A \<Longrightarrow> y \<in># B \<Longrightarrow> P x \<Longrightarrow> P y \<Longrightarrow> 2 \<le> size (filter_mset P (A + B + C))"
  by (auto dest!: multi_member_split)

text \<open>A result that arrives for a resolved request belongs to a cancelled one.\<close>

lemma late_cancelled:
  assumes ok: "tokens_ok s" "outcomes_ok s" "strict_ok s" and c: "c \<in> set (comps s)" "wc_result c \<noteq> None"
    and r: "resolved s (wc_sequence c)"
  shows "load_cancelled s (wc_sequence c)"
proof (rule ccontr)
  let ?q = "wc_sequence c"
  assume "\<not> load_cancelled s ?q"
  moreover have "answered s ?q" using ok(3) r by (simp add: strict_ok_def)
  ultimately obtain d where d: "(?q, d) \<in># ordered_tokens s + mset (ms_published s)"
    by (auto simp: answered_def)
  from c(2) obtain y where "wc_result c = Some y" by auto
  then obtain d' where "(?q, d') \<in> set (completion_token (ms_session_id s) c)" by (simp add: completion_token_def)
  with c(1) have "(?q, d') \<in># comp_tokens s" by (auto simp: comp_tokens_eq)
  from two_members [OF this d, of "\<lambda>x. fst x = ?q" "mset (ms_relaxed s) + mset (ms_lost s)"]
  have "2 \<le> size (filter_mset (\<lambda>x. fst x = ?q) (mset (ms_outcomes s)))"
    using ok(1) by (simp only: tokens_ok_def ac_simps) simp
  moreover have "size (filter_mset (\<lambda>x. fst x = ?q) (mset (ms_outcomes s))) \<le> 1"
  proof -
    have "distinct (map fst (filter (\<lambda>x. fst x = ?q) (ms_outcomes s)))"
      using ok(2) by (simp add: outcomes_ok_def distinct_map_filter)
    moreover have "set (map fst (filter (\<lambda>x. fst x = ?q) (ms_outcomes s))) \<subseteq> {?q}" by auto
    ultimately have "length (map fst (filter (\<lambda>x. fst x = ?q) (ms_outcomes s))) \<le> card {?q}"
      by (metis card_mono distinct_card finite.emptyI finite.insertI)
    then show ?thesis by (simp flip: mset_filter)
  qed
  ultimately show False by simp
qed

definition base_ok :: "managed_stream \<Rightarrow> bool" where
  "base_ok s \<longleftrightarrow> seq_ok s \<and> own_ok s \<and> phase_ok s \<and> refs_ok s \<and> outcomes_ok s"

definition live_ok :: "managed_stream \<Rightarrow> bool" where
  "live_ok s \<longleftrightarrow>
     jobs_ok s \<and> cursor_ok s \<and> tokens_ok s \<and> (if strict s then strict_ok s else relaxed_ok s)"

lemma fresh_ordered:
  assumes "live_ok s" "strict s" "settled s \<le> q"
  shows "bt_get (ms_ordered s) q = None" "\<not> resolved s q"
  using assms by (auto simp: live_ok_def strict_ok_def resolved_def bt_get_None)

lemma exec_tokens:
  assumes ok: "base_ok s" "live_ok s" "small s" and open': "\<not> ms_closed s"
  shows "tokens_ok (exec_step now spawned s)"
proof -
  have seq: "seq_ok s" and own: "own_ok s" and tok: "tokens_ok s" using ok by (simp_all add: base_ok_def live_ok_def)
  have phase: "ms_pc s \<noteq> EExit" using ok(1) open' by (auto simp: base_ok_def phase_ok_def)
  note defs = tokens_ok_def comp_tokens_def ordered_tokens_def managed_eqs
  show ?thesis
  proof (cases rule: exec_cases [where s = s and now = now and spawned = spawned])
    case (resolve c cs had)
    let ?b = "strict s \<and> unresolved s (wc_sequence c)"
    have "?b \<Longrightarrow> bt_get (ms_ordered s) (wc_sequence c) = None" by (simp add: unresolved_def)
    from ordered_tokens_put [of ?b, OF this] tok show ?thesis
      by (simp add: defs resolve strict_def unresolved_def completion_token_eq)
  next
    case (tombstone at q r rest had)
    let ?b = "strict s \<and> unresolved s q"
    have "?b \<Longrightarrow> bt_get (ms_ordered s) q = None" by (simp add: unresolved_def)
    from ordered_tokens_put [of ?b, OF this] tok show ?thesis by (simp add: defs tombstone)
  next
    case (time_out q r at rest had)
    have "(q, r) \<in> set (ms_active s)" "\<forall>x \<in> set (ms_active s). active_ok s x"
      using own time_out by (simp_all add: own_ok_def)
    then have r: "active_ok s (q, r)" by blast
    let ?d = "is_terminal s (aq_terminal r)"
    let ?b = "strict s \<and> \<not> ?d \<and> bt_get (ms_ordered s) q = None"
    have "bt_get (ms_ordered s) q = None" if "strict s" "\<not> ?d"
      using that ok(2) time_out(1) r by (fastforce simp: live_ok_def strict_ok_def resolved_def bt_get_None active_ok_def)
    with ordered_tokens_put [of ?b "ms_ordered s" q "ms_session_id s" "aq_request_id r" "timeout_result ?d"] tok show ?thesis
      by (auto simp: defs time_out timeout_result_def)
  next
    case (expire e launches)
    have "bt_get (ms_ordered s) (ev_sequence e) = None" if "strict s"
      using that expire ok(2) by (intro fresh_ordered) (auto simp: live_ok_def cursor_ok_def)
    from ordered_tokens_put [of "strict s", OF this] tok show ?thesis
      by (auto simp: defs expire)
  next
    case (launch_cancelled launches progress e rest m)
    let ?t = "exec_step now spawned s"
    have "ms_accepted ?t = ms_accepted s" "ms_input ?t = rest" using launch_cancelled by simp_all
    note h = head_env_ok [OF seq ok(3) launch_cancelled(3) this]
    have "bt_get (ms_ordered s) (ev_sequence e) = None" if "strict s"
      using that h launch_cancelled(1) ok(2) by (intro fresh_ordered) (auto simp: settled_def)
    from ordered_tokens_put [of "strict s", OF this] tok show ?thesis
      by (auto simp: defs launch_cancelled)
  next
    case (spawn e rest)
    with tok show ?thesis
      by (auto simp: defs worker_comps_def worker_completion_of_def completion_token_eq)
  next
    case (deliver had progress)
    have "strict s \<Longrightarrow> bt_inv (ms_ordered s)" using ok(2) by (simp add: live_ok_def strict_ok_def)
    note d = exec_deliver_tokens [OF this]
    have "comp_tokens (exec_deliver s\<lparr>ms_pc := ELaunch [] progress\<rparr>) = comp_tokens s"
      "ordered_tokens (exec_deliver s\<lparr>ms_pc := ELaunch [] progress\<rparr>) = ordered_tokens (exec_deliver s)"
      using deliver by (simp_all add: comp_tokens_def ordered_tokens_def)
    with tok d show ?thesis unfolding deliver tokens_ok_def
      by (simp add: add.assoc)
  qed (use tok open' phase in \<open>auto simp: defs ac_simps\<close>)
qed

lemma step_tokens:
  assumes ok: "base_ok s" "live_ok s" "small s" and open': "\<not> ms_closed (stream_step vs a s)"
  shows "tokens_ok (stream_step vs a s)"
proof -
  have tok: "tokens_ok s" using ok by (simp add: live_ok_def)
  note defs = tokens_ok_def comp_tokens_def ordered_tokens_def managed_eqs
  let ?f = "\<lambda>w. concat (map (completion_token (ms_session_id s)) (worker_comps w))"
  show ?thesis
  proof (cases rule: step_cases [where s = s and vs = vs and a = a])
    case (exec now spawned)
    with open' exec_tokens [OF ok] show ?thesis by simp
  next
    case (work i pc m)
    have "mset (concat (map ?f ((ms_workers s)[i := with_pc (ms_workers s ! i) pc]))) = mset (concat (map ?f (ms_workers s)))"
      using mset_concat_update [OF work(1), of ?f "with_pc (ms_workers s ! i) pc"] work(2)
      by (simp add: worker_comps_def)
    with tok show ?thesis by (simp add: defs work)
  next
    case (decide i res s' pc)
    let ?e = "wk_envelope (ms_workers s ! i)"
    let ?res = "if is_terminal s (ev_terminal ?e) then None else res"
    from decide(3) have pc: "pc = WPush ?res" by (auto simp: worker_finish_eq Let_def)
    have "mset (concat (map ?f ((ms_workers s)[i := with_pc (ms_workers s ! i) pc]))) =
      mset (concat (map ?f (ms_workers s))) + mset (tokens_of (ms_session_id s) (ev_sequence ?e) (ev_request_id ?e) ?res)"
      using mset_concat_update [OF decide(1), of ?f "with_pc (ms_workers s ! i) pc"] decide(2) pc
      by (simp add: worker_comps_def worker_completion_of_def completion_token_eq)
    with tok decide(3,4) show ?thesis by (auto simp: defs)
  next
    case (hand_over i res)
    let ?e = "wk_envelope (ms_workers s ! i)"
    have "mset (concat (map ?f (ms_workers s))) = mset (concat (map ?f ((ms_workers s)[i := with_pc (ms_workers s ! i) WExit]))) +
      mset (completion_token (ms_session_id s) (worker_completion_of ?e res))"
      using mset_concat_update [OF hand_over(1), of ?f "with_pc (ms_workers s ! i) WExit"] hand_over(2)
      by (simp add: worker_comps_def)
    with tok open' show ?thesis by (auto simp: defs hand_over)
  qed (use tok open' in \<open>auto simp: defs\<close>)
qed

lemma lost_bound:
  assumes "tokens_ok s" "outcomes_ok s" "seq_ok s" "x \<in> set (ms_lost s)"
  shows "fst x < length (ms_accepted s)"
proof -
  have "x \<in># mset (ms_outcomes s)" using assms(1,4) by (simp only: tokens_ok_def) simp
  with assms(2) have "fst x < taken s" by (auto simp: outcomes_ok_def)
  then show ?thesis by (rule seq_okD(3) [OF assms(3)])
qed

lemma settled_taken: "settled s \<le> taken s"
  by (simp add: settled_def split: executor_pc.splits)

lemma resolved_settled: "strict_ok s \<Longrightarrow> resolved s q \<Longrightarrow> q < settled s"
  by (auto simp: strict_ok_def resolved_def)

lemma answered_mono:
  assumes "answered s q" "grows s t" "q < length (ms_terminals s)"
    and "\<And>c. (q, c) \<in># ordered_tokens s \<Longrightarrow> (q, c) \<in># ordered_tokens t \<or> (q, c) \<in> set (ms_published t)"
    and "set (ms_published s) \<subseteq> set (ms_published t)"
  shows "answered t q"
  using assms unfolding answered_def grows_def by blast

text \<open>
  A step that resolves nothing: it may drop a request from its hands once that is resolved, and
  may take further requests from the mailbox.
\<close>

lemma strict_ok_keep:
  assumes ok: "strict_ok s" "seq_ok s" and g: "grows s t"
    and f: "ms_ordered t = ms_ordered s" "ms_relaxed t = ms_relaxed s" "ms_next_delivery t = ms_next_delivery s"
      "ms_published t = ms_published s" "settled s \<le> settled t"
    and cov: "\<And>p. p < settled t \<Longrightarrow> p < settled s \<longrightarrow> p \<in> active_keys_of s \<union> set (pc_hand (ms_pc s)) \<Longrightarrow>
      p \<in> active_keys_of t \<union> set (pc_hand (ms_pc t)) \<or> resolved s p"
    and lost: "\<forall>x \<in> set (ms_lost t). load_cancelled t (fst x)"
    and exp: "\<And>q r at rest had. ms_pc t = ETimeout q r at rest had \<Longrightarrow> resolved s q \<Longrightarrow> is_terminal t q"
  shows "strict_ok t"
proof -
  have sess: "ms_session_id t = ms_session_id s" using g by (simp add: grows_def)
  have res: "resolved t q = resolved s q" for q by (simp add: resolved_def f)
  have tok: "ordered_tokens t = ordered_tokens s" by (simp add: ordered_tokens_def f sess)
  have "answered t q" if "resolved s q" for q
  proof (rule answered_mono [OF _ g])
    show "answered s q" using that ok(1) by (simp add: strict_ok_def)
    show "q < length (ms_terminals s)"
      using resolved_settled [OF ok(1) that] settled_taken [of s] seq_okD(1) [OF ok(2)] by (simp add: taken_def)
  qed (simp_all add: tok f)
  moreover have "\<forall>p < settled t. resolved s p \<or> p \<in> active_keys_of t \<or> p \<in> set (pc_hand (ms_pc t))"
    using ok(1) cov unfolding strict_ok_def by blast
  moreover have "ms_next_delivery s \<le> settled t" "\<forall>q \<in> ordered_keys_of s. ms_next_delivery s \<le> q \<and> q < settled t"
    using ok(1) f(5) by (auto simp: strict_ok_def)
  ultimately show ?thesis using ok(1) exp lost
    by (simp add: strict_ok_def res f)
qed

text \<open>A step that resolves one request.\<close>

lemma strict_ok_put:
  assumes ok: "strict_ok s" "seq_ok s" and g: "grows s t"
    and f: "ms_ordered t = bt_insert q \<lparr>or_request_id = r, or_result = res\<rparr> (ms_ordered s)"
      "ms_relaxed t = ms_relaxed s" "ms_next_delivery t = ms_next_delivery s" "ms_published t = ms_published s"
      "settled s \<le> settled t"
    and q: "\<not> resolved s q" "q < settled t" "res = None \<Longrightarrow> load_cancelled t q"
    and cov: "\<And>p. p < settled t \<Longrightarrow> p < settled s \<longrightarrow> p \<in> active_keys_of s \<union> set (pc_hand (ms_pc s)) \<Longrightarrow>
      p \<in> active_keys_of t \<union> set (pc_hand (ms_pc t)) \<or> resolved s p \<or> p = q"
    and lost: "\<forall>x \<in> set (ms_lost t). load_cancelled t (fst x)"
    and exp: "\<And>q r at rest had. ms_pc t \<noteq> ETimeout q r at rest had"
  shows "strict_ok t"
proof -
  have sess: "ms_session_id t = ms_session_id s" using g by (simp add: grows_def)
  have res: "resolved t p \<longleftrightarrow> resolved s p \<or> p = q" for p by (auto simp: resolved_def f set_keys_insert)
  have none: "bt_get (ms_ordered s) q = None" using q(1) by (auto simp: resolved_def bt_get_None)
  have tok: "ordered_tokens t = mset (tokens_of (ms_session_id s) q r res) + ordered_tokens s"
    by (simp add: ordered_tokens_def f sess mset_concat_insert [OF none] ordered_token_def)
  have "answered t p" if "resolved t p" for p
  proof (cases "p = q")
    case True
    show ?thesis
    proof (cases res)
      case None
      with q(3) True show ?thesis by (simp add: answered_def)
    next
      case (Some x)
      with True tok show ?thesis by (auto simp: answered_def)
    qed
  next
    case False
    with that res have rs: "resolved s p" by simp
    show ?thesis
    proof (rule answered_mono [OF _ g])
      show "answered s p" using rs ok(1) by (simp add: strict_ok_def)
      show "p < length (ms_terminals s)"
        using resolved_settled [OF ok(1) rs] settled_taken [of s] seq_okD(1) [OF ok(2)] by (simp add: taken_def)
    qed (simp_all add: tok f)
  qed
  moreover have "\<forall>p < settled t. resolved t p \<or> p \<in> active_keys_of t \<or> p \<in> set (pc_hand (ms_pc t))"
    using ok(1) cov res unfolding strict_ok_def by blast
  moreover have ob: "\<forall>p \<in> ordered_keys_of s. ms_next_delivery s \<le> p \<and> p < settled s" "ms_next_delivery s \<le> settled s"
    using ok(1) by (simp_all add: strict_ok_def)
  then have "ms_next_delivery s \<le> settled t" "\<forall>p \<in> ordered_keys_of t. ms_next_delivery s \<le> p \<and> p < settled t"
    using f(5) q(1,2) by (auto simp: f set_keys_insert resolved_def intro: less_le_trans)
  moreover have "bt_inv (ms_ordered t)" using ok(1) by (simp add: strict_ok_def f bt_inv_insert)
  ultimately show ?thesis using ok(1) exp lost by (simp add: strict_ok_def f)
qed

lemma strict_ok_metrics: "strict_ok (s\<lparr>ms_metrics := m\<rparr>) = strict_ok s"
proof -
  have "settled (s\<lparr>ms_metrics := m\<rparr>) = settled s" by (simp add: settled_def taken_def split: executor_pc.splits)
  moreover have "answered (s\<lparr>ms_metrics := m\<rparr>) q = answered s q" "resolved (s\<lparr>ms_metrics := m\<rparr>) q = resolved s q" for q
    by (simp_all add: answered_def resolved_def load_cancelled_def ordered_tokens_def)
  ultimately show ?thesis by (simp add: strict_ok_def flag_defs)
qed

lemma advance_delivery_keep [simp]:
  "ms_pc (advance_delivery r s) = ms_pc s" "ms_active (advance_delivery r s) = ms_active s"
  "ms_lost (advance_delivery r s) = ms_lost s" "ms_terminals (advance_delivery r s) = ms_terminals s"
  "settled (advance_delivery r s) = settled s"
  by (simp_all add: advance_delivery_def publish_result_def settled_def taken_def Let_def
      split: option.splits executor_pc.splits)

lemma advance_strict_ok:
  assumes ok: "strict_ok s" and r: "bt_get (ms_ordered s) (ms_next_delivery s) = Some r"
  shows "strict_ok (advance_delivery r s)"
proof -
  let ?t = "advance_delivery r s" and ?n = "ms_next_delivery s"
  have inv: "bt_inv (ms_ordered s)" using ok by (simp add: strict_ok_def)
  note a = advance_delivery_facts [OF inv r]
  have n: "?n \<in> ordered_keys_of s" using r inv by (force simp: bt_get_iff bt_keys_def)
  have res: "resolved ?t q = resolved s q" for q
    using n by (auto simp: resolved_def a set_keys_remove less_Suc_eq)
  have pub: "\<exists>l. ms_published ?t = ms_published s @ l \<and> (l = [] \<or> (\<exists>c. l = [(?n, c)]))"
    by (auto simp: advance_delivery_def publish_result_def Let_def split: option.splits)
  have ans: "answered ?t q" if "answered s q" for q
  proof -
    have "(q, c) \<in># ordered_tokens ?t + mset (ms_published ?t)" if "(q, c) \<in># ordered_tokens s + mset (ms_published s)" for c
      using that by (simp only: a(1))
    with that show ?thesis by (auto simp: answered_def load_cancelled_def)
  qed
  have "\<forall>x \<in> set (ms_published s). fst x < ?n" "sorted_wrt (<) (map fst (ms_published s))"
    using ok by (simp_all add: strict_ok_def)
  with pub have "\<forall>x \<in> set (ms_published ?t). fst x < Suc ?n" "sorted_wrt (<) (map fst (ms_published ?t))"
    by (auto simp: sorted_wrt_append less_Suc_eq)
  moreover have "Suc ?n \<le> settled s" "\<forall>q \<in> ordered_keys_of ?t. Suc ?n \<le> q \<and> q < settled s"
    using ok n by (auto simp: strict_ok_def set_keys_remove Suc_le_eq le_neq_implies_less)
  ultimately show ?thesis using ok ans a
    by (simp add: strict_ok_def res flag_defs)
qed

lemma deliver_strict_ok: "strict_ok s \<Longrightarrow> strict_ok (deliver_strict s)"
proof (induction s rule: deliver_strict.induct)
  case (1 s)
  show ?case
  proof (cases "bt_get (ms_ordered s) (ms_next_delivery s)")
    case None
    with 1(2) show ?thesis by (subst deliver_strict.simps) simp
  next
    case (Some r)
    show ?thesis
    proof (cases "or_result r \<noteq> None \<and> length (ms_results s) = mo_result_capacity (ms_options s)")
      case True
      with Some have "deliver_strict s = count_backpressure s" by (subst deliver_strict.simps) simp
      with 1(2) show ?thesis by (simp add: count_backpressure_def strict_ok_metrics)
    next
      case False
      with Some have "deliver_strict s = deliver_strict (advance_delivery r s)" by (subst deliver_strict.simps) auto
      with 1(1) [OF Some False advance_strict_ok [OF 1(2) Some]] show ?thesis by simp
    qed
  qed
qed

lemma exec_deliver_strict_ok:
  assumes "strict_ok s" "strict s"
  shows "strict_ok (exec_deliver s)"
proof -
  have "ms_relaxed s = []" using assms(1) by (simp add: strict_ok_def)
  then have "deliver_relaxed s = s" by (simp add: deliver_relaxed_def Let_def)
  with assms deliver_strict_ok [OF assms(1)] show ?thesis
    by (simp add: exec_deliver_def strict_def strict_ok_metrics Let_def)
qed

lemma lost_keep:
  assumes "base_ok s" "live_ok s" "strict s" "grows s t" "x \<in> set (ms_lost s)"
  shows "load_cancelled t (fst x)"
proof -
  have "fst x < length (ms_accepted s)"
    using lost_bound [of s x] assms by (simp add: base_ok_def live_ok_def)
  moreover have "load_cancelled s (fst x)" using assms by (simp add: live_ok_def strict_ok_def)
  ultimately show ?thesis
    using assms seq_okD(1) [of s] by (simp add: base_ok_def grows_def)
qed

lemma exec_strict:
  assumes ok: "base_ok s" "live_ok s" "small s" "strict s" and open': "\<not> ms_closed s"
  shows "strict_ok (exec_step now spawned s)"
proof -
  have seq: "seq_ok s" and own: "own_ok s" and st: "strict_ok s" and jobs: "jobs_ok s" and cur: "cursor_ok s"
    and tok: "tokens_ok s" and out: "outcomes_ok s"
    using ok by (simp_all add: base_ok_def live_ok_def)
  have phase: "ms_pc s \<noteq> EExit" using ok(1) open' by (auto simp: base_ok_def phase_ok_def)
  define t where "t = exec_step now spawned s"
  have g: "grows s t" by (simp add: t_def exec_grows)
  note lost = lost_keep [OF ok(1,2,4) g]
  note keep = strict_ok_keep [OF st seq g] and put = strict_ok_put [OF st seq g]
  note view = t_def managed_eqs settled_def taken_def ok(4)
  have "strict_ok t"
  proof (cases rule: exec_cases [where s = s and now = now and spawned = spawned])
    case (complete c cs had m)
    with lost show ?thesis by (intro keep) (auto simp: view set_keys_remove)
  next
    case (resolve c cs had)
    let ?q = "wc_sequence c"
    have c: "c \<in> set (comps s)" using resolve by (simp add: comps_def)
    have q: "?q < settled s" "comp_ok s c"
      using own resolve by (auto simp: own_ok_def comp_ok_def settled_def)
    show ?thesis
    proof (cases "resolved s ?q")
      case True
      have late: "load_cancelled t ?q" if "wc_result c \<noteq> None"
        using late_cancelled [OF tok out st c that True] q(2) g seq_okD(1,3) [OF seq]
        by (auto simp: comp_ok_def grows_def)
      have r: "unresolved (s\<lparr>ms_registrations := bt_remove (wc_request_id c) (ms_registrations s)\<rparr>) ?q = False"
        "strict (s\<lparr>ms_registrations := bt_remove (wc_request_id c) (ms_registrations s)\<rparr>)"
        using True ok(4) by (auto simp: unresolved_def resolved_def bt_get_None strict_def)
      with resolve True have t: "t = s\<lparr>ms_registrations := bt_remove (wc_request_id c) (ms_registrations s),
        ms_lost := ms_lost s @ completion_token (ms_session_id s) c, ms_pc := EComplete cs had\<rparr>"
        by (simp add: t_def exec_resolve_eq put_ordered_def Let_def)
      show ?thesis
      proof (rule keep)
        show "\<forall>x \<in> set (ms_lost t). load_cancelled t (fst x)"
          using lost late by (auto simp: t completion_token_def split: option.splits)
      qed (use True resolve in \<open>auto simp: t settled_def taken_def\<close>)
    next
      case False
      have r: "unresolved (s\<lparr>ms_registrations := bt_remove (wc_request_id c) (ms_registrations s)\<rparr>) ?q"
        "strict (s\<lparr>ms_registrations := bt_remove (wc_request_id c) (ms_registrations s)\<rparr>)"
        using False ok(4) by (auto simp: unresolved_def resolved_def bt_get_None strict_def not_less)
      with resolve have t: "t = s\<lparr>ms_registrations := bt_remove (wc_request_id c) (ms_registrations s),
        ms_ordered := bt_insert ?q \<lparr>or_request_id = wc_request_id c, or_result = wc_result c\<rparr> (ms_ordered s),
        ms_pc := EComplete cs had\<rparr>"
        by (simp add: t_def exec_resolve_eq put_ordered_def Let_def)
      have "load_cancelled s ?q" if "wc_result c = None"
      proof (rule decided_cancelled [OF tok out st _ _ False])
        show "?q < length (ms_accepted s)" "is_terminal s ?q"
          using q(2) seq_okD(3) [OF seq] by (auto simp: comp_ok_def)
        show "wc_result x = None" if "x \<in> set (comps s)" "wc_sequence x = ?q" for x
          using comps_distinct(1) [OF jobs own] c that \<open>wc_result c = None\<close> by (auto simp: distinct_map inj_on_def)
      qed
      then have "wc_result c = None \<Longrightarrow> load_cancelled t ?q" by (simp add: t load_cancelled_def)
      with False q(1) lost resolve show ?thesis
        by (intro put) (auto simp: t settled_def taken_def)
    qed
  next
    case (tombstone at q r rest had)
    have "(q, r) \<in> set (ms_active s)" "\<forall>x \<in> set (ms_active s). active_ok s x"
      using own tombstone by (simp_all add: own_ok_def)
    then have r: "active_ok s (q, r)" by blast
    show ?thesis
    proof (cases "resolved s q")
      case True
      with tombstone have "t = s\<lparr>ms_pc := EScan at rest had\<rparr>"
        by (simp add: t_def exec_tombstone_eq put_ordered_def unresolved_iff)
      with tombstone lost show ?thesis by (intro keep) (auto simp: settled_def taken_def)
    next
      case False
      with tombstone ok(4) have "t = s\<lparr>ms_ordered := bt_insert q \<lparr>or_request_id = aq_request_id r, or_result = None\<rparr>
          (ms_ordered s), ms_pc := EScan at rest had\<rparr>"
        by (simp add: t_def exec_tombstone_eq put_ordered_def unresolved_iff)
      with False tombstone lost r show ?thesis
        by (intro put) (auto simp: settled_def taken_def active_ok_def load_cancelled_def)
    qed
  next
    case (expired at q r rest had)
    have "(q, r) \<in> set (ms_active s)" "\<forall>x \<in> set (ms_active s). active_ok s x"
      using own expired by (simp_all add: own_ok_def)
    then have r: "active_ok s (q, r)" by blast
    have "is_terminal s q" if "resolved s q"
    proof -
      have "answered s q" using st that by (simp add: strict_ok_def)
      then obtain c where "(q, c) \<in># ordered_tokens s + mset (ms_published s)"
        using expired(2) r by (auto simp: answered_def active_ok_def)
      then have "(q, c) \<in># mset (ms_outcomes s)" using tok by (simp only: tokens_ok_def) auto
      then show ?thesis using out by (auto simp: outcomes_ok_def)
    qed
    then have "is_terminal t q" if "resolved s q" using that expired by (simp add: t_def is_terminal_def)
    with expired lost show ?thesis by (intro keep) (auto simp: t_def settled_def taken_def)
  next
    case (time_out q r at rest had)
    have "(q, r) \<in> set (ms_active s)" "\<forall>x \<in> set (ms_active s). active_ok s x"
      using own time_out by (simp_all add: own_ok_def)
    then have r: "active_ok s (q, r)" by blast
    show ?thesis
    proof (cases "is_terminal s q")
      case True
      with time_out r lost show ?thesis
        by (intro keep) (auto simp: view active_ok_def put_ordered_def)
    next
      case False
      then have n: "\<not> resolved s q" using st time_out by (auto simp: strict_ok_def)
      then have "bt_get (ms_ordered s) q = None" by (simp add: resolved_def bt_get_None)
      with False r time_out have "ms_ordered t = bt_insert q \<lparr>or_request_id = aq_request_id r,
          or_result = Some (ResFailed service_timeout)\<rparr> (ms_ordered s)"
        by (simp add: view active_ok_def put_ordered_def timeout_result_def)
      with n time_out lost r show ?thesis
        by (intro put) (auto simp: view active_ok_def)
    qed
  next
    case (deliver had progress)
    from exec_deliver_strict_ok [OF st ok(4)] have d: "strict_ok (exec_deliver s)" .
    have "settled t = settled (exec_deliver s)" "ordered_tokens t = ordered_tokens (exec_deliver s)"
      using deliver by (simp_all add: t_def settled_def taken_def ordered_tokens_def)
    moreover have "resolved t q = resolved (exec_deliver s) q" "answered t q = answered (exec_deliver s) q" for q
      using deliver \<open>ordered_tokens t = _\<close> by (simp_all add: t_def resolved_def answered_def load_cancelled_def)
    ultimately show ?thesis using d deliver by (simp add: strict_ok_def t_def flag_defs)
  next
    case (launch_cancelled launches progress e rest m)
    have "ms_accepted t = ms_accepted s" "ms_input t = rest" using launch_cancelled by (simp_all add: t_def)
    note h = head_env_ok [OF seq ok(3) launch_cancelled(3) this]
    have s: "settled s = taken s" "settled t = Suc (taken s)" using launch_cancelled h by (simp_all add: settled_def t_def)
    have n: "\<not> resolved s (ev_sequence e)" using h s fresh_ordered [OF ok(2,4)] by simp
    from launch_cancelled n h s lost ok(4) show ?thesis
      by (intro put [where q = "ev_sequence e" and r = "ev_request_id e" and res = None])
         (auto simp: t_def put_ordered_def load_cancelled_def less_Suc_eq)
  next
    case (launch_expired launches progress e rest m)
    have "ms_accepted t = ms_accepted s" "ms_input t = rest" using launch_expired by (simp_all add: t_def)
    note h = head_env_ok [OF seq ok(3) launch_expired(3) this]
    have s: "settled s = taken s" "settled t = taken s" using launch_expired h by (simp_all add: settled_def t_def)
    from launch_expired s lost show ?thesis by (intro keep) (auto simp: t_def)
  next
    case (launch launches progress e rest m)
    have "ms_accepted t = ms_accepted s" "ms_input t = rest" using launch by (simp_all add: t_def)
    note h = head_env_ok [OF seq ok(3) launch(3) this]
    have s: "settled s = taken s" "settled t = Suc (taken s)" using launch h by (simp_all add: settled_def t_def)
    from launch h s lost show ?thesis by (intro keep) (auto simp: t_def set_keys_insert less_Suc_eq)
  next
    case (expire e launches)
    let ?q = "ev_sequence e"
    have s: "?q = settled s" "Suc (settled s) = taken s" using cur expire by (auto simp: cursor_ok_def)
    have e: "env_ok s e" using own expire by (simp add: own_ok_def)
    have st': "settled t = Suc (settled s)" using expire s by (simp add: view)
    have n: "\<not> resolved s ?q" using s fresh_ordered [OF ok(2,4)] by simp
    have canc: "load_cancelled s ?q" if "is_terminal s ?q"
    proof (rule decided_cancelled [OF tok out st _ that n])
      show "?q < length (ms_accepted s)" using env_okD [OF e] seq_okD(3) [OF seq] by blast
      show "wc_result c = None" if "c \<in> set (comps s)" "wc_sequence c = ?q" for c
      proof -
        have "?q \<notin> active_keys_of s" using cur s by (force simp: cursor_ok_def)
        moreover have "c \<in> set (ms_worker_completions s) \<or> c \<in> set (concat (map worker_comps (ms_workers s)))"
          using that expire by (auto simp: comps_def)
        then have "wc_sequence c \<in># jobs s"
          using set_mset_mono [OF workers_comps_jobs [of "ms_workers s"]] by (auto simp: jobs_def)
        ultimately show ?thesis using that(2) set_jobs [OF jobs] by simp
      qed
    qed
    have "load_cancelled t ?q" if "is_terminal s ?q"
      using canc [OF that] g env_okD [OF e] seq_okD(1,3) [OF seq] by (auto simp: grows_def)
    moreover have "ms_ordered t = bt_insert ?q \<lparr>or_request_id = ev_request_id e, or_result = timeout_result (is_terminal s ?q)\<rparr> (ms_ordered s)"
      using expire env_okD [OF e] ok(4) by (simp add: t_def managed_eqs put_ordered_def)
    moreover have f: "ms_relaxed t = ms_relaxed s" "ms_next_delivery t = ms_next_delivery s" "ms_lost t = ms_lost s"
      "ms_published t = ms_published s" "ms_active t = ms_active s" "ms_pc t = ELaunch launches True"
      using expire ok(4) by (simp_all add: t_def managed_eqs)
    ultimately show ?thesis using expire(1) n lost s st'
      by (intro put [where q = ?q and r = "ev_request_id e" and res = "timeout_result (is_terminal s ?q)"])
         (auto simp: timeout_result_def less_Suc_eq split: if_splits)
  next
    case (spawn e rest)
    with lost show ?thesis by (intro keep) (auto simp: view split: if_splits)
  qed (rule keep; use lost open' phase in \<open>auto simp: view split: if_splits\<close>)+
  then show ?thesis by (simp add: t_def)
qed

lemma exec_relaxed: "relaxed_ok s \<Longrightarrow> \<not> strict s \<Longrightarrow> relaxed_ok (exec_step now spawned s)"
proof (cases rule: exec_cases [where s = s and now = now and spawned = spawned])
  case (deliver had progress)
  assume "relaxed_ok s" "\<not> strict s"
  with deliver deliver_relaxed_tokens(2,3) [of s] exec_deliver_fields(19) [of s] show ?thesis
    by (simp add: relaxed_ok_def exec_deliver_def strict_def Let_def)
next
  case (resolve c cs had)
  assume "relaxed_ok s" "\<not> strict s"
  with resolve show ?thesis by (simp add: relaxed_ok_def managed_eqs put_ordered_def strict_def)
qed (auto simp: relaxed_ok_def managed_eqs put_ordered_def)

lemma step_live:
  assumes ok: "base_ok s" "live_ok s" "small s" and open': "\<not> ms_closed (stream_step vs a s)"
  shows "live_ok (stream_step vs a s)"
proof -
  define t where "t = stream_step vs a s"
  have seq: "seq_ok s" and own: "own_ok s" and phase: "phase_ok s" and jobs: "jobs_ok s" and cur: "cursor_ok s"
    using ok by (simp_all add: base_ok_def live_ok_def)
  have g: "grows s t" unfolding t_def by (rule step_grows [OF seq])
  have mode: "strict t = strict s" using g by (simp add: grows_def strict_def)
  have "jobs_ok t" "tokens_ok t"
    unfolding t_def using step_jobs [OF seq own ok(3) phase jobs open'] step_tokens [OF ok open'] by simp_all
  moreover have "cursor_ok t \<and> (if strict s then strict_ok t else relaxed_ok t)"
  proof (cases "\<exists>now spawned. stream_step vs a s = exec_step now spawned s")
    case True
    then obtain now spawned where e: "t = exec_step now spawned s" by (auto simp: t_def)
    then have "\<not> ms_closed s" using open' by (simp add: t_def)
    with e ok exec_cursor [OF seq own ok(3) cur] exec_strict [OF ok] exec_relaxed [of s] show ?thesis
      by (simp add: live_ok_def)
  next
    case False
    have f: "ms_ordered t = ms_ordered s \<and> ms_relaxed t = ms_relaxed s \<and> ms_next_delivery t = ms_next_delivery s \<and>
      ms_published t = ms_published s \<and> ms_active t = ms_active s \<and> ms_pc t = ms_pc s \<and> ms_lost t = ms_lost s \<and>
      taken t = taken s"
      by (cases rule: step_cases [where s = s and vs = vs and a = a])
         (use False open' seq_okD(2) [OF seq] in \<open>auto simp: t_def managed_eqs taken_def\<close>)
    then have "settled t = settled s" by (simp add: settled_def split: executor_pc.splits)
    moreover have "strict_ok t" if "strict s"
    proof (rule strict_ok_keep [OF _ seq g])
      show "strict_ok s" using that ok(2) by (simp add: live_ok_def)
      then show "is_terminal t q" if "ms_pc t = ETimeout q r at rest had" "resolved s q" for q r at rest had
        using that g f resolved_settled [of s q] settled_taken [of s] seq_okD(1,3) [OF seq]
        by (fastforce simp: strict_ok_def grows_def)
      show "\<forall>x \<in> set (ms_lost t). load_cancelled t (fst x)"
        using lost_keep [OF ok(1,2) that g] f by auto
    qed (use f \<open>settled t = settled s\<close> in auto)
    ultimately show ?thesis using cur ok(2) f by (auto simp: cursor_ok_def live_ok_def relaxed_ok_def)
  qed
  ultimately show ?thesis by (simp add: live_ok_def mode flip: t_def)
qed

section \<open>Every interleaving\<close>

definition stream_inv :: "managed_stream \<Rightarrow> bool" where
  "stream_inv s \<longleftrightarrow> seq_ok s \<and> phase_ok s \<and> (small s \<longrightarrow> base_ok s \<and> (\<not> ms_closed s \<longrightarrow> live_ok s))"

lemma step_stream_inv:
  assumes "stream_inv s"
  shows "stream_inv (stream_step vs a s)"
proof -
  have base: "seq_ok s" "phase_ok s" using assms by (simp_all add: stream_inv_def)
  have closed: "ms_closed s \<Longrightarrow> ms_closed (stream_step vs a s)"
    by (cases rule: step_cases [where s = s and vs = vs and a = a]) (auto simp: managed_eqs)
  show ?thesis
  proof (cases "small (stream_step vs a s)")
    case True
    then have "small s" by (rule step_small [OF base(1)])
    then have b: "base_ok s" "\<not> ms_closed s \<Longrightarrow> live_ok s" using assms by (simp_all add: stream_inv_def)
    then have "base_ok (stream_step vs a s)"
      using \<open>small s\<close> base step_seq_ok step_own step_phase step_refs step_outcomes unfolding base_ok_def by simp
    with b closed \<open>small s\<close> base step_live [of s] step_seq_ok step_phase show ?thesis
      by (auto simp: stream_inv_def)
  next
    case False
    with base show ?thesis by (simp add: stream_inv_def step_seq_ok step_phase)
  qed
qed

lemma managed_stream_new_inv: "stream_inv (managed_stream_new session options)"
  by (auto simp: stream_inv_def managed_stream_new_def seq_ok_def phase_ok_def base_ok_def own_ok_def refs_ok_def
      refs_view_def outcomes_ok_def live_ok_def jobs_ok_def jobs_def cursor_ok_def tokens_ok_def comp_tokens_def
      ordered_tokens_def strict_ok_def relaxed_ok_def resolved_def taken_def settled_def bt_keys_def)

section \<open>What is published and received\<close>

lemma move_relaxed_append:
  "\<exists>l. ms_published (move_relaxed xs s) = ms_published s @ l \<and> ms_results (move_relaxed xs s) = ms_results s @ map snd l \<and>
     (length (ms_results s) \<le> mo_result_capacity (ms_options s) \<longrightarrow>
      length (ms_results (move_relaxed xs s)) \<le> mo_result_capacity (ms_options s))"
proof (induction xs s rule: move_relaxed.induct)
  case (2 x xs s)
  show ?case
  proof (cases "length (ms_results s) < mo_result_capacity (ms_options s)")
    case True
    from 2 [OF True] obtain l where l: "ms_published (move_relaxed xs (publish_result (fst x) (snd x) s)) =
        ms_published s @ (fst x, snd x) # l"
      "ms_results (move_relaxed xs (publish_result (fst x) (snd x) s)) = ms_results s @ snd x # map snd l"
      "length (ms_results (move_relaxed xs (publish_result (fst x) (snd x) s))) \<le> mo_result_capacity (ms_options s)"
      using True by (auto simp: publish_result_def)
    with True show ?thesis by (intro exI [of _ "(fst x, snd x) # l"]) simp
  qed simp
qed simp

lemma deliver_strict_append:
  "\<exists>l. ms_published (deliver_strict s) = ms_published s @ l \<and> ms_results (deliver_strict s) = ms_results s @ map snd l \<and>
     (length (ms_results s) \<le> mo_result_capacity (ms_options s) \<longrightarrow>
      length (ms_results (deliver_strict s)) \<le> mo_result_capacity (ms_options s))"
proof (induction s rule: deliver_strict.induct)
  case (1 s)
  show ?case
  proof (cases "bt_get (ms_ordered s) (ms_next_delivery s)")
    case None
    then show ?thesis by (subst (1 2 3) deliver_strict.simps) simp
  next
    case (Some r)
    show ?thesis
    proof (cases "or_result r \<noteq> None \<and> length (ms_results s) = mo_result_capacity (ms_options s)")
      case True
      with Some have "deliver_strict s = count_backpressure s" by (subst deliver_strict.simps) simp
      then show ?thesis by (simp add: count_backpressure_def)
    next
      case False
      then have e: "deliver_strict s = deliver_strict (advance_delivery r s)"
        using Some by (subst deliver_strict.simps) auto
      obtain k where k: "ms_published (advance_delivery r s) = ms_published s @ k"
        "ms_results (advance_delivery r s) = ms_results s @ map snd k"
        "ms_options (advance_delivery r s) = ms_options s"
        "length (ms_results s) \<le> mo_result_capacity (ms_options s) \<longrightarrow>
         length (ms_results (advance_delivery r s)) \<le> mo_result_capacity (ms_options s)"
        using False by (cases "or_result r") (auto simp: advance_delivery_def publish_result_def Let_def)
      from 1 [OF Some False] k obtain l where "ms_published (deliver_strict s) = ms_published s @ k @ l"
        "ms_results (deliver_strict s) = ms_results s @ map snd (k @ l)"
        "length (ms_results s) \<le> mo_result_capacity (ms_options s) \<longrightarrow>
         length (ms_results (deliver_strict s)) \<le> mo_result_capacity (ms_options s)"
        unfolding e by auto
      then show ?thesis by blast
    qed
  qed
qed

lemma exec_deliver_append:
  obtains l where "ms_published (exec_deliver s) = ms_published s @ l"
    "ms_results (exec_deliver s) = ms_results s @ map snd l"
    "length (ms_results s) \<le> mo_result_capacity (ms_options s) \<Longrightarrow>
     length (ms_results (exec_deliver s)) \<le> mo_result_capacity (ms_options s)"
proof -
  let ?d = "deliver_relaxed s"
  have "ms_published ?d = ms_published (move_relaxed (ms_relaxed s) s)"
    "ms_results ?d = ms_results (move_relaxed (ms_relaxed s) s)"
    by (simp_all add: deliver_relaxed_def count_backpressure_def Let_def)
  then obtain k where k: "ms_published ?d = ms_published s @ k" "ms_results ?d = ms_results s @ map snd k"
    "length (ms_results s) \<le> mo_result_capacity (ms_options s) \<longrightarrow> length (ms_results ?d) \<le> mo_result_capacity (ms_options s)"
    using move_relaxed_append [of "ms_relaxed s" s] by auto
  from deliver_strict_append [of ?d] obtain l where l: "ms_published (deliver_strict ?d) = ms_published ?d @ l"
    "ms_results (deliver_strict ?d) = ms_results ?d @ map snd l"
    "length (ms_results ?d) \<le> mo_result_capacity (ms_options s) \<longrightarrow>
     length (ms_results (deliver_strict ?d)) \<le> mo_result_capacity (ms_options s)" by auto
  show thesis
  proof (cases "strict s")
    case True
    with k l show thesis by (intro that [of "k @ l"]) (simp_all add: exec_deliver_def strict_def Let_def)
  next
    case False
    with k show thesis by (intro that [of k]) (simp_all add: exec_deliver_def strict_def Let_def)
  qed
qed

definition history_ok :: "managed_stream \<Rightarrow> bool" where
  "history_ok s \<longleftrightarrow>
     length (ms_input s) \<le> mo_input_capacity (ms_options s) \<and>
     length (ms_results s) \<le> mo_result_capacity (ms_options s) \<and>
     (\<exists>rest. map snd (ms_published s) = ms_received s @ rest \<and> (\<not> ms_closed s \<longrightarrow> rest = ms_results s))"

lemma step_history:
  assumes "history_ok s" "phase_ok s"
  shows "history_ok (stream_step vs a s)"
proof (cases rule: step_cases [where s = s and vs = vs and a = a])
  case (exec now spawned)
  show ?thesis
  proof (cases rule: exec_cases [where s = s and now = now and spawned = spawned])
    case (deliver had progress)
    from exec_deliver_append [of s] obtain l where "ms_published (exec_deliver s) = ms_published s @ l"
      "ms_results (exec_deliver s) = ms_results s @ map snd l"
      "length (ms_results s) \<le> mo_result_capacity (ms_options s) \<Longrightarrow>
       length (ms_results (exec_deliver s)) \<le> mo_result_capacity (ms_options s)" by blast
    with assms(1) exec deliver show ?thesis by (auto simp: history_ok_def)
  qed (use assms exec in \<open>auto simp: history_ok_def managed_eqs phase_ok_def split: if_splits\<close>)
qed (use assms in \<open>auto simp: history_ok_def managed_eqs phase_ok_def\<close>)

end
