(* ===== verification/Managed_Correct.thy ===== *)
theory Managed_Correct
  imports Managed_Order
begin

text \<open>
  Correctness of managed streams for every interleaving of submitters, cancellers, receivers,
  the stopper, the executor and the request workers: bounds, the order and completeness of
  the delivered results, the accounting of decided requests, and stopping.
\<close>

section \<open>Bounds\<close>

text \<open>The requests an executor accounts for against its window.\<close>

definition window :: "managed_stream \<Rightarrow> u64 set" where
  "window s = active_keys_of s \<union> ordered_keys_of s \<union> set (pc_hand (ms_pc s))"

text \<open>The requests that have a result in the relaxed queue or may still get one.\<close>

definition pending :: "managed_stream \<Rightarrow> u64 set" where
  "pending s = {q \<in> active_keys_of s \<union> set (pc_hand (ms_pc s)). \<not> is_terminal s q} \<union>
     fst ` set_mset (comp_tokens s) \<union> fst ` set (ms_relaxed s)"

definition window_ok :: "managed_stream \<Rightarrow> bool" where
  "window_ok s \<longleftrightarrow>
     card (window s) \<le> mo_max_in_flight (ms_options s) \<and>
     (\<not> strict s \<longrightarrow> card (pending s) \<le> mo_max_in_flight (ms_options s))"

lemma finite_window [simp]: "finite (window s)" "finite (pending s)"
  by (simp_all add: window_def pending_def)

lemma exec_outcomes_new:
  assumes ok: "base_ok s" "live_ok s"
  shows "\<exists>l. ms_outcomes (exec_step now spawned s) = ms_outcomes s @ l \<and>
    (\<forall>x \<in> set l. fst x \<in> active_keys_of s \<union> set (pc_hand (ms_pc s)) \<and> \<not> is_terminal s (fst x))"
proof -
  have own: "own_ok s" and jobs: "jobs_ok s" using ok by (simp_all add: base_ok_def live_ok_def)
  show ?thesis
  proof (cases rule: exec_cases [where s = s and now = now and spawned = spawned])
    case (time_out q r at rest had)
    have qr: "(q, r) \<in> set (ms_active s)" "\<forall>x \<in> set (ms_active s). active_ok s x"
      using own time_out by (simp_all add: own_ok_def)
    then have "active_ok s (q, r)" by blast
    with qr time_out show ?thesis
      by (force simp: managed_eqs timeout_result_def active_ok_def bt_keys_def)
  next
    case (expire e launches)
    with own have "env_ok s e" by (simp add: own_ok_def)
    with env_okD [of s e] expire show ?thesis by (auto simp: managed_eqs timeout_result_def)
  next
    case (spawn e rest)
    have "env_ok s e" using own spawn by (simp add: own_ok_def)
    moreover have "ev_sequence e \<in># jobs s" using spawn by (simp add: jobs_def)
    then have "ev_sequence e \<in> active_keys_of s" using set_jobs [OF jobs] by simp
    ultimately show ?thesis using env_okD [of s e] spawn by (auto simp: managed_eqs)
  qed (auto simp: managed_eqs)
qed

lemma step_outcomes_new:
  assumes ok: "base_ok s" "live_ok s"
  shows "\<exists>l. ms_outcomes (stream_step vs a s) = ms_outcomes s @ l \<and>
    (\<forall>x \<in> set l. fst x \<in> active_keys_of s \<union> set (pc_hand (ms_pc s)) \<and> \<not> is_terminal s (fst x))"
proof (cases rule: step_cases [where s = s and vs = vs and a = a])
  case (exec now spawned)
  with exec_outcomes_new [OF ok] show ?thesis by simp
next
  case (decide i res s' pc)
  let ?w = "ms_workers s ! i"
  have "env_ok s (wk_envelope ?w)" using ok(1) decide(1) by (simp add: base_ok_def own_ok_def)
  moreover have "?w \<in> set (ms_workers s)" using decide(1) by simp
  then have "ev_sequence (wk_envelope ?w) \<in># jobs s"
    using decide(2) by (force simp: jobs_def worker_job_def running_def)
  then have "ev_sequence (wk_envelope ?w) \<in> active_keys_of s" using set_jobs [of s] ok(2) by (simp add: live_ok_def)
  ultimately show ?thesis using env_okD [of s "wk_envelope ?w"] decide
    by (cases "if is_terminal s (ev_terminal (wk_envelope ?w)) then None else res")
       (auto simp: managed_eqs split: if_splits)
qed (auto simp: managed_eqs)

lemma deliver_strict_keys: "ordered_keys_of (deliver_strict s) \<subseteq> ordered_keys_of s"
proof (induction s rule: deliver_strict.induct)
  case (1 s)
  then show ?case
    by (subst deliver_strict.simps)
       (auto simp: count_backpressure_def set_keys_remove split: option.splits)
qed

lemma exec_deliver_keys: "ordered_keys_of (exec_deliver s) \<subseteq> ordered_keys_of s"
  using deliver_strict_keys [of "deliver_relaxed s"] deliver_relaxed_tokens(2) [of s]
  by (simp add: exec_deliver_def Let_def)

lemma set_keys_put:
  "set (bt_keys (put_ordered b q r res m)) = (if b then insert q (set (bt_keys m)) else set (bt_keys m))"
  by (simp add: put_ordered_def set_keys_insert)

lemma scan_active: "own_ok s \<Longrightarrow> (q, r) \<in> set (pc_scan (ms_pc s)) \<Longrightarrow> q \<in> active_keys_of s"
  unfolding own_ok_def bt_keys_def set_map by (metis fst_conv image_eqI subsetD)

lemma bt_keys_Nil [simp]: "bt_keys [] = []"
  by (simp add: bt_keys_def)

lemma hand_taken:
  assumes "own_ok s" "q \<in> set (pc_hand (ms_pc s))"
  shows "q < taken s"
proof (cases "ms_pc s")
  case (EUnregister c cs had)
  with assms show ?thesis by (simp add: own_ok_def comp_ok_def)
next
  case (EExpire e l)
  with assms have "env_ok s e" "q = ev_sequence e" by (simp_all add: own_ok_def)
  then show ?thesis using env_okD by blast
qed (use assms in simp_all)

lemma exec_window_sub:
  assumes "own_ok s" "jobs_ok s" "ms_input (exec_step now spawned s) = ms_input s"
  shows "window (exec_step now spawned s) \<subseteq> window s \<and>
    active_keys_of (exec_step now spawned s) \<union> set (pc_hand (ms_pc (exec_step now spawned s))) \<subseteq>
    active_keys_of s \<union> set (pc_hand (ms_pc s))"
proof (cases rule: exec_cases [where s = s and now = now and spawned = spawned])
  case (complete c cs had m)
  then have "wc_sequence c \<in> active_keys_of s"
    using set_jobs [OF assms(2)] by (auto simp: jobs_def)
  with complete show ?thesis by (auto simp: window_def set_keys_remove)
next
  case (tombstone at q r rest had)
  with scan_active [OF assms(1), of q r] show ?thesis by (auto simp: window_def managed_eqs set_keys_put)
next
  case (time_out q r at rest had)
  with scan_active [OF assms(1), of q r] show ?thesis by (auto simp: window_def managed_eqs set_keys_put)
next
  case (deliver had progress)
  with exec_deliver_keys [of s] show ?thesis by (auto simp: window_def)
qed (use assms in \<open>auto simp: window_def managed_eqs set_keys_put\<close>)

lemma pending_sub:
  assumes inv: "base_ok s" "live_ok s" "small s" and live: "live_ok (stream_step vs a s)" "\<not> strict s"
    and sub: "active_keys_of (stream_step vs a s) \<union> set (pc_hand (ms_pc (stream_step vs a s))) \<subseteq>
      active_keys_of s \<union> set (pc_hand (ms_pc s)) \<union> N"
    and pub: "ms_published (stream_step vs a s) = ms_published s @ p"
  shows "pending (stream_step vs a s) \<subseteq> pending s \<union> N"
proof -
  define t where "t = stream_step vs a s"
  have seq: "seq_ok s" using inv by (simp add: base_ok_def)
  have g: "grows s t" unfolding t_def by (rule step_grows [OF seq])
  have r: "ms_ordered u = [] \<and> ms_lost u = [] \<and> tokens_ok u" if "u = s \<or> u = t" for u
    using that inv live g unfolding t_def by (auto simp: live_ok_def relaxed_ok_def grows_def strict_def)
  from step_outcomes_new [OF inv(1,2), of vs a] obtain l where l: "ms_outcomes t = ms_outcomes s @ l"
    "\<forall>x \<in> set l. fst x \<in> active_keys_of s \<union> set (pc_hand (ms_pc s)) \<and> \<not> is_terminal s (fst x)"
    unfolding t_def by blast
  have "mset (ms_published s) + (comp_tokens t + mset (ms_relaxed t) + mset p) =
      mset (ms_published s) + (comp_tokens s + mset (ms_relaxed s) + mset l)"
    using r [of s] r [of t] l(1) pub unfolding t_def tokens_ok_def by (simp add: ordered_tokens_def ac_simps)
  then have "comp_tokens t + mset (ms_relaxed t) + mset p = comp_tokens s + mset (ms_relaxed s) + mset l" by simp
  then have m: "set_mset (comp_tokens t) \<union> set (ms_relaxed t) \<union> set p = set_mset (comp_tokens s) \<union> set (ms_relaxed s) \<union> set l"
    by (metis set_mset_mset set_mset_union)
  have tokens: "fst ` set_mset (comp_tokens t) \<union> fst ` set (ms_relaxed t) \<subseteq> pending s"
  proof
    fix q assume "q \<in> fst ` set_mset (comp_tokens t) \<union> fst ` set (ms_relaxed t)"
    then obtain x where "x \<in> set_mset (comp_tokens s) \<union> set (ms_relaxed s) \<union> set l" "q = fst x"
      using m by (metis (no_types, lifting) UnCI UnE imageE)
    with l(2) show "q \<in> pending s" by (auto simp: pending_def)
  qed
  have open_ones: "q \<in> pending s \<union> N" if "q \<in> active_keys_of t \<union> set (pc_hand (ms_pc t))" "\<not> is_terminal t q" for q
  proof (cases "q \<in> N")
    case False
    with that(1) sub have q: "q \<in> active_keys_of s \<union> set (pc_hand (ms_pc s))" unfolding t_def by blast
    have "q < length (ms_terminals s)"
    proof -
      have "q < taken s"
        using q inv(1) active_keys [of s q] hand_taken [of s q] by (auto simp: base_ok_def)
      then show ?thesis using seq_okD(1,3) [OF seq] by simp
    qed
    with that(2) g have "\<not> is_terminal s q" by (auto simp: grows_def)
    with q show ?thesis by (auto simp: pending_def)
  qed simp
  show ?thesis using tokens open_ones unfolding t_def [symmetric] pending_def [of t] by blast
qed

text \<open>Before the executor takes a request, its window has room for one more.\<close>

lemma launch_room:
  assumes ok: "base_ok s" "live_ok s" and pc: "ms_pc s = ELaunch launches progress"
    and room: "length (ms_active s) + buffered_not_active s < mo_max_in_flight (ms_options s)"
  shows "Suc (card (window s)) \<le> mo_max_in_flight (ms_options s)"
    and "Suc (card (pending s)) \<le> mo_max_in_flight (ms_options s)"
proof -
  have own: "own_ok s" and jobs: "jobs_ok s" using ok by (simp_all add: base_ok_def live_ok_def)
  let ?A = "active_keys_of s" and ?R = "fst ` set (ms_relaxed s)"
  let ?O = "filter (\<lambda>q. bt_get (ms_active s) q = None) (bt_keys (ms_ordered s))"
  have "ordered_keys_of s \<subseteq> ?A \<union> set ?O" by (auto simp: bt_get_None)
  moreover have "wc_sequence c \<in> ?A" if "c \<in> set (comps s)" for c
    using comps_distinct(2) [OF jobs own that] pc by simp
  then have "fst ` set_mset (comp_tokens s) \<subseteq> ?A"
    by (auto simp: comp_tokens_eq completion_token_def split: option.splits)
  ultimately have sub: "window s \<subseteq> ?A \<union> (set ?O \<union> ?R)" "pending s \<subseteq> ?A \<union> (set ?O \<union> ?R)"
    using pc by (auto simp: window_def pending_def)
  have "card (?A \<union> (set ?O \<union> ?R)) \<le> card ?A + (card (set ?O) + card ?R)"
    by (meson add_left_mono card_Un_le le_trans)
  also have "\<dots> \<le> length (ms_active s) + (length ?O + length (ms_relaxed s))"
    by (intro add_mono) (metis card_length bt_keys_def length_map, rule card_length, metis card_length length_map list.set_map)
  finally have "card (?A \<union> (set ?O \<union> ?R)) \<le> length (ms_active s) + buffered_not_active s"
    by (simp add: buffered_not_active_def)
  moreover have "card (window s) \<le> card (?A \<union> (set ?O \<union> ?R))" "card (pending s) \<le> card (?A \<union> (set ?O \<union> ?R))"
    by (intro card_mono sub; simp)+
  ultimately show "Suc (card (window s)) \<le> mo_max_in_flight (ms_options s)"
    "Suc (card (pending s)) \<le> mo_max_in_flight (ms_options s)" using room by linarith+
qed

lemma step_published:
  "\<exists>p. ms_published (stream_step vs a s) = ms_published s @ p"
proof (cases rule: step_cases [where s = s and vs = vs and a = a])
  case (exec now spawned)
  show ?thesis
  proof (cases rule: exec_cases [where s = s and now = now and spawned = spawned])
    case (deliver had progress)
    from exec_deliver_append [of s] obtain l where "ms_published (exec_deliver s) = ms_published s @ l" by blast
    with exec deliver show ?thesis by simp
  qed (simp_all add: exec managed_eqs)
qed (auto simp: managed_eqs)

lemma step_window:
  assumes inv: "base_ok s" "live_ok s" "small s" "window_ok s" and open': "\<not> ms_closed (stream_step vs a s)"
  shows "window_ok (stream_step vs a s)"
proof -
  define t where "t = stream_step vs a s"
  have own: "own_ok s" and jobs: "jobs_ok s" and seq: "seq_ok s" using inv by (simp_all add: base_ok_def live_ok_def)
  have live: "live_ok t" unfolding t_def by (rule step_live [OF inv(1-3) open'])
  have same: "ms_options t = ms_options s" "strict t = strict s"
    using step_grows [OF seq, of vs a] by (simp_all add: grows_def strict_def t_def)
  obtain p where pub: "ms_published t = ms_published s @ p" using step_published [of vs a s] by (auto simp: t_def)
  have narrow: "window_ok t"
    if "window t \<subseteq> window s \<union> N" "active_keys_of t \<union> set (pc_hand (ms_pc t)) \<subseteq> active_keys_of s \<union> set (pc_hand (ms_pc s)) \<union> N"
      "card (window s) + card N \<le> mo_max_in_flight (ms_options s)"
      "\<not> strict s \<longrightarrow> card (pending s) + card N \<le> mo_max_in_flight (ms_options s)" "finite N" for N
  proof -
    have "pending t \<subseteq> pending s \<union> N" if "\<not> strict s"
      unfolding t_def
      by (rule pending_sub [OF inv(1-3) live [unfolded t_def] that \<open>_ \<union> _ \<subseteq> _ \<union> N\<close> [unfolded t_def] pub [unfolded t_def]])
    then have "card (pending t) \<le> card (pending s) + card N" if "\<not> strict s"
      using that \<open>finite N\<close> by (meson card_Un_le card_mono finite_UnI finite_window(2) le_trans)
    moreover have "card (window t) \<le> card (window s) + card N"
      using that(1) \<open>finite N\<close> by (meson card_Un_le card_mono finite_UnI finite_window(1) le_trans)
    ultimately show ?thesis using that(3,4) by (auto simp: window_ok_def same)
  qed
  note old = inv(4) [unfolded window_ok_def]
  have "window_ok t"
  proof (cases rule: step_cases [where s = s and vs = vs and a = a])
    case (exec now spawned)
    show ?thesis
    proof (cases "ms_input (exec_step now spawned s) = ms_input s")
      case True
      with exec_window_sub [OF own jobs True] old show ?thesis by (intro narrow [of "{}"]) (simp_all add: t_def exec)
    next
      case False
      then obtain e where N: "window t \<subseteq> window s \<union> {e}"
        "active_keys_of t \<union> set (pc_hand (ms_pc t)) \<subseteq> active_keys_of s \<union> set (pc_hand (ms_pc s)) \<union> {e}"
        and pc: "\<exists>launches progress. ms_pc s = ELaunch launches progress"
        and room: "length (ms_active s) + buffered_not_active s < mo_max_in_flight (ms_options s)"
      proof (cases rule: exec_cases [where s = s and now = now and spawned = spawned])
        case (launch_cancelled launches progress e rest m)
        then show ?thesis by (intro that [of "ev_sequence e"]) (auto simp: t_def exec window_def set_keys_put split: if_splits)
      next
        case (launch_expired launches progress e rest m)
        then show ?thesis by (intro that [of "ev_sequence e"]) (auto simp: t_def exec window_def split: if_splits)
      next
        case (launch launches progress e rest m)
        then show ?thesis by (intro that [of "ev_sequence e"]) (auto simp: t_def exec window_def set_keys_insert split: if_splits)
      qed (use False in \<open>simp_all add: managed_eqs split: if_splits\<close>)
      from pc launch_room [OF inv(1,2) _ room] N show ?thesis by (intro narrow [of "{e}"]) auto
    qed
  qed (rule narrow [of "{}"]; use old open' in \<open>auto simp: t_def window_def managed_eqs\<close>)+
  then show ?thesis by (simp add: t_def)
qed

section \<open>Accounting of decided requests\<close>

definition decided :: "managed_stream \<Rightarrow> nat" where
  "decided s = card {q. q < length (ms_accepted s) \<and> is_terminal s q}"

definition counted_total :: "stream_metrics \<Rightarrow> nat" where
  "counted_total m = sm_succeeded m + sm_retry_exhausted m + sm_failed m + sm_timed_out m + sm_cancelled m"

definition counters_ok :: "managed_stream \<Rightarrow> bool" where
  "counters_ok s \<longleftrightarrow>
     sm_completed (ms_metrics s) = decided s mod 18446744073709551616 \<and>
     counted_total (ms_metrics s) mod 18446744073709551616 = decided s mod 18446744073709551616"

definition one_more :: "stream_metrics \<Rightarrow> stream_metrics \<Rightarrow> bool" where
  "one_more m k \<longleftrightarrow>
     sm_completed k = fetch_add (sm_completed m) 1 \<and>
     counted_total k mod 18446744073709551616 = Suc (counted_total m) mod 18446744073709551616"

lemma fetch_add_total:
  "(x + fetch_add y (Suc 0) + z) mod 18446744073709551616 = Suc (x + y + z) mod 18446744073709551616"
proof -
  have "(x + fetch_add y (Suc 0) + z) mod 18446744073709551616 = (x + z + fetch_add y (Suc 0)) mod 18446744073709551616"
    by (simp add: ac_simps)
  also have "\<dots> = (x + z + Suc y) mod 18446744073709551616"
    unfolding fetch_add_def by (simp only: mod_add_right_eq) simp
  finally show ?thesis by (simp add: ac_simps)
qed

lemma counted_total_succ:
  assumes "counted_total k = x + fetch_add y (Suc 0) + z" "counted_total m = x + y + z"
    "sm_completed k = fetch_add (sm_completed m) 1"
  shows "one_more m k"
  using assms fetch_add_total [of x y z] by (simp add: one_more_def)

lemma one_more_counts:
  "one_more m (count_cancelled m)" "one_more m (count_timed_out m)" "one_more m (count_spawn_failure m)"
  "one_more m (count_result res (m\<lparr>sm_completed := fetch_add (sm_completed m) 1\<rparr>))"
proof -
  note defs = counted_total_def count_cancelled_def count_timed_out_def count_spawn_failure_def
  let ?s = "sm_succeeded m" and ?r = "sm_retry_exhausted m" and ?f = "sm_failed m" and ?t = "sm_timed_out m"
    and ?c = "sm_cancelled m"
  show "one_more m (count_cancelled m)"
    by (rule counted_total_succ [of _ "?s + ?r + ?f + ?t" ?c 0]) (simp_all add: defs)
  show "one_more m (count_timed_out m)"
    by (rule counted_total_succ [of _ "?s + ?r + ?f" ?t ?c]) (simp_all add: defs)
  have failed: "one_more m k" if "sm_failed k = fetch_add ?f 1" "sm_succeeded k = ?s" "sm_retry_exhausted k = ?r"
    "sm_timed_out k = ?t" "sm_cancelled k = ?c" "sm_completed k = fetch_add (sm_completed m) 1" for k
    by (rule counted_total_succ [of _ "?s + ?r" ?f "?t + ?c"]) (use that in \<open>simp_all add: defs\<close>)
  show "one_more m (count_spawn_failure m)" by (rule failed) (simp_all add: defs)
  let ?m = "m\<lparr>sm_completed := fetch_add (sm_completed m) 1\<rparr>"
  show "one_more m (count_result res ?m)"
  proof (cases res)
    case None
    then show ?thesis by (intro failed) simp_all
  next
    case (Some x)
    show ?thesis
    proof (cases x)
      case (ResFrames fs)
      with Some show ?thesis by (intro counted_total_succ [of _ 0 ?s "?r + ?f + ?t + ?c"]) (simp_all add: defs)
    next
      case (ResRetryable e)
      with Some show ?thesis by (intro counted_total_succ [of _ ?s ?r "?f + ?t + ?c"]) (simp_all add: defs)
    next
      case (ResFailed e)
      show ?thesis
      proof (cases "sv_code e = ''managed_stream_timeout''")
        case True
        with Some ResFailed show ?thesis
          by (intro counted_total_succ [of _ "?s + ?r + ?f" ?t ?c]) (simp_all add: defs)
      next
        case False
        with Some ResFailed show ?thesis by (intro failed) simp_all
      qed
    qed
  qed
qed

lemma counters_decide:
  assumes ok: "counters_ok s" "seq_ok s" and q: "q < length (ms_accepted s)"
    and t: "ms_terminals t = mark_terminal q (ms_terminals s)" "ms_accepted t = ms_accepted s"
    and m: "if is_terminal s q then same_counters (ms_metrics s) (ms_metrics t) else one_more (ms_metrics s) (ms_metrics t)"
  shows "counters_ok t"
proof -
  have flag: "is_terminal t u = (is_terminal s u \<or> u = q)" if "u < length (ms_accepted s)" for u
    using that seq_okD(1) [OF ok(2)] t(1) by (simp add: is_terminal_def)
  then have set: "{u. u < length (ms_accepted t) \<and> is_terminal t u} =
      insert q {u. u < length (ms_accepted s) \<and> is_terminal s u}" using q t(2) by auto
  show ?thesis
  proof (cases "is_terminal s q")
    case True
    then have "decided t = decided s" unfolding decided_def set using q by (simp add: insert_absorb)
    with ok(1) m True show ?thesis by (simp add: counters_ok_def same_counters_def counted_total_def)
  next
    case False
    then have "decided t = Suc (decided s)" unfolding decided_def set by simp
    with ok(1) m False show ?thesis
      by (simp add: counters_ok_def one_more_def fetch_add_def mod_Suc_eq) (metis mod_Suc_eq)
  qed
qed

lemma counters_keep:
  assumes ok: "counters_ok s" "seq_ok s" and t: "ms_accepted t = ms_accepted s" "same_counters (ms_metrics s) (ms_metrics t)"
    and "ms_terminals t = ms_terminals s \<or> (\<exists>u. ms_terminals t = mark_cancelled u (ms_terminals s)) \<or>
      ms_terminals t = cleared_terminals s"
  shows "counters_ok t"
proof -
  have "is_terminal t q = is_terminal s q" if "q < length (ms_accepted s)" for q
    using that assms(5) seq_okD(1) [OF ok(2)] by (auto simp: is_terminal_def)
  then have "decided t = decided s" unfolding decided_def t(1) by (intro arg_cong [of _ _ card]) auto
  with ok(1) t(2) show ?thesis by (simp add: counters_ok_def same_counters_def counted_total_def)
qed

lemma same_counters_trans: "same_counters a b \<Longrightarrow> same_counters b c \<Longrightarrow> same_counters a c"
  by (simp add: same_counters_def)

lemma publish_counters:
  "same_counters (ms_metrics s) (ms_metrics (publish_result q c s))"
  "same_counters (ms_metrics s) (ms_metrics (count_backpressure s))"
  "same_counters (ms_metrics s) (ms_metrics (advance_delivery r s))"
  by (simp_all add: same_counters_def publish_result_def count_backpressure_def advance_delivery_def Let_def
      split: option.splits)

lemma move_relaxed_counters: "same_counters (ms_metrics s) (ms_metrics (move_relaxed xs s))"
  by (induction xs s rule: move_relaxed.induct)
     (auto intro: same_counters_trans [OF publish_counters(1)])

lemma deliver_strict_counters: "same_counters (ms_metrics s) (ms_metrics (deliver_strict s))"
proof (induction s rule: deliver_strict.induct)
  case (1 s)
  then show ?case
    by (subst deliver_strict.simps)
       (auto intro: publish_counters same_counters_trans [OF publish_counters(3)] split: option.splits)
qed

lemma exec_deliver_counters: "same_counters (ms_metrics s) (ms_metrics (exec_deliver s))"
proof -
  have r: "same_counters (ms_metrics s) (ms_metrics (deliver_relaxed s))"
    by (auto simp: deliver_relaxed_def Let_def
        intro: move_relaxed_counters same_counters_trans [OF move_relaxed_counters publish_counters(2)])
  have pend: "same_counters m (m'\<lparr>sm_ordered_pending := n\<rparr>) = same_counters m m'" for m m' n
    by (simp add: same_counters_def)
  show ?thesis
    using r same_counters_trans [OF r deliver_strict_counters] by (simp add: exec_deliver_def pend Let_def)
qed

lemma step_counters:
  assumes ok: "base_ok s" "counters_ok s"
  shows "counters_ok (stream_step vs a s)"
proof -
  have seq: "seq_ok s" and own: "own_ok s" and refs: "refs_ok s" using ok by (simp_all add: base_ok_def)
  note keep = counters_keep [OF ok(2) seq] and dec = counters_decide [OF ok(2) seq]
  have env: "ev_terminal e < length (ms_accepted s)" if "env_ok s e" for e
    using env_okD [OF that] seq_okD(3) [OF seq, of "ev_sequence e"] by simp
  show ?thesis
  proof (cases rule: step_cases [where s = s and vs = vs and a = a])
    case (exec now spawned)
    have "counters_ok (exec_step now spawned s)"
    proof (cases rule: exec_cases [where s = s and now = now and spawned = spawned])
      case (time_out q r at rest had)
      have "(q, r) \<in> set (ms_active s)" "\<forall>x \<in> set (ms_active s). active_ok s x"
        using own time_out by (simp_all add: own_ok_def)
      then have "active_ok s (q, r)" by blast
      then have "aq_terminal r < length (ms_accepted s)" using seq_okD(3) [OF seq, of q] by (simp add: active_ok_def)
      with time_out show ?thesis
        by (intro dec [of "aq_terminal r"]) (simp_all add: managed_eqs one_more_counts)
    next
      case (expire e launches)
      with own have "env_ok s e" by (simp add: own_ok_def)
      from env [OF this] expire show ?thesis
        by (intro dec [of "ev_terminal e"]) (simp_all add: managed_eqs one_more_counts)
    next
      case (spawn e rest)
      show ?thesis
      proof (cases spawned)
        case True
        with spawn show ?thesis by (intro keep) (simp_all add: managed_eqs)
      next
        case False
        from own spawn have "env_ok s e" by (simp add: own_ok_def)
        moreover from spawn False have "exec_step now spawned s = exec_spawn False e rest s" by simp
        ultimately show ?thesis using env [of e]
          by (intro dec [of "ev_terminal e"]) (simp_all add: managed_eqs one_more_counts)
      qed
    next
      case (deliver had progress)
      with exec_deliver_counters [of s] show ?thesis by (intro keep) simp_all
    next
      case (push_failed c rest)
      then show ?thesis by (intro keep) (simp_all add: managed_eqs same_counters_def)
    next
      case exit
      then show ?thesis by (intro keep) (simp_all add: managed_eqs same_counters_def)
    qed (rule keep; simp add: managed_eqs)+
    with exec show ?thesis by simp
  next
    case (accept request m)
    let ?t = "stream_step vs a s"
    have "{q. q < length (ms_accepted ?t) \<and> is_terminal ?t q} = {q. q < length (ms_accepted s) \<and> is_terminal s q}"
      using seq_okD(1) [OF seq] accept
      by (auto simp: Let_def is_terminal_def nth_append terminal_new_def less_Suc_eq)
    then have "decided ?t = decided s" by (simp only: decided_def)
    with ok(2) accept show ?thesis by (simp add: counters_ok_def same_counters_def counted_total_def Let_def)
  next
    case (cancel i t)
    then have "(t, True) \<in> set (ms_cancels s)" by (metis nth_mem)
    with refs have "t < length (ms_accepted s)" by (auto simp: refs_ok_def refs_view_def)
    with cancel show ?thesis by (intro dec [of t]) (simp_all add: managed_eqs one_more_counts is_terminal_def)
  next
    case (stop_cancel t ts)
    with refs have "t < length (ms_accepted s)" by (auto simp: refs_ok_def refs_view_def)
    with stop_cancel show ?thesis by (intro dec [of t]) (simp_all add: managed_eqs one_more_counts is_terminal_def)
  next
    case (decide i res s' pc)
    let ?e = "wk_envelope (ms_workers s ! i)"
    from decide(1) own have "env_ok s ?e" by (simp add: own_ok_def)
    from env [OF this] decide show ?thesis
      by (intro dec [of "ev_terminal ?e"])
         (auto simp: managed_eqs one_more_counts [simplified] same_counters_def)
  next
    case (hand_over i res)
    then show ?thesis by (intro keep) (simp_all add: managed_eqs same_counters_def)
  next
    case (flag i t)
    then show ?thesis by (intro keep) auto
  next
    case (stop_flag i ts)
    then show ?thesis by (intro keep) auto
  qed (rule keep; simp add: managed_eqs)+
qed

section \<open>Every interleaving\<close>

definition managed_inv :: "managed_stream \<Rightarrow> bool" where
  "managed_inv s \<longleftrightarrow>
     stream_inv s \<and> history_ok s \<and>
     (small s \<longrightarrow>
        counters_ok s \<and> (\<not> ms_closed s \<longrightarrow> window_ok s) \<and>
        length (ms_active s) \<le> mo_max_in_flight (ms_options s) \<and>
        set (ms_published s) \<subseteq> set (ms_outcomes s) \<and>
        (strict s \<longrightarrow> sorted_wrt (<) (map fst (ms_published s))))"

lemma active_window:
  assumes "own_ok s" "window_ok s"
  shows "length (ms_active s) \<le> mo_max_in_flight (ms_options s)"
proof -
  have "distinct (bt_keys (ms_active s))"
    using assms(1) bt_inv_distinct by (auto simp: own_ok_def bt_keys_def)
  from distinct_card [OF this] have "length (ms_active s) = card (active_keys_of s)" by (simp add: bt_keys_def)
  also have "\<dots> \<le> card (window s)" by (rule card_mono) (auto simp: window_def)
  finally show ?thesis using assms(2) by (simp add: window_ok_def)
qed

lemma step_outcomes_prefix: "\<exists>l. ms_outcomes (stream_step vs a s) = ms_outcomes s @ l"
proof (cases rule: step_cases [where s = s and vs = vs and a = a])
  case (exec now spawned)
  show ?thesis
    by (cases rule: exec_cases [where s = s and now = now and spawned = spawned]) (simp_all add: exec managed_eqs)
next
  case (decide i res s' pc)
  then show ?thesis by (auto simp: managed_eqs)
qed (auto simp: managed_eqs)

lemma closed_active:
  assumes "ms_closed s" "phase_ok s"
  shows "length (ms_active (stream_step vs a s)) \<le> length (ms_active s) \<and> ms_published (stream_step vs a s) = ms_published s"
proof (cases rule: step_cases [where s = s and vs = vs and a = a])
  case (exec now spawned)
  show ?thesis
    by (cases rule: exec_cases [where s = s and now = now and spawned = spawned])
       (use assms in \<open>auto simp: exec managed_eqs bt_remove_def phase_ok_def\<close>)
qed (auto simp: managed_eqs)

lemma step_closed: "ms_closed s \<Longrightarrow> ms_closed (stream_step vs a s)"
  by (cases rule: step_cases [where s = s and vs = vs and a = a]) (auto simp: managed_eqs)

lemma step_managed_inv:
  assumes inv: "managed_inv s"
  shows "managed_inv (stream_step vs a s)"
proof -
  define t where "t = stream_step vs a s"
  have si: "stream_inv s" and hi: "history_ok s" using inv by (simp_all add: managed_inv_def)
  then have seq: "seq_ok s" and phase: "phase_ok s" by (simp_all add: stream_inv_def)
  have sti: "stream_inv t" "history_ok t"
    unfolding t_def using step_stream_inv [OF si] step_history [OF hi phase] by simp_all
  have "counters_ok t \<and> (\<not> ms_closed t \<longrightarrow> window_ok t) \<and> length (ms_active t) \<le> mo_max_in_flight (ms_options t) \<and>
    set (ms_published t) \<subseteq> set (ms_outcomes t) \<and> (strict t \<longrightarrow> sorted_wrt (<) (map fst (ms_published t)))"
    if "small t"
  proof -
    have "small s" using that step_small [OF seq] by (simp add: t_def)
    with inv si have base: "base_ok s" and old: "counters_ok s" "\<not> ms_closed s \<longrightarrow> live_ok s \<and> window_ok s"
      "length (ms_active s) \<le> mo_max_in_flight (ms_options s)" "set (ms_published s) \<subseteq> set (ms_outcomes s)"
      "strict s \<longrightarrow> sorted_wrt (<) (map fst (ms_published s))"
      by (simp_all add: managed_inv_def stream_inv_def)
    have opt: "ms_options t = ms_options s" using step_grows [OF seq] by (simp add: grows_def t_def)
    have cnt: "counters_ok t" unfolding t_def by (rule step_counters [OF base old(1)])
    show ?thesis
    proof (cases "ms_closed s")
      case True
      with closed_active [OF True phase, of vs a] step_closed [OF True] step_outcomes_prefix [of vs a s] old cnt opt
      show ?thesis by (auto simp: t_def strict_def)
    next
      case False
      with old(2) have live: "live_ok s" "window_ok s" by simp_all
      show ?thesis
      proof (cases "ms_closed t")
        case True
        have "ms_active t = ms_active s" "ms_published t = ms_published s"
          by (cases rule: step_cases [where s = s and vs = vs and a = a]; use True False in \<open>auto simp: t_def managed_eqs\<close>)+
        with True cnt old opt step_outcomes_prefix [of vs a s] show ?thesis by (auto simp: t_def strict_def)
      next
        case open': False
        have w: "window_ok t"
          unfolding t_def by (rule step_window [OF base live(1) \<open>small s\<close> live(2)]) (use open' in \<open>simp add: t_def\<close>)
        have tl: "live_ok t" "own_ok t" using sti that open' by (simp_all add: stream_inv_def base_ok_def)
        have "mset (ms_published t) \<subseteq># mset (ms_outcomes t)"
          using tl(1) by (simp add: live_ok_def tokens_ok_def)
        then have "set (ms_published t) \<subseteq> set (ms_outcomes t)" by (metis set_mset_mono set_mset_mset)
        moreover have "strict t \<longrightarrow> sorted_wrt (<) (map fst (ms_published t))"
          using tl(1) by (auto simp: live_ok_def strict_ok_def)
        ultimately show ?thesis using w cnt active_window [OF tl(2) w] by simp
      qed
    qed
  qed
  with sti show ?thesis unfolding managed_inv_def t_def [symmetric] by blast
qed

interpretation streams: guarded_system "stream_step vs" managed_inv for vs
  by unfold_locales (rule step_managed_inv)

lemma new_managed_inv: "managed_inv (managed_stream_new session options)"
proof -
  have "window (managed_stream_new session options) = {}" "pending (managed_stream_new session options) = {}"
    by (simp_all add: window_def pending_def managed_stream_new_def comp_tokens_def)
  then show ?thesis
    by (simp add: managed_inv_def managed_stream_new_inv window_ok_def)
       (simp add: managed_stream_new_def history_ok_def counters_ok_def decided_def stream_metrics_default_def
          counted_total_def)
qed

section \<open>Stopping\<close>

definition exec_rank :: "managed_stream \<Rightarrow> nat" where
  "exec_rank s = (case ms_pc s of
     EDone \<Rightarrow> 0 | EExit \<Rightarrow> 1 | EDrain \<Rightarrow> 2 | EMailbox _ \<Rightarrow> 2 | EWait \<Rightarrow> 3
   | EScan _ l _ \<Rightarrow> 3 + 2 * length l | ETimeout _ _ _ l _ \<Rightarrow> 4 + 2 * length l
   | EComplete cs _ \<Rightarrow> 4 + 2 * length (ms_active s) + 2 * length cs
   | EUnregister _ cs _ \<Rightarrow> 5 + 2 * length (ms_active s) + 2 * length cs
   | ESpawn l \<Rightarrow> 3 + 2 * length l | ESpawnFailed _ l \<Rightarrow> 4 + 2 * length l
   | ELaunch _ _ \<Rightarrow> 0 | EExpire _ _ \<Rightarrow> 0)"

fun is_exec :: "stream_op \<Rightarrow> bool" where
  "is_exec (OExec _ _) = True"
| "is_exec _ = False"

lemma exec_rank_step:
  assumes "ms_closed s" "phase_ok s" "ms_pc s \<noteq> EDone"
  shows "exec_rank (exec_step now spawned s) < exec_rank s"
proof (cases rule: exec_cases [where s = s and now = now and spawned = spawned])
  case (complete c cs had m)
  have "length (bt_remove (wc_sequence c) (ms_active s)) \<le> length (ms_active s)" by (simp add: bt_remove_def)
  with complete show ?thesis by (simp add: exec_rank_def)
next
  case (spawn e rest)
  then show ?thesis by (cases spawned) (simp_all add: exec_rank_def exec_spawn_eq Let_def)
qed (use assms in \<open>auto simp: exec_rank_def managed_eqs phase_ok_def\<close>)

lemma other_rank: "\<not> is_exec a \<Longrightarrow> ms_pc (stream_step vs a s) = ms_pc s \<and> ms_active (stream_step vs a s) = ms_active s"
proof (cases a)
  case (OWorker i now call)
  show ?thesis
  proof (cases "i < length (ms_workers s)")
    case True
    obtain s' pc where w: "worker_step vs now call (ms_workers s ! i) s = (s', pc)" by (rule prod.exhaust)
    then have "ms_pc s' = ms_pc s \<and> ms_active s' = ms_active s"
      by (cases rule: worker_step_cases) (auto simp: managed_eqs)
    with w True OWorker show ?thesis by (simp add: run_worker_def Let_def)
  qed (simp add: OWorker run_worker_def)
qed (auto simp: submit_begin_def submit_locked_def cancel_lookup_def cancel_store_def store_cancelled_def cancel_finish_def
  stream_try_recv_def stop_begin_def stop_step_def stop_close_def clear_input_eq stop_collect_def
  terminal_cancel_eq Let_def split: option.splits list.splits stop_pc.splits)

lemma rank_same: "ms_pc t = ms_pc s \<Longrightarrow> ms_active t = ms_active s \<Longrightarrow> exec_rank t = exec_rank s"
  by (simp add: exec_rank_def split: executor_pc.splits)

lemma step_rank:
  assumes "ms_closed s" "phase_ok s"
  shows "exec_rank (stream_step vs a s) \<le> exec_rank s - (if is_exec a then 1 else 0)"
proof (cases "is_exec a")
  case True
  then obtain now spawned where a: "a = OExec now spawned" by (cases a) auto
  show ?thesis
  proof (cases "ms_pc s = EDone")
    case True
    with a show ?thesis by (simp add: exec_step_def exec_rank_def)
  next
    case False
    with a exec_rank_step [OF assms False, of now spawned] show ?thesis by simp
  qed
next
  case False
  with other_rank [OF False, of vs s] rank_same [of "stream_step vs a s" s] show ?thesis by simp
qed

lemma run_rank:
  "ms_closed s \<Longrightarrow> phase_ok s \<Longrightarrow>
   exec_rank (fold (stream_step vs) ops s) \<le> exec_rank s - length (filter is_exec ops) \<and>
   ms_closed (fold (stream_step vs) ops s) \<and> phase_ok (fold (stream_step vs) ops s)"
proof (induction ops arbitrary: s)
  case (Cons a ops)
  let ?t = "stream_step vs a s"
  have ih: "exec_rank (fold (stream_step vs) ops ?t) \<le> exec_rank ?t - length (filter is_exec ops)"
    "ms_closed (fold (stream_step vs) ops ?t)" "phase_ok (fold (stream_step vs) ops ?t)"
    using Cons.IH [OF step_closed [OF Cons.prems(1)] step_phase [OF Cons.prems(2)]] by blast+
  with step_rank [OF Cons.prems, of vs a] show ?case by (cases "is_exec a") simp_all
qed simp

lemma rank_done:
  "ms_closed s \<Longrightarrow> phase_ok s \<Longrightarrow> exec_rank s = 0 \<Longrightarrow> ms_executor_done s \<and> ms_lifecycle s = 2"
  by (cases "ms_pc s") (auto simp: exec_rank_def phase_ok_def)

text \<open>No step makes a dropped terminal state reachable again.\<close>

lemma arc_alive_iff:
  "arc_alive s t \<longleftrightarrow>
     (\<exists>e \<in> set (ms_input s) \<union> set (pc_envelopes (ms_pc s)). ev_terminal e = t) \<or>
     ms_pc s \<noteq> EDone \<and> (\<exists>x \<in> set (ms_active s). aq_terminal (snd x) = t) \<or>
     (\<exists>w \<in> set (ms_workers s). wk_pc w \<noteq> WDone \<and> ev_terminal (wk_envelope w) = t) \<or>
     t \<in> fst ` set (ms_cancels s) \<or> t \<in> set (stop_terminals (ms_stop s))"
proof -
  have "list_ex (\<lambda>(c, _). c = t) l \<longleftrightarrow> t \<in> fst ` set l" for l :: "(nat \<times> bool) list"
    by (force simp: list_ex_iff)
  moreover have "list_ex (\<lambda>(_, r). aq_terminal r = t) l \<longleftrightarrow> (\<exists>x \<in> set l. aq_terminal (snd x) = t)"
    for l :: "(u64 \<times> active_request) list" by (force simp: list_ex_iff)
  ultimately show ?thesis unfolding arc_alive_def by (simp add: list_ex_iff Bex_def)
qed

lemma alive_sub:
  assumes "arc_alive t q"
    and "ev_terminal ` (set (ms_input t) \<union> set (pc_envelopes (ms_pc t))) \<union> (aq_terminal \<circ> snd) ` (if ms_pc t = EDone then {} else set (ms_active t)) \<subseteq>
      ev_terminal ` (set (ms_input s) \<union> set (pc_envelopes (ms_pc s))) \<union> (aq_terminal \<circ> snd) ` (if ms_pc s = EDone then {} else set (ms_active s))"
    and "ms_workers t = ms_workers s" "ms_cancels t = ms_cancels s" "ms_stop t = ms_stop s"
  shows "arc_alive s q"
proof -
  have iff: "arc_alive u q \<longleftrightarrow>
      q \<in> ev_terminal ` (set (ms_input u) \<union> set (pc_envelopes (ms_pc u))) \<union> (aq_terminal \<circ> snd) ` (if ms_pc u = EDone then {} else set (ms_active u)) \<or>
      (\<exists>w \<in> set (ms_workers u). wk_pc w \<noteq> WDone \<and> ev_terminal (wk_envelope w) = q) \<or>
      q \<in> fst ` set (ms_cancels u) \<or> q \<in> set (stop_terminals (ms_stop u))" for u
    unfolding arc_alive_iff by (cases "ms_pc u = EDone") auto
  from assms(1) assms(2) show ?thesis unfolding iff [of t] iff [of s] assms(3-5) by blast
qed

lemma exec_alive:
  assumes "arc_alive (exec_step now spawned s) q"
  shows "arc_alive s q"
proof (cases rule: exec_cases [where s = s and now = now and spawned = spawned])
  case (spawn e rest)
  show ?thesis
  proof (cases spawned)
    case True
    with spawn assms show ?thesis by (auto simp: arc_alive_iff exec_spawn_eq Let_def)
  next
    case False
    with spawn have "exec_step now spawned s = exec_spawn False e rest s" by simp
    with spawn(1) show ?thesis by (intro alive_sub [OF assms]) (auto simp: exec_spawn_eq Let_def)
  qed
next
  case (launch launches progress e rest m)
  then show ?thesis by (intro alive_sub [OF assms]) (auto dest!: bt_insert_cases)
qed (rule alive_sub [OF assms]; auto simp: managed_eqs set_bt_remove)+

lemma worker_alive:
  assumes "i < length (ms_workers s)" "wk_pc (ms_workers s ! i) = WDone \<Longrightarrow> pc = WDone"
    and "\<exists>u \<in> set ((ms_workers s)[i := with_pc (ms_workers s ! i) pc]). wk_pc u \<noteq> WDone \<and> ev_terminal (wk_envelope u) = q"
  shows "\<exists>u \<in> set (ms_workers s). wk_pc u \<noteq> WDone \<and> ev_terminal (wk_envelope u) = q"
proof -
  from assms(3) obtain u where u: "u \<in> set ((ms_workers s)[i := with_pc (ms_workers s ! i) pc])" "wk_pc u \<noteq> WDone"
    "ev_terminal (wk_envelope u) = q" by blast
  have "ms_workers s ! i \<in> set (ms_workers s)" using assms(1) by simp
  moreover have "wk_pc (ms_workers s ! i) \<noteq> WDone" if "u = with_pc (ms_workers s ! i) pc"
    using that u(2) assms(2) by auto
  ultimately show ?thesis using set_update_cases [OF u(1)] u(2,3) by fastforce
qed

lemma step_alive:
  assumes "arc_alive (stream_step vs a s) q" "seq_ok s" "q < length (ms_accepted s)"
  shows "arc_alive s q"
proof (cases rule: step_cases [where s = s and vs = vs and a = a])
  case (exec now spawned)
  with assms exec_alive show ?thesis by simp
next
  case (accept request m)
  with assms seq_okD(1) [OF assms(2)] show ?thesis by (auto simp: arc_alive_iff Let_def envelope_of_def)
next
  case (lookup r t)
  then have "arc_alive s t" by (auto simp: registered_def split: option.splits if_splits)
  with lookup assms(1) show ?thesis by (auto simp: arc_alive_iff)
next
  case (flag i t)
  then have "map fst ((ms_cancels s)[i := (t, True)]) = map fst (ms_cancels s)"
    by (metis fst_conv list_update_id map_update nth_map)
  then have "fst ` set ((ms_cancels s)[i := (t, True)]) = fst ` set (ms_cancels s)" by (metis set_map)
  with flag assms(1) show ?thesis by (auto simp: arc_alive_iff)
next
  case (cancel i t)
  with assms(1) remove_nth_set [of i "ms_cancels s"] show ?thesis by (auto simp: arc_alive_iff managed_eqs)
next
  case collect
  with assms(1) show ?thesis by (auto simp: arc_alive_iff managed_eqs)
next
  case (stop_flag i ts)
  with assms(1) remove_nth_set [of i ts] show ?thesis by (auto simp: arc_alive_iff)
next
  case (work i pc m)
  with worker_alive [of i s pc q] assms(1) show ?thesis unfolding arc_alive_iff by auto
next
  case (decide i res s' pc)
  then have "ms_input s' = ms_input s" "ms_pc s' = ms_pc s" "ms_active s' = ms_active s"
    "ms_cancels s' = ms_cancels s" "ms_stop s' = ms_stop s"
    by (auto simp: managed_eqs)
  with decide worker_alive [of i s pc q] assms(1) show ?thesis unfolding arc_alive_iff by auto
next
  case (hand_over i res)
  with worker_alive [of i s WExit q] assms(1) show ?thesis unfolding arc_alive_iff by (auto simp: managed_eqs)
qed (use assms in \<open>auto simp: arc_alive_iff managed_eqs\<close>)

end
