(* ===== verification/Managed_Lease.thy ===== *)
theory Managed_Lease
  imports Managed_Correct
begin

text \<open>
  Who holds the admission lease of a managed request. A decided request has given it up. An
  undecided request keeps it as long as something refers to its terminal state, and the only
  step after which nothing does is the one in which a stop clears the mailbox: everywhere else
  the executor, a worker, a caller of \<open>cancel\<close> or the stopper takes the reference over.
\<close>

section \<open>Invariants\<close>

text \<open>A stored cancellation flag is followed up by whoever stored it.\<close>

definition flags_ok :: "managed_stream \<Rightarrow> bool" where
  "flags_ok s \<longleftrightarrow>
     (\<forall>q < length (ms_accepted s). load_cancelled s q \<longrightarrow> \<not> is_terminal s q \<longrightarrow>
        (q, True) \<in> set (ms_cancels s) \<or> (\<exists>ts. ms_stop s = StopFinish q ts))"

text \<open>A reference that outlives the step, other than the table of active requests.\<close>

definition kept :: "managed_stream \<Rightarrow> nat \<Rightarrow> bool" where
  "kept s q \<longleftrightarrow>
     q \<in> ev_terminal ` (set (ms_input s) \<union> set (pc_envelopes (ms_pc s))) \<or>
     (\<exists>w \<in> set (ms_workers s). running (wk_pc w) \<and> ev_terminal (wk_envelope w) = q) \<or>
     q \<in> fst ` set (ms_cancels s) \<or> q \<in> set (stop_terminals (ms_stop s))"

definition lease_ok :: "managed_stream \<Rightarrow> bool" where
  "lease_ok s \<longleftrightarrow>
     (\<forall>q < length (ms_accepted s). \<not> is_terminal s q \<longrightarrow>
        (if te_admission (ms_terminals s ! q) = None then \<not> arc_alive s q \<and> ms_closed s else kept s q))"

lemma kept_alive: "kept s q \<Longrightarrow> arc_alive s q"
  unfolding kept_def arc_alive_iff by (auto simp: running_def)

text \<open>When a lease is given up, and what then holds of an undecided request.\<close>

lemma lease_given_up:
  assumes "outcomes_ok s" "lease_ok s" "q < length (ms_accepted s)"
  shows "(te_admission (ms_terminals s ! q) = None) = (is_terminal s q \<or> \<not> arc_alive s q)"
    and "is_terminal s q \<or> arc_alive s q \<or> ms_closed s \<and> q \<notin> fst ` set (ms_outcomes s)"
proof -
  have decided: "is_terminal s q \<Longrightarrow> te_admission (ms_terminals s ! q) = None"
    and outcome: "q \<in> fst ` set (ms_outcomes s) \<Longrightarrow> is_terminal s q"
    using assms(1,3) by (auto simp: outcomes_ok_def)
  have "if te_admission (ms_terminals s ! q) = None then \<not> arc_alive s q \<and> ms_closed s else kept s q"
    if "\<not> is_terminal s q" using assms(2,3) that by (simp add: lease_ok_def)
  with decided outcome kept_alive [of s q]
  show "(te_admission (ms_terminals s ! q) = None) = (is_terminal s q \<or> \<not> arc_alive s q)"
    "is_terminal s q \<or> arc_alive s q \<or> ms_closed s \<and> q \<notin> fst ` set (ms_outcomes s)"
    by (metis (full_types))+
qed

section \<open>Preservation\<close>

lemma remove_nth_other: "x \<in> set xs \<Longrightarrow> x \<noteq> xs ! i \<Longrightarrow> x \<in> set (remove_nth i xs)"
proof -
  assume x: "x \<in> set xs" "x \<noteq> xs ! i"
  then obtain j where j: "j < length xs" "xs ! j = x" by (auto simp: in_set_conv_nth)
  with x(2) consider "j < i" | "i < j" by fastforce
  then show ?thesis
  proof cases
    case 1
    with j have "x \<in> set (take i xs)" by (force simp: in_set_conv_nth)
    then show ?thesis by (simp add: remove_nth_def)
  next
    case 2
    then have "drop (Suc i) xs ! (j - Suc i) = x" "j - Suc i < length (drop (Suc i) xs)" using j by auto
    then have "x \<in> set (drop (Suc i) xs)" by (metis nth_mem)
    then show ?thesis by (simp add: remove_nth_def)
  qed
qed

lemma flags_step:
  assumes ok: "seq_ok s" "phase_ok s" "flags_ok s"
  shows "flags_ok (stream_step vs a s)"
proof -
  note len = seq_okD(1) [OF ok(1)]
  show ?thesis
  proof (cases rule: step_cases [where s = s and vs = vs and a = a])
    case (exec now spawned)
    have "flags_ok (exec_step now spawned s)"
      by (cases rule: exec_cases [where s = s and now = now and spawned = spawned])
         (use ok(3) len in \<open>auto simp: flags_ok_def flag_defs managed_eqs\<close>)
    with exec show ?thesis by simp
  next
    case (accept request m)
    with ok(3) len show ?thesis
      by (auto simp: flags_ok_def flag_defs Let_def nth_append terminal_new_def less_Suc_eq)
  next
    case (flag i t)
    have "(q, True) \<in> set ((ms_cancels s)[i := (t, True)])" if "(q, True) \<in> set (ms_cancels s) \<or> q = t" for q
      using that flag(1,2) by (metis in_set_conv_nth length_list_update nth_list_update snd_conv)
    with flag ok(3) len show ?thesis by (auto simp: flags_ok_def flag_defs)
  next
    case (cancel i t)
    have "(q, True) \<in> set (remove_nth i (ms_cancels s))" if "(q, True) \<in> set (ms_cancels s)" "q \<noteq> t" for q
      by (rule remove_nth_other [OF that(1)]) (use that cancel(2) in simp)
    with cancel ok(3) len show ?thesis by (auto simp: flags_ok_def flag_defs managed_eqs)
  next
    case (decide i res s' pc)
    with ok(3) len show ?thesis by (auto simp: flags_ok_def flag_defs managed_eqs)
  next
    case stopping
    with ok(2) have "ms_stop s = StopIdle" by (simp add: phase_ok_def)
    with stopping ok(3) len show ?thesis by (auto simp: flags_ok_def flag_defs)
  qed (use ok(3) len in \<open>auto simp: flags_ok_def flag_defs managed_eqs\<close>)
qed

text \<open>
  A step that leaves the leases alone, apart from those of requests it decides, keeps
  \<open>lease_ok\<close> if each undecided request that was kept is still kept.
\<close>

lemma lease_keep:
  assumes ok: "lease_ok s" "seq_ok s" and t: "t = stream_step vs a s"
    and same: "ms_accepted t = ms_accepted s" "ms_closed s \<Longrightarrow> ms_closed t"
      "\<And>q. q < length (ms_accepted s) \<Longrightarrow> \<not> is_terminal t q \<Longrightarrow>
         te_admission (ms_terminals t ! q) = te_admission (ms_terminals s ! q)"
    and kept: "\<And>q. q < length (ms_accepted s) \<Longrightarrow> \<not> is_terminal t q \<Longrightarrow> kept s q \<Longrightarrow> kept t q"
  shows "lease_ok t"
  unfolding lease_ok_def
proof (intro allI impI)
  fix q assume "q < length (ms_accepted t)" and undecided: "\<not> is_terminal t q"
  then have q: "q < length (ms_accepted s)" by (simp add: same)
  have "\<not> is_terminal s q"
    using undecided step_grows [OF ok(2), of vs a] q seq_okD(1) [OF ok(2)] by (auto simp: grows_def t)
  with ok(1) q have "if te_admission (ms_terminals s ! q) = None then \<not> arc_alive s q \<and> ms_closed s else kept s q"
    by (simp add: lease_ok_def)
  then show "if te_admission (ms_terminals t ! q) = None then \<not> arc_alive t q \<and> ms_closed t else kept t q"
    using same(2) same(3) [OF q undecided] kept [OF q undecided] step_alive [OF _ ok(2) q, of vs a]
    by (auto simp: t)
qed

text \<open>The executor passes every reference on, or decides the request.\<close>

lemma exec_kept:
  assumes ok: "seq_ok s" "own_ok s" "flags_ok s" and q: "q < length (ms_accepted s)" "kept s q"
    and t: "t = exec_step now spawned s" and "\<not> is_terminal t q"
  shows "kept t q"
proof -
  have undecided: "\<not> is_terminal s q"
    using assms(7) exec_grows [of s now spawned] q(1) seq_okD(1) [OF ok(1)] by (auto simp: grows_def t)
  show ?thesis
  proof (cases rule: exec_cases [where s = s and now = now and spawned = spawned])
    case (launch_cancelled launches progress e rest m)
    have "kept t q" if "q = ev_terminal e"
    proof -
      have "(q, True) \<in> set (ms_cancels s) \<or> (\<exists>ts. ms_stop s = StopFinish q ts)"
        using ok(3) q(1) undecided launch_cancelled(4) that by (auto simp: flags_ok_def)
      with launch_cancelled show ?thesis unfolding t kept_def by (auto intro: rev_image_eqI)
    qed
    moreover have "kept t q" if "q \<noteq> ev_terminal e"
      using that q(2) launch_cancelled unfolding t kept_def by auto
    ultimately show ?thesis by blast
  next
    case (expire e launches)
    then have "env_ok s e" using ok(2) by (simp add: own_ok_def)
    then have "ev_terminal e < length (ms_terminals s)"
      using env_okD [of s e] seq_okD(1,3) [OF ok(1)] by simp
    then have "is_terminal t (ev_terminal e)" using expire by (simp add: t managed_eqs is_terminal_def)
    with assms(7) have "q \<noteq> ev_terminal e" by blast
    with q(2) expire show ?thesis unfolding t kept_def by (auto simp: managed_eqs)
  next
    case (spawn e rest)
    then have "env_ok s e" using ok(2) by (simp add: own_ok_def)
    then have e: "ev_terminal e < length (ms_terminals s)"
      using env_okD [of s e] seq_okD(1,3) [OF ok(1)] by simp
    show ?thesis
    proof (cases spawned)
      case True
      with q(2) spawn show ?thesis unfolding t kept_def by (auto simp: managed_eqs running_def)
    next
      case False
      with spawn e have "is_terminal t (ev_terminal e)" by (simp add: t managed_eqs is_terminal_def)
      with assms(7) have "q \<noteq> ev_terminal e" by blast
      with q(2) spawn False show ?thesis unfolding t kept_def by (auto simp: managed_eqs)
    qed
  qed (use q(2) in \<open>auto simp: t kept_def managed_eqs\<close>)
qed

lemma exec_admission:
  assumes "seq_ok s" "q < length (ms_accepted s)" "t = exec_step now spawned s" "\<not> is_terminal t q"
  shows "te_admission (ms_terminals t ! q) = te_admission (ms_terminals s ! q)"
proof -
  have "q < length (ms_terminals s)" using assms(2) seq_okD(1) [OF assms(1)] by simp
  with assms(3,4) show ?thesis
    by (cases rule: exec_cases [where s = s and now = now and spawned = spawned])
       (auto simp: managed_eqs is_terminal_def)
qed

text \<open>
  Clearing the mailbox: only the envelopes of the queue go, and what they alone referred to
  loses its lease.
\<close>

lemma lease_close:
  assumes ok: "lease_ok s" "seq_ok s" "own_ok s"
    and t: "t = s\<lparr>ms_closed := True, ms_input := [], ms_worker_completions := [], ms_results := [], ms_metrics := m,
      ms_stop := StopCollect, ms_terminals := cleared_terminals s\<rparr>" and stop: "ms_stop s = StopLock"
  shows "lease_ok t"
  unfolding lease_ok_def
proof (intro allI impI)
  fix q assume "q < length (ms_accepted t)" and undecided: "\<not> is_terminal t q"
  then have q: "q < length (ms_accepted s)" and len: "q < length (ms_terminals s)" by (simp_all add: t seq_okD(1) [OF ok(2)])
  have alive: "arc_alive (s\<lparr>ms_input := []\<rparr>) q = arc_alive t q" by (simp add: arc_alive_iff t stop)
  have before: "if te_admission (ms_terminals s ! q) = None then \<not> arc_alive s q \<and> ms_closed s else kept s q"
    using ok(1) q undecided len by (simp add: lease_ok_def t is_terminal_def)
  have dead: "\<not> arc_alive s q \<Longrightarrow> \<not> arc_alive t q" by (auto simp: arc_alive_iff t stop)
  have queued: "taken s \<le> q" if "q \<in> ev_terminal ` set (ms_input s)"
  proof -
    have "ms_input s = drop (taken s) (ms_accepted s)" using ok(2) by (simp add: seq_ok_def)
    with that obtain i where i: "taken s + i < length (ms_accepted s)" "ev_terminal (ms_accepted s ! (taken s + i)) = q"
      by (auto simp: in_set_conv_nth less_diff_conv add.commute)
    with seq_okD(4) [OF ok(2) i(1)] show ?thesis by simp
  qed
  have young: "ev_terminal (wk_envelope w) < taken s" if "w \<in> set (ms_workers s)" for w
    using that ok(3) env_okD [of s "wk_envelope w"] by (simp add: own_ok_def)
  have started: "aq_terminal (snd x) < taken s" if "x \<in> set (ms_active s)" for x
    using that ok(3) by (auto simp: own_ok_def active_ok_def)
  show "if te_admission (ms_terminals t ! q) = None then \<not> arc_alive t q \<and> ms_closed t else kept t q"
  proof (cases "q \<in> ev_terminal ` set (ms_input s)")
    case True
    then have "te_admission (ms_terminals t ! q) =
        (if arc_alive t q then te_admission (ms_terminals s ! q) else None)"
      using len by (simp add: t cleared_terminals_admission) (simp add: alive t)
    moreover have "kept t q" if "arc_alive t q"
      using that queued [OF True] young started unfolding arc_alive_iff kept_def by (fastforce simp: t)
    moreover have "\<not> arc_alive t q" if "te_admission (ms_terminals s ! q) = None" using that before dead by simp
    moreover have "ms_closed t" by (simp add: t)
    ultimately show ?thesis by (cases "arc_alive t q") auto
  next
    case False
    then have "te_admission (ms_terminals t ! q) = te_admission (ms_terminals s ! q)"
      using len by (simp add: t cleared_terminals_admission)
    with before False dead stop show ?thesis by (auto simp: t kept_def)
  qed
qed

lemma worker_update_running:
  assumes "w \<in> set ws" "running (wk_pc w)" "ev_terminal (wk_envelope w) = q" "i < length ws"
    "running pc = running (wk_pc (ws ! i))"
  shows "\<exists>w \<in> set (ws[i := with_pc (ws ! i) pc]). running (wk_pc w) \<and> ev_terminal (wk_envelope w) = q"
proof -
  obtain j where j: "j < length ws" "ws ! j = w" using assms(1) by (auto simp: in_set_conv_nth)
  let ?w = "ws[i := with_pc (ws ! i) pc] ! j"
  have "?w \<in> set (ws[i := with_pc (ws ! i) pc])" using j(1) by (intro nth_mem) simp
  moreover have "running (wk_pc ?w) \<and> ev_terminal (wk_envelope ?w) = q"
    using assms(2-5) j by (cases "i = j") auto
  ultimately show ?thesis by blast
qed

lemma worker_update_decided:
  assumes "own_ok s" "i < length (ms_workers s)" "wk_pc (ms_workers s ! i) = WPush res"
    and w: "w \<in> set (ms_workers s)" "\<not> is_terminal s (ev_terminal (wk_envelope w))"
  shows "w \<in> set ((ms_workers s)[i := with_pc (ms_workers s ! i) pc])"
proof -
  let ?e = "wk_envelope (ms_workers s ! i)"
  have "comp_ok s (worker_completion_of ?e res)" "env_ok s ?e"
    using assms(1,3) nth_mem [OF assms(2)] by (force simp: own_ok_def worker_comps_def)+
  then have "is_terminal s (ev_terminal ?e)" by (simp add: comp_ok_def worker_completion_of_def env_ok_def)
  moreover obtain j where j: "j < length (ms_workers s)" "ms_workers s ! j = w"
    using w(1) by (auto simp: in_set_conv_nth)
  ultimately have "i \<noteq> j" using w(2) by auto
  with j show ?thesis by (metis length_list_update nth_list_update_neq nth_mem)
qed

lemma lease_accept:
  assumes ok: "lease_ok s" "seq_ok s" and "\<not> ms_closed s"
    and t: "t = s\<lparr>ms_terminals := ms_terminals s @ [terminal_new request], ms_registrations := regs,
      ms_next_sequence := n, ms_input := ms_input s @ [e], ms_metrics := m, ms_accepted := ms_accepted s @ [e]\<rparr>"
    and e: "ev_terminal e = length (ms_terminals s)"
  shows "lease_ok t"
  unfolding lease_ok_def
proof (intro allI impI)
  note len = seq_okD(1) [OF ok(2)]
  fix q assume q: "q < length (ms_accepted t)" "\<not> is_terminal t q"
  show "if te_admission (ms_terminals t ! q) = None then \<not> arc_alive t q \<and> ms_closed t else kept t q"
  proof (cases "q < length (ms_accepted s)")
    case True
    with q(2) len have "\<not> is_terminal s q" by (simp add: t is_terminal_def nth_append)
    with ok(1) True assms(3) have "te_admission (ms_terminals s ! q) \<noteq> None" "kept s q"
      by (auto simp: lease_ok_def split: if_splits)
    moreover from this(2) have "kept t q" by (auto simp: t kept_def)
    moreover have "ms_terminals t ! q = ms_terminals s ! q" using True len by (simp add: t nth_append)
    ultimately show ?thesis by auto
  next
    case False
    with q(1) have "q = length (ms_terminals s)" by (simp add: t len)
    with e show ?thesis by (simp add: t nth_append terminal_new_def kept_def)
  qed
qed

lemma lease_step:
  assumes ok: "lease_ok s" "seq_ok s" "own_ok s" "phase_ok s" "flags_ok s"
  shows "lease_ok (stream_step vs a s)"
proof -
  define t where "t = stream_step vs a s"
  note keep = lease_keep [OF ok(1,2) t_def] and len = seq_okD(1) [OF ok(2)]
  have "lease_ok t"
  proof (cases rule: step_cases [where s = s and vs = vs and a = a])
    case (exec now spawned)
    then have t: "t = exec_step now spawned s" by (simp add: t_def)
    show ?thesis
    proof (rule keep)
      show "ms_accepted t = ms_accepted s" unfolding t
        by (cases rule: exec_cases [where s = s and now = now and spawned = spawned]) (simp_all add: managed_eqs)
    qed (use exec_kept [OF ok(2,3,5) _ _ t] exec_admission [OF ok(2) _ t] in \<open>simp_all add: t\<close>)
  next
    case (accept request m)
    have "ev_terminal (envelope_of request (ms_next_sequence s) (length (ms_terminals s))) = length (ms_terminals s)"
      by (simp add: envelope_of_def)
    with lease_accept [OF ok(1,2) accept(1) accept(8) [unfolded Let_def]] show ?thesis by (simp add: t_def)
  next
    case (close m)
    show ?thesis by (rule lease_close [OF ok(1-3), of t m]) (simp_all add: t_def close)
  next
    case (flag i u)
    then have "map fst ((ms_cancels s)[i := (u, True)]) = map fst (ms_cancels s)"
      by (metis fst_conv list_update_id map_update nth_map)
    then have "fst ` set ((ms_cancels s)[i := (u, True)]) = fst ` set (ms_cancels s)" by (metis set_map)
    with flag len show ?thesis by (intro keep) (auto simp: t_def kept_def)
  next
    case (cancel i u)
    have "q \<in> fst ` set (remove_nth i (ms_cancels s))" if "q \<in> fst ` set (ms_cancels s)" "q \<noteq> u" for q
      using that remove_nth_other [of _ "ms_cancels s" i] cancel(2) by force
    moreover have "is_terminal t q" if "q = u" "q < length (ms_accepted s)" for q
      using that cancel len by (simp add: t_def managed_eqs is_terminal_def)
    ultimately show ?thesis using cancel len
      by (intro keep) (auto simp: t_def kept_def managed_eqs is_terminal_def)
  next
    case stopping
    with ok(4) have "ms_stop s = StopIdle" by (simp add: phase_ok_def)
    with stopping show ?thesis by (intro keep) (auto simp: t_def kept_def)
  next
    case (stop_flag i ts)
    with len show ?thesis by (intro keep) (auto simp: t_def kept_def intro: remove_nth_other)
  next
    case (stop_cancel u ts)
    have "is_terminal t q" if "q = u" "q < length (ms_accepted s)" for q
      using that stop_cancel len by (simp add: t_def managed_eqs is_terminal_def)
    with stop_cancel len show ?thesis by (intro keep) (auto simp: t_def kept_def managed_eqs is_terminal_def)
  next
    case (work i pc m)
    have "\<exists>w \<in> set ((ms_workers s)[i := with_pc (ms_workers s ! i) pc]). running (wk_pc w) \<and> ev_terminal (wk_envelope w) = q"
      if "w \<in> set (ms_workers s)" "running (wk_pc w)" "ev_terminal (wk_envelope w) = q" for w q
      by (rule worker_update_running [OF that work(1,3)])
    with work show ?thesis by (intro keep) (auto simp: t_def kept_def)
  next
    case (decide i res s' pc)
    then have "running pc = running (wk_pc (ms_workers s ! i))" by (auto simp: worker_finish_eq running_def Let_def)
    then have "\<exists>w \<in> set ((ms_workers s)[i := with_pc (ms_workers s ! i) pc]). running (wk_pc w) \<and> ev_terminal (wk_envelope w) = q"
      if "w \<in> set (ms_workers s)" "running (wk_pc w)" "ev_terminal (wk_envelope w) = q" for w q
      by (rule worker_update_running [OF that decide(1)])
    with decide len show ?thesis by (intro keep) (auto simp: t_def kept_def managed_eqs is_terminal_def)
  next
    case (hand_over i res)
    have "w \<in> set ((ms_workers s)[i := with_pc (ms_workers s ! i) WExit])"
      if "w \<in> set (ms_workers s)" "\<not> is_terminal s (ev_terminal (wk_envelope w))" for w
      using worker_update_decided [OF ok(3) hand_over(1,2) that] .
    with hand_over show ?thesis by (intro keep) (auto simp: t_def kept_def managed_eqs is_terminal_def)
  qed (rule keep; auto simp: t_def kept_def managed_eqs)+
  then show ?thesis by (simp add: t_def)
qed

end
