(* ===== verification/Managed_Stop.thy ===== *)
theory Managed_Stop
  imports Managed_Lease "HOL-Library.Sublist"
begin

text \<open>
  What stopping a managed stream guarantees, and the properties of managed streams: every
  request that can still be reached is either registered, held by the stopper, or held by a
  caller of \<open>cancel\<close> that has stored the flag, so that no lease survives a stop.
\<close>

section \<open>Who will release a lease\<close>

definition held :: "managed_stream \<Rightarrow> nat \<Rightarrow> bool" where
  "held s q \<longleftrightarrow>
     (if load_cancelled s q then (q, True) \<in> set (ms_cancels s) \<or> (\<exists>ts. ms_stop s = StopFinish q ts)
      else bt_get (ms_registrations s) (rid s q) = Some q \<or> q \<in> set (stop_terminals (ms_stop s)))"

fun collected :: "stop_pc \<Rightarrow> bool" where
  "collected (StopCancel _) = True"
| "collected (StopFinish _ _) = True"
| "collected StopDone = True"
| "collected _ = False"

definition unique_ids :: "managed_stream \<Rightarrow> bool" where
  "unique_ids s \<longleftrightarrow> distinct (map ev_request_id (ms_accepted s))"

definition hold_ok :: "managed_stream \<Rightarrow> bool" where
  "hold_ok s \<longleftrightarrow>
     (\<forall>q < length (ms_accepted s). arc_alive s q \<longrightarrow> \<not> is_terminal s q \<longrightarrow> held s q) \<and>
     (collected (ms_stop s) \<longrightarrow> ms_registrations s = [])"

lemma unique_rid:
  "unique_ids s \<Longrightarrow> p < length (ms_accepted s) \<Longrightarrow> q < length (ms_accepted s) \<Longrightarrow> rid s p = rid s q \<Longrightarrow> p = q"
  by (simp add: unique_ids_def distinct_conv_nth) metis

text \<open>The executor only forgets requests that are decided or cancelled.\<close>

lemma exec_forgets:
  assumes ok: "base_ok s" "small s"
  shows "ms_registrations (exec_step now spawned s) = ms_registrations s \<or>
    (\<exists>q < length (ms_accepted s). ms_registrations (exec_step now spawned s) = bt_remove (rid s q) (ms_registrations s) \<and>
       (is_terminal (exec_step now spawned s) q \<or> load_cancelled s q))"
proof -
  have seq: "seq_ok s" and own: "own_ok s" using ok(1) by (simp_all add: base_ok_def)
  have len: "q < length (ms_accepted s) \<and> q < length (ms_terminals s)" if "q < taken s" for q
    using seq_okD(1,3) [OF seq] that by simp
  show ?thesis
  proof (cases rule: exec_cases [where s = s and now = now and spawned = spawned])
    case (resolve c cs had)
    with own have "comp_ok s c" by (simp add: own_ok_def)
    with resolve len show ?thesis
      by (intro disjI2 exI [of _ "wc_sequence c"]) (auto simp: comp_ok_def managed_eqs flag_defs)
  next
    case (launch_cancelled launches progress e rest m)
    define t where "t = exec_step now spawned s"
    have t: "ms_accepted t = ms_accepted s" "ms_input t = rest"
      "ms_registrations t = bt_remove (ev_request_id e) (ms_registrations s)"
      by (simp_all add: t_def launch_cancelled(6))
    have e: "env_ok t e" by (rule head_env_ok(1) [OF seq ok(2) launch_cancelled(3) t(1,2)])
    have "ev_sequence e < taken t" "ev_terminal e = ev_sequence e" and r: "ev_request_id e = rid t (ev_sequence e)"
      using env_okD [OF e] by blast+
    moreover from this(1) have "ev_sequence e < length (ms_accepted s)"
      unfolding taken_def t(1) by (rule order.strict_trans2) simp
    ultimately have "load_cancelled s (ev_sequence e)" "ev_sequence e < length (ms_accepted s)"
      using launch_cancelled(4) by metis+
    moreover have "ms_registrations t = bt_remove (rid s (ev_sequence e)) (ms_registrations s)"
      using t(3) unfolding r t(1) .
    ultimately show ?thesis unfolding t_def by blast
  next
    case (expire e launches)
    with own have "env_ok s e" by (simp add: own_ok_def)
    with env_okD [of s e] expire len show ?thesis
      by (intro disjI2 exI [of _ "ev_sequence e"]) (auto simp: managed_eqs flag_defs)
  qed (auto simp: managed_eqs)
qed

lemma exec_same:
  assumes "seq_ok s" "q < length (ms_accepted s)"
  shows "load_cancelled (exec_step now spawned s) q = load_cancelled s q"
    "ms_cancels (exec_step now spawned s) = ms_cancels s" "ms_stop (exec_step now spawned s) = ms_stop s"
    "ms_accepted (exec_step now spawned s) = ms_accepted s"
  using assms seq_okD(1) [OF assms(1)]
  by (cases rule: exec_cases [where s = s and now = now and spawned = spawned]; auto simp: managed_eqs flag_defs)+

lemma held_iff:
  assumes "ms_cancels t = ms_cancels s" "ms_stop t = ms_stop s" "load_cancelled t q = load_cancelled s q" "rid t q = rid s q"
    and "bt_get (ms_registrations t) (rid s q) = bt_get (ms_registrations s) (rid s q) \<or> load_cancelled s q"
  shows "held t q = held s q"
  using assms by (auto simp: held_def)

lemma exec_held:
  assumes ok: "base_ok s" "small s" "unique_ids s" and q: "q < length (ms_accepted s)" "held s q"
    "\<not> is_terminal (exec_step now spawned s) q"
  shows "held (exec_step now spawned s) q"
proof -
  define t where "t = exec_step now spawned s"
  have seq: "seq_ok s" using ok(1) by (simp add: base_ok_def)
  note same = exec_same [OF seq q(1), of now spawned, folded t_def]
  have "bt_get (ms_registrations t) (rid s q) = bt_get (ms_registrations s) (rid s q) \<or> load_cancelled s q"
  proof (cases "ms_registrations t = ms_registrations s")
    case False
    then obtain p where p: "p < length (ms_accepted s)" "ms_registrations t = bt_remove (rid s p) (ms_registrations s)"
      "is_terminal t p \<or> load_cancelled s p"
      using exec_forgets [OF ok(1,2), of now spawned, folded t_def] by blast
    show ?thesis
    proof (cases "rid s p = rid s q")
      case True
      with unique_rid [OF ok(3) p(1) q(1)] have "p = q" by simp
      with p(3) q(3) show ?thesis by (simp add: t_def)
    next
      case False
      with p(2) show ?thesis by (simp add: bt_get_remove)
    qed
  qed simp
  then have "held t q = held s q" by (intro held_iff) (simp_all add: same)
  with q(2) show ?thesis by (simp add: t_def)
qed

lemma step_held:
  assumes ok: "base_ok s" "small s" "unique_ids (stream_step vs a s)" and q: "q < length (ms_accepted s)" "held s q" "arc_alive s q"
    "\<not> is_terminal (stream_step vs a s) q"
  shows "held (stream_step vs a s) q"
proof -
  have seq: "seq_ok s" using ok(1) by (simp add: base_ok_def)
  have len: "q < length (ms_terminals s)" using seq_okD(1) [OF seq] q(1) by simp
  have uniq: "unique_ids s"
    using ok(3) step_grows [OF seq, of vs a] by (auto simp: grows_def unique_ids_def)
  show ?thesis
  proof (cases rule: step_cases [where s = s and vs = vs and a = a])
    case (exec now spawned)
    with exec_held [OF ok(1,2) uniq q(1,2)] q(4) show ?thesis by simp
  next
    case (accept request m)
    have "ms_accepted s ! q \<in> set (ms_accepted s)" using q(1) by simp
    then have "rq_request_id request \<noteq> rid s q"
      using ok(3) accept(8) by (auto simp: unique_ids_def Let_def envelope_of_def)
    with accept q len show ?thesis
      by (auto simp: held_def Let_def flag_defs nth_append bt_get_insert)
  next
    case (flag i t)
    have "(q, True) \<in> set ((ms_cancels s)[i := (t, True)])" if "(q, True) \<in> set (ms_cancels s) \<or> q = t"
      using that flag(1,2) by (metis in_set_conv_nth length_list_update nth_list_update snd_conv)
    with flag q len show ?thesis by (auto simp: held_def flag_defs)
  next
    case (cancel i t)
    have "(q, True) \<in> set (remove_nth i (ms_cancels s))" if "(q, True) \<in> set (ms_cancels s)" "q \<noteq> t"
      by (rule remove_nth_other [OF that(1)]) (use that cancel(2) in simp)
    with cancel q len show ?thesis by (auto simp: held_def flag_defs managed_eqs)
  next
    case collect
    with q ok(1) show ?thesis
      by (auto simp: held_def flag_defs managed_eqs bt_values_def base_ok_def refs_ok_def refs_view_def bt_get_iff
          intro: rev_image_eqI)
  next
    case (stop_flag i ts)
    with q len show ?thesis
      by (auto simp: held_def flag_defs intro: remove_nth_other)
  next
    case stopping
    then have "ms_stop s = StopIdle" using ok(1) by (simp add: base_ok_def phase_ok_def)
    with stopping q len show ?thesis by (auto simp: held_def flag_defs)
  next
    case (decide i res s' pc)
    with q len show ?thesis by (auto simp: held_def flag_defs managed_eqs)
  qed (use q len in \<open>auto simp: held_def flag_defs managed_eqs\<close>)
qed

lemma step_registrations:
  assumes "collected (ms_stop s) \<longrightarrow> ms_registrations s = []" "phase_ok s"
  shows "collected (ms_stop (stream_step vs a s)) \<longrightarrow> ms_registrations (stream_step vs a s) = []"
proof (cases rule: step_cases [where s = s and vs = vs and a = a])
  case (exec now spawned)
  show ?thesis unfolding exec
    by (cases rule: exec_cases [where s = s and now = now and spawned = spawned])
       (use assms(1) in \<open>auto simp: managed_eqs bt_remove_def\<close>)
next
  case (accept request m)
  then have "\<not> collected (ms_stop s)" using assms(2) by (cases "ms_stop s") (auto simp: phase_ok_def)
  with accept show ?thesis by (simp add: Let_def)
qed (use assms(1) in \<open>auto simp: managed_eqs\<close>)

lemma step_hold:
  assumes ok: "base_ok s" "small s" "unique_ids (stream_step vs a s)" "hold_ok s"
  shows "hold_ok (stream_step vs a s)"
proof -
  define t where "t = stream_step vs a s"
  have seq: "seq_ok s" and phase: "phase_ok s" using ok(1) by (simp_all add: base_ok_def)
  have g: "grows s t" unfolding t_def by (rule step_grows [OF seq])
  have "held t q" if q: "q < length (ms_accepted t)" "arc_alive t q" "\<not> is_terminal t q" for q
  proof (cases "q < length (ms_accepted s)")
    case True
    have alive: "arc_alive s q" using q(2) step_alive [OF _ seq True] by (simp add: t_def)
    moreover have "\<not> is_terminal s q" using g q(3) True seq_okD(1) [OF seq] by (auto simp: grows_def)
    ultimately have "held s q" using ok(4) True by (simp add: hold_ok_def)
    with step_held [OF ok(1-3) True _ alive] q(3) show ?thesis by (simp add: t_def)
  next
    case False
    show ?thesis
    proof (cases rule: step_cases [where s = s and vs = vs and a = a])
      case (exec now spawned)
      show ?thesis
        by (cases rule: exec_cases [where s = s and now = now and spawned = spawned])
           (use False q(1) in \<open>auto simp: t_def exec managed_eqs\<close>)
    next
      case (accept request m)
      then have "q = length (ms_accepted s)" using q(1) False by (simp add: t_def Let_def)
      with accept seq_okD(1) [OF seq] show ?thesis
        by (simp add: t_def held_def Let_def flag_defs nth_append bt_get_insert terminal_new_def envelope_of_def)
    next
      case (decide i res s' pc)
      then have "ms_accepted s' = ms_accepted s" by (auto simp: managed_eqs)
      with False q(1) decide(4) show ?thesis by (simp add: t_def)
    qed (use False q(1) in \<open>auto simp: t_def managed_eqs\<close>)
  qed
  moreover have "collected (ms_stop t) \<longrightarrow> ms_registrations t = []"
    unfolding t_def by (rule step_registrations [OF _ phase]) (use ok(4) in \<open>simp add: hold_ok_def\<close>)
  ultimately show ?thesis unfolding hold_ok_def t_def by blast
qed

text \<open>The invariant of every run; its last part is about runs in which no request id is used twice.\<close>

definition stop_inv :: "managed_stream \<Rightarrow> bool" where
  "stop_inv s \<longleftrightarrow>
     managed_inv s \<and> flags_ok s \<and> (small s \<longrightarrow> lease_ok s) \<and> (small s \<longrightarrow> unique_ids s \<longrightarrow> hold_ok s)"

lemma step_stop_inv: "stop_inv s \<Longrightarrow> stop_inv (stream_step vs a s)"
proof -
  assume inv: "stop_inv s"
  then have m: "managed_inv s" "managed_inv (stream_step vs a s)" by (simp_all add: stop_inv_def step_managed_inv)
  then have seq: "seq_ok s" by (simp add: managed_inv_def stream_inv_def)
  have "hold_ok (stream_step vs a s)" if "small (stream_step vs a s)" "unique_ids (stream_step vs a s)"
  proof -
    have small: "small s" using that(1) step_small [OF seq] by simp
    then have "base_ok s" using m(1) by (simp add: managed_inv_def stream_inv_def)
    moreover have "unique_ids s" using that(2) step_grows [OF seq, of vs a] by (auto simp: grows_def unique_ids_def)
    ultimately show ?thesis using step_hold [OF _ small that(2)] inv small by (simp add: stop_inv_def)
  qed
  moreover have "lease_ok (stream_step vs a s)" if "small (stream_step vs a s)"
  proof -
    have small: "small s" using that step_small [OF seq] by simp
    then have "base_ok s" using m(1) by (simp add: managed_inv_def stream_inv_def)
    with inv small show ?thesis by (intro lease_step) (simp_all add: stop_inv_def base_ok_def)
  qed
  moreover have "flags_ok (stream_step vs a s)"
    using inv m(1) seq by (intro flags_step) (simp_all add: stop_inv_def managed_inv_def stream_inv_def)
  ultimately show ?thesis using m(2) by (simp add: stop_inv_def)
qed

interpretation stopping: guarded_system "stream_step vs" stop_inv for vs
  by unfold_locales (rule step_stop_inv)

lemma managed_stream_new_stop_inv: "stop_inv (managed_stream_new session options)"
  unfolding stop_inv_def using new_managed_inv [of session options]
  by (simp add: hold_ok_def lease_ok_def flags_ok_def managed_stream_new_def)

section \<open>Properties\<close>

lemma stream_run_inv: "stop_inv (fold (stream_step vs) ops (managed_stream_new session options))"
  by (rule stopping.run_inv [OF managed_stream_new_stop_inv])

lemma run_options:
  "stop_inv s \<Longrightarrow> ms_options (fold (stream_step vs) ops s) = ms_options s \<and>
     ms_session_id (fold (stream_step vs) ops s) = ms_session_id s"
proof (induction ops arbitrary: s)
  case (Cons a ops)
  then have "seq_ok s" by (simp add: stop_inv_def managed_inv_def stream_inv_def)
  with step_grows [of s vs a] Cons.IH [OF step_stop_inv [OF Cons.prems], of vs a] show ?case by (simp add: grows_def)
qed simp

lemma run_facts:
  assumes "s = fold (stream_step vs) ops (managed_stream_new session options)"
  shows "managed_inv s" "ms_options s = options" "ms_session_id s = session"
    and "small s \<Longrightarrow> base_ok s" "small s \<Longrightarrow> \<not> ms_closed s \<Longrightarrow> live_ok s"
    and "small s \<Longrightarrow> unique_ids s \<Longrightarrow> hold_ok s" "phase_ok s" "small s \<Longrightarrow> lease_ok s"
  using assms stream_run_inv [of vs ops session options]
    run_options [OF managed_stream_new_stop_inv, of vs ops session options]
  by (simp_all add: stop_inv_def managed_inv_def stream_inv_def managed_stream_new_def)

lemma buffers_bounded:
  assumes "base_ok s" "live_ok s" "window_ok s"
  shows "length (ms_ordered s) \<le> mo_max_in_flight (ms_options s)" "length (ms_relaxed s) \<le> mo_max_in_flight (ms_options s)"
proof -
  show "length (ms_ordered s) \<le> mo_max_in_flight (ms_options s)"
  proof (cases "strict s")
    case True
    then have "distinct (bt_keys (ms_ordered s))"
      using assms(2) bt_inv_distinct by (auto simp: live_ok_def strict_ok_def bt_keys_def)
    from distinct_card [OF this] have "length (ms_ordered s) = card (ordered_keys_of s)" by (simp add: bt_keys_def)
    also have "\<dots> \<le> card (window s)" by (rule card_mono) (auto simp: window_def)
    finally show ?thesis using assms(3) by (simp add: window_ok_def)
  qed (use assms(2) in \<open>simp add: live_ok_def relaxed_ok_def\<close>)
  show "length (ms_relaxed s) \<le> mo_max_in_flight (ms_options s)"
  proof (cases "strict s")
    case False
    have "mset (ms_relaxed s) \<subseteq># mset (ms_outcomes s)" using assms(2) by (simp add: live_ok_def tokens_ok_def)
    then obtain xs where "mset (ms_outcomes s) = mset (ms_relaxed s @ xs)"
      by (metis ex_mset mset_append mset_subset_eq_exists_conv)
    then have "mset (map fst (ms_outcomes s)) = mset (map fst (ms_relaxed s @ xs))" by (simp only: mset_map)
    moreover have "distinct (map fst (ms_outcomes s))" using assms(1) by (simp add: base_ok_def outcomes_ok_def)
    ultimately have "distinct (map fst (ms_relaxed s))"
      using mset_eq_imp_distinct_iff by (metis distinct_append map_append)
    from distinct_card [OF this] have "length (ms_relaxed s) = card (fst ` set (ms_relaxed s))" by simp
    also have "\<dots> \<le> card (pending s)" by (rule card_mono) (auto simp: pending_def)
    finally show ?thesis using assms(3) False by (simp add: window_ok_def)
  qed (use assms(2) in \<open>simp add: live_ok_def strict_ok_def\<close>)
qed

text \<open>
  C37. A managed stream is bounded. For every interleaving of submitters, cancellers, receivers,
  the stopper, the executor and the request workers, the mailbox holds at most
  \<open>input_capacity\<close> requests and at most \<open>result_capacity\<close> results, at most \<open>max_in_flight\<close>
  requests are active, and as long as the stream is open the reorder buffer and the relaxed
  result queue each hold at most \<open>max_in_flight\<close> entries.
\<close>

theorem stream_bounded:
  assumes "s = fold (stream_step vs) ops (managed_stream_new session options)"
    and "length (ms_accepted s) \<le> 18446744073709551616"
  shows "length (ms_input s) \<le> mo_input_capacity options \<and>
    length (ms_results s) \<le> mo_result_capacity options \<and>
    length (ms_active s) \<le> mo_max_in_flight options \<and>
    (ms_closed s \<or> length (ms_ordered s) \<le> mo_max_in_flight options \<and>
       length (ms_relaxed s) \<le> mo_max_in_flight options)"
proof -
  note run = run_facts [OF assms(1)]
  have small: "small s" using assms(2) by (simp add: small_def)
  show ?thesis
    using run(1,2) small buffers_bounded [OF run(4) [OF small] run(5) [OF small]]
    by (auto simp: managed_inv_def history_ok_def)
qed

text \<open>
  C33. Strict delivery. For every interleaving, the results a strictly ordered stream publishes
  are in the order of their submissions, each is an outcome that was decided for an accepted
  request of this session and carries its request id, and the receivers get exactly a prefix
  of them. While the stream is open, every sequence the executor has passed was published or
  its request was cancelled: no result is skipped.
\<close>

theorem stream_strict_order:
  assumes "s = fold (stream_step vs) ops (managed_stream_new session options)"
    and "length (ms_accepted s) \<le> 18446744073709551616" and "mo_ordering options = StrictOrder"
  shows "sorted_wrt (<) (map fst (ms_published s)) \<and>
    (\<forall>(q, c) \<in> set (ms_published s). (q, c) \<in> set (ms_outcomes s) \<and> q < length (ms_accepted s) \<and>
       sc_session_id c = session \<and> sc_request_id c = ev_request_id (ms_accepted s ! q)) \<and>
    prefix (ms_received s) (map snd (ms_published s)) \<and>
    (ms_closed s \<or> (\<forall>q < ms_next_delivery s. q \<in> fst ` set (ms_published s) \<or> load_cancelled s q))"
proof -
  note run = run_facts [OF assms(1)]
  have small: "small s" and strict: "strict s" using assms(2,3) run(2) by (simp_all add: small_def strict_def)
  have base: "base_ok s" by (rule run(4) [OF small])
  have pub: "sorted_wrt (<) (map fst (ms_published s))" "set (ms_published s) \<subseteq> set (ms_outcomes s)"
    using run(1) small strict by (auto simp: managed_inv_def)
  have known: "q < length (ms_accepted s) \<and> sc_session_id c = session \<and> sc_request_id c = rid s q"
    if "(q, c) \<in> set (ms_outcomes s)" for q c
    using that base run(3) seq_okD(3) [of s q] by (auto simp: base_ok_def outcomes_ok_def)
  have "q \<in> fst ` set (ms_published s) \<or> load_cancelled s q" if "\<not> ms_closed s" "q < ms_next_delivery s" for q
  proof -
    have st: "strict_ok s" using run(5) [OF small that(1)] strict by (simp add: live_ok_def)
    then have "answered s q" using that(2) by (simp add: strict_ok_def resolved_def)
    moreover have "(q, c) \<notin># ordered_tokens s" for c
    proof
      assume "(q, c) \<in># ordered_tokens s"
      then have "q \<in> ordered_keys_of s"
        by (force simp: ordered_tokens_def ordered_token_def tokens_of_def bt_keys_def split: option.splits)
      then show False using st that(2) by (auto simp: strict_ok_def)
    qed
    ultimately show ?thesis by (force simp: answered_def)
  qed
  moreover have "prefix (ms_received s) (map snd (ms_published s))"
    using run(1) by (auto simp: managed_inv_def history_ok_def)
  ultimately show ?thesis using pub known by blast
qed

text \<open>
  C38. Relaxed delivery. For every interleaving, an open stream without an order loses no result
  and invents none: the outcomes decided so far are, as a multiset, the results received, the
  results waiting in the mailbox and in the relaxed queue, and the completions on their way
  from the workers to the executor.
\<close>

theorem stream_relaxed_complete:
  assumes "s = fold (stream_step vs) ops (managed_stream_new session options)"
    and "length (ms_accepted s) \<le> 18446744073709551616" and "mo_ordering options = RelaxedOrder" and "\<not> ms_closed s"
  shows "mset (map snd (ms_outcomes s)) =
    mset (ms_received s) + mset (ms_results s) + mset (map snd (ms_relaxed s)) + image_mset snd (comp_tokens s)"
proof -
  note run = run_facts [OF assms(1)]
  have small: "small s" and mode: "\<not> strict s" using assms(2,3) run(2) by (simp_all add: small_def strict_def)
  have "live_ok s" by (rule run(5) [OF small assms(4)])
  with mode have tok: "mset (ms_outcomes s) = comp_tokens s + mset (ms_relaxed s) + mset (ms_published s)"
    by (simp add: live_ok_def tokens_ok_def relaxed_ok_def ordered_tokens_def)
  have pub: "map snd (ms_published s) = ms_received s @ ms_results s"
    using run(1) assms(4) by (auto simp: managed_inv_def history_ok_def)
  have "mset (map snd (ms_outcomes s)) =
      image_mset snd (comp_tokens s) + mset (map snd (ms_relaxed s)) + mset (map snd (ms_published s))"
    by (simp only: mset_map tok image_mset_union)
  then show ?thesis by (simp add: pub ac_simps)
qed

text \<open>
  C34. One outcome per request. For every interleaving, at most one outcome is decided for each
  accepted request, and a decided request has an outcome or was cancelled. A request has given
  up its admission lease exactly when it is decided or nothing refers to it any more; the
  second happens to an undecided request only once a stop has closed the stream, and such a
  request has no outcome. The completed counter is the number of decided requests, and the five
  outcome counters add up to it, modulo the width of the counters.
\<close>

theorem stream_single_outcome:
  assumes "s = fold (stream_step vs) ops (managed_stream_new session options)"
    and "length (ms_accepted s) \<le> 18446744073709551616"
  shows "distinct (map fst (ms_outcomes s)) \<and>
    (\<forall>q < length (ms_accepted s).
       (te_admission (ms_terminals s ! q) = None) = (is_terminal s q \<or> \<not> arc_alive s q) \<and>
       (is_terminal s q \<or> arc_alive s q \<or> ms_closed s \<and> q \<notin> fst ` set (ms_outcomes s)) \<and>
       (is_terminal s q \<longrightarrow> q \<in> fst ` set (ms_outcomes s) \<or> load_cancelled s q)) \<and>
    sm_completed (ms_metrics s) = card {q. q < length (ms_accepted s) \<and> is_terminal s q} mod 2 ^ 64 \<and>
    (sm_succeeded (ms_metrics s) + sm_retry_exhausted (ms_metrics s) + sm_failed (ms_metrics s) +
       sm_timed_out (ms_metrics s) + sm_cancelled (ms_metrics s)) mod 2 ^ 64 = sm_completed (ms_metrics s)"
proof -
  note run = run_facts [OF assms(1)]
  have small: "small s" using assms(2) by (simp add: small_def)
  have out: "outcomes_ok s" using run(4) [OF small] by (simp add: base_ok_def)
  have count: "counters_ok s" using run(1) small by (simp add: managed_inv_def)
  have "\<forall>q < length (ms_accepted s).
       (te_admission (ms_terminals s ! q) = None) = (is_terminal s q \<or> \<not> arc_alive s q) \<and>
       (is_terminal s q \<or> arc_alive s q \<or> ms_closed s \<and> q \<notin> fst ` set (ms_outcomes s)) \<and>
       (is_terminal s q \<longrightarrow> q \<in> fst ` set (ms_outcomes s) \<or> load_cancelled s q)"
    using lease_given_up [OF out run(8) [OF small]] out by (simp add: outcomes_ok_def)
  with out count show ?thesis
    unfolding outcomes_ok_def counters_ok_def decided_def counted_total_def by simp
qed

text \<open>
  C35. Stopping releases every lease. Suppose no request id was used twice. Once the stopper has
  finished and no call of \<open>cancel\<close> is under way, no accepted request holds an admission lease,
  whatever the executor and the workers were doing: every request that anything can still
  reach (the mailbox, the executor, a worker) is decided, and every other one has dropped its
  lease with its last reference.
\<close>

theorem stream_stop_releases:
  assumes "s = fold (stream_step vs) ops (managed_stream_new session options)"
    and "length (ms_accepted s) \<le> 18446744073709551616" and "distinct (map ev_request_id (ms_accepted s))"
    and "ms_stop s = StopDone" and "ms_cancels s = []" and "q < length (ms_accepted s)"
  shows "te_admission (ms_terminals s ! q) = None \<and> (arc_alive s q \<longrightarrow> is_terminal s q)"
proof -
  note run = run_facts [OF assms(1)]
  have small: "small s" using assms(2) by (simp add: small_def)
  have "hold_ok s" using run(6) [OF small] assms(3) by (simp add: unique_ids_def)
  then have decided: "arc_alive s q \<Longrightarrow> is_terminal s q"
    using assms(4-6) by (auto simp: hold_ok_def held_def split: if_splits)
  have "outcomes_ok s" using run(4) [OF small] by (simp add: base_ok_def)
  from lease_given_up [OF this run(8) [OF small] assms(6)] decided show ?thesis by blast
qed

text \<open>
  C36. The executor ends. Once the mailbox is closed, the executor thread leaves its loop after
  finitely many of its own steps, however the steps of the other threads fall between them and
  whatever they do: it marks the stream stopped and reports that it is done. The mailbox stays
  closed and empty from then on.
\<close>

theorem stream_executor_ends:
  assumes "s = fold (stream_step vs) ops (managed_stream_new session options)" and "ms_closed s"
    and "exec_rank s \<le> length (filter is_exec later)" and "t = fold (stream_step vs) later s"
  shows "ms_executor_done t \<and> stream_lifecycle t = StreamStopped \<and> ms_closed t \<and>
    ms_input t = [] \<and> ms_results t = []"
proof -
  have phase: "phase_ok s" by (rule run_facts(7) [OF assms(1)])
  note end_run = run_rank [OF assms(2) phase, of vs later, folded assms(4)]
  then have "exec_rank t = 0" using assms(3) by linarith
  with end_run rank_done [of t] show ?thesis by (auto simp: phase_ok_def stream_lifecycle_def)
qed

section \<open>Concrete runs\<close>

definition example_request :: "request_id \<Rightarrow> async_request" where
  "example_request r =
     \<lparr>rq_request_id = r, rq_session_id = ''s'', rq_input = example_text, rq_deadline = 100,
      rq_attempt_limit = 2, rq_admission = \<lparr>al_shared = True\<rparr>\<rparr>"

abbreviation exec_turn :: stream_op where
  "exec_turn \<equiv> OExec 0 True"

abbreviation worker_turn :: "nat \<Rightarrow> stream_op" where
  "worker_turn i \<equiv> OWorker i 0 (Sent (RespFrames []))"

definition example_options :: "delivery_ordering \<Rightarrow> managed_stream_options" where
  "example_options mode = managed_stream_options_default\<lparr>mo_max_in_flight := 2, mo_ordering := mode\<rparr>"

definition example_stream :: "delivery_ordering \<Rightarrow> managed_stream" where
  "example_stream mode = managed_stream_new ''s'' (example_options mode)"

text \<open>Two requests are started; the second one is answered first, and both results are taken.\<close>

definition example_answers :: "stream_op list" where
  "example_answers =
     [OSubmitLocked (example_request 7), OSubmitLocked (example_request 8),
      exec_turn, exec_turn, exec_turn, exec_turn, exec_turn, exec_turn, exec_turn, exec_turn, exec_turn, exec_turn,
      worker_turn 1, worker_turn 1, worker_turn 1, worker_turn 1, worker_turn 1,
      worker_turn 0, worker_turn 0, worker_turn 0, worker_turn 0, worker_turn 0,
      exec_turn, exec_turn, exec_turn, exec_turn, exec_turn, exec_turn, exec_turn, exec_turn, exec_turn,
      ORecv, ORecv]"

text \<open>A stream that is stopped while both requests are active.\<close>

definition example_stop :: "stream_op list" where
  "example_stop =
     [OSubmitLocked (example_request 7), OSubmitLocked (example_request 8),
      exec_turn, exec_turn, exec_turn, exec_turn, exec_turn, exec_turn, exec_turn,
      OStopBegin, exec_turn, exec_turn, OStopStep 0, OStopStep 0, OStopStep 1, OStopStep 0, OStopStep 0, OStopStep 0,
      OStopStep 0]"

text \<open>A stream that is stopped while its only request waits in the mailbox.\<close>

definition example_cleared :: "stream_op list" where
  "example_cleared = [OSubmitLocked (example_request 7), OStopBegin, OStopStep 0]"

text \<open>A worker has won its request when a cancellation stores its flag; the executor then scans.\<close>

definition example_lost :: "stream_op list" where
  "example_lost =
     [OSubmitLocked (example_request 7),
      exec_turn, exec_turn, exec_turn, exec_turn, exec_turn, exec_turn, exec_turn, exec_turn,
      worker_turn 0, worker_turn 0, worker_turn 0, worker_turn 0, OCancelLookup 7, OCancelStore 0]"

text \<open>
  A request id is used again between the two statements with which the executor forgets a
  completed request.
\<close>

definition example_reuse :: "stream_op list" where
  "example_reuse =
     [OSubmitLocked (example_request 7),
      exec_turn, exec_turn, exec_turn, exec_turn, exec_turn, exec_turn, exec_turn, exec_turn,
      worker_turn 0, worker_turn 0, worker_turn 0, worker_turn 0, worker_turn 0, worker_turn 0,
      exec_turn, exec_turn, OSubmitLocked (example_request 7)]"

lemmas example_defs =
  managed_stream_new_def example_stream_def example_options_def managed_stream_options_default_def example_request_def
  submit_locked_def registered_def envelope_of_def terminal_new_def count_accepted_def fetch_add_def fetch_sub_def
  stream_metrics_default_def arc_alive_def bt_get_def bt_keys_def bt_remove_def bt_values_def remove_nth_def Let_def

lemmas example_exec =
  exec_step_def exec_drain_def set_pc_def exec_mailbox_def exec_deliver_def deliver_relaxed_def deliver_strict.simps
  exec_launch_def exec_launch_end_def buffered_not_active_def exec_start_def load_cancelled_def exec_spawn_def
  is_terminal_def exec_complete_def store_active_requests_def exec_resolve_def insert_ordered_def push_relaxed_def
  remove_registration_def advance_delivery_def exec_tombstone_def count_backpressure_def publish_result_def
  stream_complete_def exec_exit_def completion_token_def

lemmas example_threads =
  run_worker_def worker_step_def worker_gate_def worker_classify_def worker_finish_eq tokens_of_def mark_terminal_def
  push_worker_completion_def worker_completion_of_def count_attempt_def validate_response_frames_def
  stream_try_recv_def cancel_lookup_def cancel_store_def cancel_finish_def terminal_finish_eq terminal_cancel_eq
  stop_begin_def stop_step_def stop_close_def clear_input_def drop_leases_def stop_collect_def store_cancelled_def count_cancelled_def

lemmas example_simps = example_defs example_exec example_threads

lemma example_answers_run:
  "map sc_request_id (ms_received (fold (stream_step 32) example_answers (example_stream StrictOrder))) = [7, 8]"
  "length (ms_accepted (fold (stream_step 32) example_answers (example_stream StrictOrder))) = 2"
  "map sc_request_id (ms_received (fold (stream_step 32) example_answers (example_stream RelaxedOrder))) = [8, 7]"
  "length (ms_accepted (fold (stream_step 32) example_answers (example_stream RelaxedOrder))) = 2"
  "\<not> ms_closed (fold (stream_step 32) example_answers (example_stream RelaxedOrder))"
  by (simp_all add: example_answers_def example_simps)

lemma example_stop_run:
  "ms_stop (fold (stream_step 32) example_stop (example_stream StrictOrder)) = StopDone"
  "ms_cancels (fold (stream_step 32) example_stop (example_stream StrictOrder)) = []"
  "map ev_request_id (ms_accepted (fold (stream_step 32) example_stop (example_stream StrictOrder))) = [7, 8]"
  "arc_alive (fold (stream_step 32) example_stop (example_stream StrictOrder)) 1"
  "ms_closed (fold (stream_step 32) example_stop (example_stream StrictOrder))"
  "exec_rank (fold (stream_step 32) example_stop (example_stream StrictOrder)) \<le> 8"
  by (simp_all add: example_stop_def example_simps exec_rank_def)

lemma example_cleared_run:
  "length (ms_accepted (fold (stream_step 32) example_cleared (example_stream StrictOrder))) = 1"
  "\<not> is_terminal (fold (stream_step 32) example_cleared (example_stream StrictOrder)) 0"
  "\<not> arc_alive (fold (stream_step 32) example_cleared (example_stream StrictOrder)) 0"
  by (simp_all add: example_cleared_def example_simps)

theorem stream_bounded_witness:
  "length (ms_active (fold (stream_step 32) example_answers (example_stream StrictOrder))) \<le> 2"
  using stream_bounded [OF refl, of 32 example_answers "''s''" "example_options StrictOrder"] example_answers_run(2)
  by (simp add: example_stream_def) (simp add: example_options_def)

theorem stream_strict_order_witness:
  "\<exists>s. s = fold (stream_step 32) example_answers (example_stream StrictOrder) \<and>
     map sc_request_id (ms_received s) = [7, 8] \<and> sorted_wrt (<) (map fst (ms_published s)) \<and>
     prefix (ms_received s) (map snd (ms_published s))"
  using stream_strict_order [OF refl, of 32 example_answers "''s''"
      "example_options StrictOrder"] example_answers_run(1,2)
  by (simp add: example_stream_def) (simp add: example_options_def)

theorem stream_relaxed_complete_witness:
  "\<exists>s. s = fold (stream_step 32) example_answers (example_stream RelaxedOrder) \<and>
     map sc_request_id (ms_received s) = [8, 7] \<and> mset (map snd (ms_outcomes s)) =
     mset (ms_received s) + mset (ms_results s) + mset (map snd (ms_relaxed s)) + image_mset snd (comp_tokens s)"
  using stream_relaxed_complete [OF refl, of 32 example_answers "''s''"
      "example_options RelaxedOrder"] example_answers_run(3-5)
  by (simp add: example_stream_def) (simp add: example_options_def)

theorem stream_single_outcome_witness:
  "(\<exists>s. s = fold (stream_step 32) example_answers (example_stream StrictOrder) \<and>
     distinct (map fst (ms_outcomes s)) \<and>
     sm_completed (ms_metrics s) = card {q. q < length (ms_accepted s) \<and> is_terminal s q} mod 2 ^ 64) \<and>
   (\<exists>s. s = fold (stream_step 32) example_cleared (example_stream StrictOrder) \<and>
     te_admission (ms_terminals s ! 0) = None \<and> \<not> is_terminal s 0 \<and> ms_closed s)"
  using stream_single_outcome [OF refl, of 32 example_answers "''s''" "example_options StrictOrder"]
    stream_single_outcome [OF refl, of 32 example_cleared "''s''" "example_options StrictOrder"]
    example_answers_run(2) example_cleared_run
  by (auto simp: example_stream_def)

theorem stream_stop_releases_witness:
  "te_admission (ms_terminals (fold (stream_step 32) example_stop (example_stream StrictOrder)) ! 1) = None \<and>
   is_terminal (fold (stream_step 32) example_stop (example_stream StrictOrder)) 1"
proof -
  have "length (ms_accepted (fold (stream_step 32) example_stop (example_stream StrictOrder))) = 2"
    using arg_cong [OF example_stop_run(3), of length] by simp
  then show ?thesis
    using stream_stop_releases [OF refl, of 32 example_stop "''s''"
        "example_options StrictOrder" 1] example_stop_run
    by (simp add: example_stream_def)
qed

theorem stream_executor_ends_witness:
  "ms_executor_done (fold (stream_step 32) (replicate 8 exec_turn)
     (fold (stream_step 32) example_stop (example_stream StrictOrder)))"
  using stream_executor_ends [OF refl _ _ refl, of 32 example_stop "''s''"
      "example_options StrictOrder" "replicate 8 exec_turn"]
    example_stop_run(5,6)
  by (simp add: example_stream_def)

text \<open>
  A cancellation that comes too late, and therefore reports \<open>false\<close>, still suppresses the
  result of a strictly ordered stream: the request counts as succeeded and its result is
  never published.
\<close>

lemma late_cancel_loses_result:
  fixes s t
  defines "s \<equiv> fold (stream_step 32) example_lost (example_stream StrictOrder)"
    and "t \<equiv> fold (stream_step 32)
      [OCancelFinish 0, exec_turn, exec_turn, exec_turn, exec_turn, worker_turn 0, exec_turn, exec_turn, exec_turn,
       exec_turn, exec_turn, exec_turn, exec_turn, exec_turn, exec_turn, exec_turn] s"
  shows "snd (cancel_finish 0 s) = Some False" "map fst (ms_outcomes t) = [0]" "sm_succeeded (ms_metrics t) = 1"
    "sm_cancelled (ms_metrics t) = 0" "ms_lost t = ms_outcomes t" "ms_next_delivery t = 1" "ms_published t = []"
  by (simp_all add: s_def t_def example_lost_def example_simps)

text \<open>
  A request accepted between the executor's \<open>active.remove\<close> and its \<open>remove_registration\<close> of an
  earlier request with the same id loses its registration: \<open>cancel\<close> cannot find it, and a stop
  leaves it undecided with its lease while its worker runs.
\<close>

lemma reused_id_is_unregistered:
  fixes s t
  defines "s \<equiv> fold (stream_step 32) (example_reuse @ [exec_turn]) (example_stream StrictOrder)"
    and "t \<equiv> fold (stream_step 32)
      [exec_turn, exec_turn, exec_turn, exec_turn, exec_turn, exec_turn, OStopBegin, OStopStep 0, OStopStep 0, OStopStep 0] s"
  shows "map ev_terminal (ms_input s) = [1]" "snd (stream_cancel 7 s) = False"
    "ms_stop t = StopDone" "arc_alive t 1" "te_admission (ms_terminals t ! 1) \<noteq> None"
  by (simp_all add: s_def t_def example_reuse_def example_simps stream_cancel_def)

end
