(* ===== verification/Spec2Isabelle.thy ===== *)
theory Spec2Isabelle
  imports Runner_Correct Foreign Foreign_Node Flow_Correct Managed_Stop
begin

text \<open>
  A model of the core of Muxiva, a runtime for realtime multimodal graphs
  (\<open>src/crates/muxiva-types\<close>, \<open>src/crates/muxiva-core\<close>).

  \<^bold>\<open>The program.\<close> Nodes written by users exchange immutable frames over typed edges. A frame
  carries a header (identifiers, timestamp, lineage) and a payload (audio, video, text, bytes,
  signals, events). \<open>GraphBuilder\<close> checks descriptors and edges and computes a deterministic
  order. A registry creates node instances. \<open>GraphRunner\<close> executes a finite graph on one thread;
  the concurrent pieces (edge and signal queues, admission slots, stop tokens, the notification
  bus, the driver of foreign nodes, the flow controller of an input) are monitors that many
  threads call.

  \<^bold>\<open>Theories and sources.\<close>
  \<^item> \<open>Prelude\<close>: results, effects, byte strings, UTF-8, machine integers as bounded naturals,
    ordered maps, and the locale \<open>guarded_system\<close> of state machines with an invariant.
  \<^item> \<open>Identity\<close>, \<open>Values\<close>, \<open>Payloads\<close>, \<open>Frames\<close>: \<open>error.rs\<close>, \<open>id.rs\<close>, \<open>schema.rs\<close>, \<open>time.rs\<close>,
    \<open>value.rs\<close>, \<open>extension.rs\<close>, \<open>lineage.rs\<close>, \<open>frame_buffer.rs\<close> and \<open>frame/*.rs\<close>. They show what each
    constructor accepts, that every frame the API builds is well formed, and what derivation and
    audio merging compute.
  \<^item> \<open>Descriptors\<close>, \<open>Graph\<close>: \<open>node.rs\<close>, \<open>edge.rs\<close>, \<open>graph.rs\<close>. Typing of edges, and the topological order:
    \<open>build\<close> succeeds exactly on acyclic graphs, with the least order.
  \<^item> \<open>Queues\<close>, \<open>Services\<close>, \<open>Notifications\<close>: \<open>queue.rs\<close>, \<open>signal.rs\<close>, \<open>admission.rs\<close>, \<open>cancellation.rs\<close>,
    \<open>resource.rs\<close>, \<open>notification_bus.rs\<close>. Every critical section is one function, so a list of
    operations is an interleaving of threads; the theorems quantify over all of them. Both queues
    interpret the locale \<open>bounded_channel\<close>.
  \<^item> \<open>Nodes\<close>, \<open>Runner\<close>, \<open>Runner_Correct\<close>: node contexts and aborts (\<open>node.rs\<close>, \<open>edge_policy.rs\<close>) and the
    synchronous runner (\<open>runner.rs\<close>). User code is a record of functions on an arbitrary state.
    The work list is a \<open>partial_function\<close>; \<open>run_returns\<close> proves that it returns for every graph and
    user code, so no fuel bound is needed.
  \<^item> \<open>Foreign\<close>, \<open>Registry\<close>, \<open>Foreign_Node\<close>: \<open>foreign.rs\<close>, \<open>registry.rs\<close>, the materialisation of
    \<open>registered_runtime.rs\<close>, \<open>foreign_registry.rs\<close>.
  \<^item> \<open>Realtime\<close>, \<open>Flow\<close>, \<open>Flow_Correct\<close>: \<open>realtime.rs\<close>, \<open>audio_merge.rs\<close>, \<open>flow.rs\<close>. Floating-point
    operations are a parameter, so what is shown holds for any rounding. A merge is characterised
    in both directions (what it joins, and that nothing is passed over). The controller's runs
    keep the history of its evaluations, over which its hysteresis is stated.
  \<^item> \<open>Managed\<close>, \<open>Managed_Steps\<close>, \<open>Managed_Base\<close>, \<open>Managed_Order\<close>, \<open>Managed_Correct\<close>, \<open>Managed_Lease\<close>,
    \<open>Managed_Stop\<close>: \<open>managed_stream.rs\<close>. The executor, the request workers, the callers of \<open>cancel\<close> and the stopper are
    threads with a program counter each; a list of \<open>stream_op\<close> is one interleaving. \<open>Managed_Steps\<close>
    lists the effects of a step, \<open>Managed_Base\<close> to \<open>Managed_Correct\<close> build the invariant
    \<open>managed_inv\<close> layer by layer, \<open>Managed_Lease\<close> shows who holds the admission lease of a request
    (a lease goes when its request is decided, or with the last reference to it when a stop
    clears the mailbox), \<open>Managed_Stop\<close> adds what stopping needs and states the properties.
    Sequence numbers wrap at 64 bits, so they assume at most \<open>2 ^ 64\<close> accepted requests.

  The properties are numbered C1, C2, \<dots>; each is preceded by its statement in words.

  \<^bold>\<open>Modelling choices.\<close> Strings are their UTF-8 bytes. Unsigned machine integers are naturals with
  their checked, saturating or wrapping operations written out; \<open>usize\<close> has 64 bits. Instants
  and durations are nanoseconds. A mutex-protected section is atomic; a condition-variable wait
  is split into the section before it and one section per wake-up, which may come at any time:
  notifications are not modelled, so a lost wake-up is outside the theorems, and liveness is
  stated per step of the thread concerned. The publications of one call of a foreign node reach
  the bus without a stop of the bus between them. Debug assertions are not modelled. \<open>expect\<close> and \<open>unwrap\<close> are
  panic outcomes and shown unreachable. Clocks, id sources, handlers, factories and nodes are
  arguments.

  \<^bold>\<open>Not modelled.\<close> Rendering of logs and diagnostics, JSON graph files and the built-in node
  catalogue, the language bindings, the C interface, the command line, the studio server and
  benchmarks: they are input and output around the core. The threads of the concurrent
  graph runtime are built from the monitors above and not modelled as a system.
\<close>

section \<open>The name validators agree\<close>

text \<open>
  C39. Four modules carry their own copy of the validator for names: identifiers
  (\<open>muxiva-types/src/id.rs\<close>, which scans characters), descriptor names (\<open>node.rs\<close>), policy names and
  visibility labels (\<open>edge.rs\<close>) and resource keys (\<open>resource.rs\<close>), which scan bytes. On every string the four accept the
  same values and return them unchanged.
\<close>

theorem name_validators_agree:
  assumes "is_utf8 s"
  shows "(identifier_new s = Inr t) = (descriptor_name_new s = Inr t) \<and>
         (identifier_new s = Inr t) = (edge_policy_name_new s = Inr t) \<and>
         (identifier_new s = Inr t) = (resource_key_new s = Inr t)"
  using ident.accept_iff[OF assms] descriptor_name.accept_iff[OF assms]
    edge_policy_name.accept_iff[OF assms] resource_key.accept_iff[OF assms] by simp_all

theorem name_validators_agree_witness:
  "identifier_new ''mic'' = Inr ''mic'' \<and> descriptor_name_new ''mic'' = Inr ''mic'' \<and>
   edge_policy_name_new ''mic'' = Inr ''mic'' \<and> resource_key_new ''mic'' = Inr ''mic''"
proof -
  have utf8: "is_utf8 ''mic''" by code_simp
  have "identifier_new ''mic'' = Inr ''mic''" by code_simp
  with name_validators_agree [OF utf8, of "''mic''"] show ?thesis by blast
qed

section \<open>Error codes\<close>

text \<open>
  Every literal code the modelled sources pass to \<open>MuxivaError::new\<close>, or hand out as the code of
  a realtime profile error, is valid, so that constructor never panics there.
\<close>

lemma static_error_codes_valid:
  "list_all is_valid_code
     [''MUXIVA-FRM-ARITHMETIC'', ''MUXIVA-FRM-AUDIO-CHANNELS'', ''MUXIVA-FRM-AUDIO-LENGTH'',
      ''MUXIVA-FRM-AUDIO-MERGE-COMPATIBILITY'', ''MUXIVA-FRM-AUDIO-MERGE-ID'',
      ''MUXIVA-FRM-AUDIO-MERGE-LINEAGE'', ''MUXIVA-FRM-AUDIO-MERGE-PARENTS'',
      ''MUXIVA-FRM-AUDIO-MERGE-TYPE'', ''MUXIVA-FRM-AUDIO-PLANE'', ''MUXIVA-FRM-AUDIO-RATE'',
      ''MUXIVA-FRM-AUDIO-SAMPLES'', ''MUXIVA-FRM-CLOCK-DOMAIN'', ''MUXIVA-FRM-DERIVATION-ID'',
      ''MUXIVA-FRM-EXTENSION-DUPLICATE'', ''MUXIVA-FRM-LINEAGE-CYCLE'',
      ''MUXIVA-FRM-LINEAGE-ORIGIN'', ''MUXIVA-FRM-LINEAGE-REASON'',
      ''MUXIVA-FRM-LINEAGE-TIME-RANGE'', ''MUXIVA-FRM-MEDIA-TYPE'', ''MUXIVA-FRM-NAMESPACE'',
      ''MUXIVA-FRM-REPLACEMENT-ID'', ''MUXIVA-FRM-SCHEMA-VERSION'', ''MUXIVA-FRM-TEXT-UTF8'',
      ''MUXIVA-FRM-TYPE-MISMATCH'', ''MUXIVA-FRM-VALUE-KEY'', ''MUXIVA-FRM-VALUE-NUMBER'',
      ''MUXIVA-FRM-VIDEO-DIMENSIONS'', ''MUXIVA-FRM-VIDEO-LENGTH'', ''MUXIVA-FRM-VIDEO-PLANE'',
      ''MUXIVA-FRM-VIDEO-STRIDE'', ''MUXIVA-NODE-EMISSION-LIMIT'',
      ''MUXIVA-NOTIFICATION-BUS-PUBLISH'', ''MUXIVA-RT-AUDIO-MERGE-ARITHMETIC'',
      ''MUXIVA-RT-AUDIO-MERGE-DURATION'', ''MUXIVA-SIGNAL-LIMIT'', ''MUXIVA-SIGNAL-NO-EDGE'',
      ''MUXIVA-SIGNAL-SOURCE'']"
  by code_simp

lemma profile_error_codes_valid: "is_valid_code (profile_error_code e)"
  by (cases e) (simp_all, code_simp+)

end
